(* ===== verification/Prelude.thy ===== *)
theory Prelude
  imports
    "HOL-Library.Word"
    "HOL-Library.AList"
    "HOL-Library.Multiset"
begin

text \<open>
  Shared vocabulary of the development.

  \<^item> \<open>byte\<close>, \<open>u32\<close>, \<open>u64\<close>: the machine integers of the Rust code.
    The release profile of the workspace switches overflow checks off, so \<open>+\<close>
    and \<open>-\<close> on them wrap.
  \<^item> \<open>result\<close>: the value of a fallible call; \<open>Panic\<close> is a Rust panic
    (slice out of range, \<open>unwrap\<close> on \<open>Err\<close>).
  \<^item> \<open>le_bytes\<close>, \<open>of_le_bytes\<close>: \<open>to_le_bytes\<close> and \<open>from_le_bytes\<close>.
  \<^item> \<open>slice\<close>: \<open>&xs[i..j]\<close>, \<open>None\<close> where the code panics.
  \<^item> \<open>bt_*\<close>: \<open>BTreeMap\<close> as a strictly sorted association list.
  \<^item> \<open>hm_*\<close>: \<open>HashMap\<close> and \<open>DashMap\<close> as association lists with distinct keys.
  \<^item> the locale \<open>map_impl\<close>: what the components rely on of any of these maps.
\<close>

unbundle bit_operations_syntax

type_synonym byte = "8 word"
type_synonym u16 = "16 word"
type_synonym u32 = "32 word"
type_synonym u64 = "64 word"

named_theorems codec_simps \<open>evaluation of the byte codecs\<close>
named_theorems res_simps \<open>case distinctions of fallible calls\<close>


section \<open>Results and panics\<close>

datatype ('e, 'a) result = Ok 'a | Err 'e | Panic

primrec rbind :: "('e, 'a) result \<Rightarrow> ('a \<Rightarrow> ('e, 'b) result) \<Rightarrow> ('e, 'b) result" where
  "rbind (Ok a) f = f a"
| "rbind (Err e) f = Err e"
| "rbind Panic f = Panic"

definition or_panic :: "'a option \<Rightarrow> ('e, 'a) result" where
  "or_panic x = (case x of None \<Rightarrow> Panic | Some a \<Rightarrow> Ok a)"

definition ensure :: "bool \<Rightarrow> 'e \<Rightarrow> ('e, unit) result" where
  "ensure b e = (if b then Ok () else Err e)"

lemma or_panic_simps [simp]: "or_panic None = Panic" "or_panic (Some a) = Ok a"
  by (simp_all add: or_panic_def)

lemma ensure_simps [simp]:
  "ensure True e = Ok ()" "ensure False e = Err e"
  by (simp_all add: ensure_def)

lemma rbind_eq_Ok [res_simps]: "rbind m f = Ok b \<longleftrightarrow> (\<exists>a. m = Ok a \<and> f a = Ok b)"
  by (cases m) auto

lemma rbind_eq_Err [res_simps]:
  "rbind m f = Err e \<longleftrightarrow> m = Err e \<or> (\<exists>a. m = Ok a \<and> f a = Err e)"
  by (cases m) auto

lemma rbind_eq_Panic [res_simps]:
  "rbind m f = Panic \<longleftrightarrow> m = Panic \<or> (\<exists>a. m = Ok a \<and> f a = Panic)"
  by (cases m) auto

lemma rbind_assoc: "rbind (rbind m f) g = rbind m (\<lambda>a. rbind (f a) g)"
  by (cases m) auto

lemma ensure_eq [res_simps]:
  "ensure b e = Ok u \<longleftrightarrow> b" "ensure b e = Err e' \<longleftrightarrow> \<not> b \<and> e' = e" "ensure b e \<noteq> Panic"
  by (auto simp: ensure_def)

lemma or_panic_eq [res_simps]:
  "or_panic x = Ok a \<longleftrightarrow> x = Some a" "or_panic x \<noteq> Err e" "or_panic x = Panic \<longleftrightarrow> x = None"
  by (auto simp: or_panic_def split: option.splits)


section \<open>Slices\<close>

definition slice :: "'a list \<Rightarrow> nat \<Rightarrow> nat \<Rightarrow> 'a list option" where
  "slice xs i j = (if i \<le> j \<and> j \<le> length xs then Some (take (j - i) (drop i xs)) else None)"

lemma slice_eq_None [res_simps]: "slice xs i j = None \<longleftrightarrow> j < i \<or> length xs < j"
  by (auto simp: slice_def)

lemma slice_SomeD:
  assumes "slice xs i j = Some ys"
  shows "length ys = j - i" "i \<le> j" "j \<le> length xs" "ys = take (j - i) (drop i xs)"
  using assms by (auto simp: slice_def split: if_splits)

lemma slice_in_range: "i \<le> j \<Longrightarrow> j \<le> length xs \<Longrightarrow> slice xs i j = Some (take (j - i) (drop i xs))"
  by (simp add: slice_def)

lemma slice_append_left: "j \<le> length xs \<Longrightarrow> slice (xs @ ys) i j = slice xs i j"
  by (auto simp: slice_def)

lemma slice_append_right:
  "length xs \<le> i \<Longrightarrow> i \<le> j \<Longrightarrow> slice (xs @ ys) i j = slice ys (i - length xs) (j - length xs)"
  by (auto simp: slice_def)

lemma slice_exact: "slice (xs @ ys @ zs) (length xs) (length xs + length ys) = Some ys"
  by (simp add: slice_def)

lemma slice_exactI:
  "i = length xs \<Longrightarrow> j = length xs + length ys \<Longrightarrow> slice (xs @ ys @ zs) i j = Some ys"
  by (simp add: slice_def)

definition write_at :: "'a list \<Rightarrow> nat \<Rightarrow> 'a list \<Rightarrow> 'a list" where
  "write_at xs i ys = take i xs @ ys @ drop (i + length ys) xs"

lemma length_write_at [simp]: "i + length ys \<le> length xs \<Longrightarrow> length (write_at xs i ys) = length xs"
  by (simp add: write_at_def)

lemma slice_write_at_same:
  "i + length ys \<le> length xs \<Longrightarrow> slice (write_at xs i ys) i (i + length ys) = Some ys"
  by (simp add: slice_def write_at_def)

lemma slice_write_at_before:
  "i + length ys \<le> length xs \<Longrightarrow> b \<le> i \<Longrightarrow> slice (write_at xs i ys) a b = slice xs a b"
  by (auto simp: slice_def write_at_def drop_take min_def)

lemma slice_write_at_after:
  assumes "i + length ys \<le> length xs" "i + length ys \<le> a"
  shows "slice (write_at xs i ys) a b = slice xs a b"
proof -
  have "drop a (write_at xs i ys) = drop a xs"
    using assms by (simp add: write_at_def)
  then show ?thesis using assms by (simp add: slice_def)
qed


section \<open>Little-endian integers\<close>

primrec le_bytes :: "nat \<Rightarrow> 'a::len word \<Rightarrow> byte list" where
  "le_bytes 0 w = []"
| "le_bytes (Suc n) w = ucast w # le_bytes n (drop_bit 8 w)"

primrec of_le_bytes :: "byte list \<Rightarrow> 'a::len word" where
  "of_le_bytes [] = 0"
| "of_le_bytes (b # bs) = ucast b OR push_bit 8 (of_le_bytes bs)"

lemma length_le_bytes [simp]: "length (le_bytes n w) = n"
  by (induction n arbitrary: w) auto

lemma of_le_bytes_le_bytes_take: "of_le_bytes (le_bytes n w) = take_bit (8 * n) w"
proof (induction n arbitrary: w)
  case (Suc n)
  have "(ucast (ucast w :: byte) :: 'a word) OR push_bit 8 (take_bit (8 * n) (drop_bit 8 w))
          = take_bit (8 * Suc n) w"
    by (rule bit_word_eqI)
      (auto simp: bit_simps not_less algebra_simps dest: bit_imp_le_length)
  then show ?case by (simp add: Suc)
qed simp

lemma of_le_bytes_le_bytes:
  fixes w :: "'a::len word"
  assumes "LENGTH('a) \<le> 8 * n"
  shows "of_le_bytes (le_bytes n w) = w"
  using assms by (simp add: of_le_bytes_le_bytes_take take_bit_word_eq_self)

lemma of_le_bytes_le_bytes_u64 [codec_simps]: "of_le_bytes (le_bytes 8 (w :: u64)) = w"
  by (rule of_le_bytes_le_bytes) simp

lemma of_le_bytes_le_bytes_u32 [codec_simps]: "of_le_bytes (le_bytes 4 (w :: u32)) = w"
  by (rule of_le_bytes_le_bytes) simp

lemma ucast_or_push_8:
  fixes w :: "'a::len word"
  assumes "8 \<le> LENGTH('a)"
  shows "(ucast (ucast b OR push_bit 8 w) :: byte) = b"
  by (rule bit_word_eqI) (use assms in \<open>auto simp: bit_simps\<close>)

lemma of_le_bytes_lt:
  assumes "8 * length bs \<le> LENGTH('a::len)"
  shows "take_bit (8 * length bs) (of_le_bytes bs :: 'a word) = of_le_bytes bs"
  using assms
proof (induction bs)
  case (Cons b bs)
  have "take_bit (8 * length bs) (of_le_bytes bs :: 'a word) = of_le_bytes bs"
    using Cons by simp
  then have *: "bit (of_le_bytes bs :: 'a word) n \<Longrightarrow> n < 8 * length bs" for n
    by (metis bit_take_bit_iff)
  show ?case
    by (rule bit_word_eqI) (auto simp: bit_simps dest: * bit_imp_le_length)
qed simp

lemma le_bytes_of_le_bytes:
  assumes "8 * length bs \<le> LENGTH('a::len)"
  shows "le_bytes (length bs) (of_le_bytes bs :: 'a word) = bs"
  using assms
proof (induction bs)
  case (Cons b bs)
  have t: "take_bit (8 * length bs) (of_le_bytes bs :: 'a word) = of_le_bytes bs"
    using Cons.prems by (intro of_le_bytes_lt) simp
  then have *: "bit (of_le_bytes bs :: 'a word) n \<Longrightarrow> n < 8 * length bs" for n
    by (metis bit_take_bit_iff)
  have "drop_bit 8 (ucast b OR push_bit 8 (of_le_bytes bs :: 'a word)) = of_le_bytes bs"
    by (rule bit_word_eqI) (use Cons.prems in \<open>auto simp: bit_simps dest: * bit_imp_le_length\<close>)
  then show ?case using Cons by (simp add: ucast_or_push_8)
qed simp

lemma le_bytes_inj:
  fixes v w :: "'a::len word"
  assumes "LENGTH('a) \<le> 8 * n" "le_bytes n v = le_bytes n w"
  shows "v = w"
  using assms by (metis of_le_bytes_le_bytes)


section \<open>Machine integers\<close>

lemma unat_word_succ: "x \<noteq> - 1 \<Longrightarrow> unat (x + 1) = Suc (unat x)" for x :: "'a::len word"
  by (metis add.commute add_eq_0_iff unatSuc)

lemma word_succ_gt: "x \<noteq> - 1 \<Longrightarrow> x < x + 1" for x :: "'a::len word"
  by (simp add: word_less_nat_alt unat_word_succ)

lemma unat_word_mult_exact:
  "unat x * unat y < 2 ^ LENGTH('a) \<Longrightarrow> unat (x * y) = unat x * unat y" for x y :: "'a::len word"
  by (rule iffD1 [OF unat_mult_lem])

lemma unat_word_add_exact:
  "unat x + unat y < 2 ^ LENGTH('a) \<Longrightarrow> unat (x + y) = unat x + unat y" for x y :: "'a::len word"
  by (simp add: unat_add_lem)


lemma unat_of_nat_eq: "n < 2 ^ LENGTH('a) \<Longrightarrow> unat (of_nat n :: 'a::len word) = n"
  by (simp add: unat_of_nat)

lemma unat_eq_of_nat: "n < 2 ^ 64 \<Longrightarrow> unat (i :: u64) = n \<longleftrightarrow> i = of_nat n"
  by (auto simp: unat_of_nat_eq)

lemma unat_of_length: "length xs < 2 ^ 64 \<Longrightarrow> unat (of_nat (length xs) :: u64) = length xs"
  by (simp add: unat_of_nat_eq)

lemma unat_ucast_widen:
  fixes w :: "'a::len word"
  assumes "LENGTH('a) \<le> LENGTH('b::len)"
  shows "unat (ucast w :: 'b word) = unat w"
proof -
  have "unat w < 2 ^ LENGTH('b)"
    using unsigned_less [of w] assms by (meson order_less_le_trans power_increasing one_le_numeral)
  then show ?thesis by (simp add: unsigned_ucast_eq take_bit_nat_eq_self)
qed

lemma ucast_of_nat_u64_u32 [simp]: "(ucast (of_nat n :: u64) :: u32) = of_nat n"
  by (simp add: word_unat_eq_iff unsigned_ucast_eq unsigned_of_nat)

lemma unat_ucast_u32_u64 [simp]: "unat (ucast (w :: u32) :: u64) = unat w"
  by (rule unat_ucast_widen) simp


section \<open>Counting in a list of threads\<close>

definition cnt :: "('a \<Rightarrow> bool) \<Rightarrow> 'a list \<Rightarrow> nat" where
  "cnt P xs = length (filter P xs)"

lemma cnt_update:
  "i < length xs \<Longrightarrow> cnt P (xs[i := y]) + of_bool (P (xs ! i)) = cnt P xs + of_bool (P y)"
  unfolding cnt_def
proof (induction xs arbitrary: i)
  case (Cons x xs)
  then show ?case by (cases i) (use Cons.IH in \<open>force+\<close>)
qed simp

lemma cnt_le: "cnt P xs \<le> length xs"
  by (simp add: cnt_def)


section \<open>Saturating arithmetic\<close>

definition saturating_sub :: "u64 \<Rightarrow> u64 \<Rightarrow> u64" where
  "saturating_sub a b = (if b \<le> a then a - b else 0)"

definition saturating_add :: "u64 \<Rightarrow> u64 \<Rightarrow> u64" where
  "saturating_add a b = (if a \<le> a + b then a + b else - 1)"

lemma unat_saturating_sub: "unat (saturating_sub a b) = unat a - unat b"
  by (simp add: saturating_sub_def word_le_nat_alt unat_sub)

lemma unat_saturating_add: "unat (saturating_add a b) = min (unat a + unat b) (2 ^ 64 - 1)"
proof -
  have "a \<le> a + b \<longleftrightarrow> unat a + unat b < 2 ^ 64" by (simp add: no_olen_add_nat)
  moreover have "unat (- 1 :: u64) = 2 ^ 64 - 1" by (simp add: unsigned_minus_1_eq_mask mask_eq_exp_minus_1)
  ultimately show ?thesis by (simp add: saturating_add_def unat_word_add_exact)
qed


section \<open>Maps of the standard library\<close>

text \<open>
  The interface the components use of a map: what a lookup returns after an
  insertion or a removal, and that both keep the representation invariant.
\<close>

locale map_impl =
  fixes empty :: "'m"
    and ins :: "'k \<Rightarrow> 'v \<Rightarrow> 'm \<Rightarrow> 'm"
    and del :: "'k \<Rightarrow> 'm \<Rightarrow> 'm"
    and get :: "'m \<Rightarrow> 'k \<Rightarrow> 'v option"
    and invar :: "'m \<Rightarrow> bool"
  assumes get_empty: "get empty k = None"
    and get_ins: "invar m \<Longrightarrow> get (ins k v m) k' = (if k' = k then Some v else get m k')"
    and get_del: "invar m \<Longrightarrow> get (del k m) k' = (if k' = k then None else get m k')"
    and invar_empty: "invar empty"
    and invar_ins: "invar m \<Longrightarrow> invar (ins k v m)"
    and invar_del: "invar m \<Longrightarrow> invar (del k m)"
begin

lemma invar_ins_all: "invar m \<Longrightarrow> invar (fold (\<lambda>(k, v). ins k v) kvs m)"
  by (induction kvs arbitrary: m) (auto simp: invar_ins)

lemma get_ins_all:
  "invar m \<Longrightarrow> get (fold (\<lambda>(k, v). ins k v) kvs m) k =
     (case map_of (rev kvs) k of Some v \<Rightarrow> Some v | None \<Rightarrow> get m k)"
  by (induction kvs arbitrary: m)
    (auto simp: invar_ins get_ins map_add_def split: option.splits)

lemma get_del_all:
  "invar m \<Longrightarrow> get (fold del ks m) k = (if k \<in> set ks then None else get m k)"
  by (induction ks arbitrary: m) (auto simp: invar_del get_del)

lemma get_ins_distinct:
  assumes "invar m" "distinct (map fst kvs)" "(k, v) \<in> set kvs"
  shows "get (fold (\<lambda>(k, v). ins k v) kvs m) k = Some v"
proof -
  have "map_of (rev kvs) k = Some v"
    using assms(2,3) by (simp add: rev_map [symmetric])
  then show ?thesis using assms(1) by (simp add: get_ins_all)
qed

end

subsection \<open>\<open>BTreeMap\<close>\<close>

type_synonym ('k, 'v) btree = "('k \<times> 'v) list"

primrec bt_insert :: "'k::linorder \<Rightarrow> 'v \<Rightarrow> ('k, 'v) btree \<Rightarrow> ('k, 'v) btree" where
  "bt_insert k v [] = [(k, v)]"
| "bt_insert k v (p # m) =
     (if k < fst p then (k, v) # p # m
      else if k = fst p then (k, v) # m
      else p # bt_insert k v m)"

definition bt_remove :: "'k \<Rightarrow> ('k, 'v) btree \<Rightarrow> ('k, 'v) btree" where
  "bt_remove k m = filter (\<lambda>p. fst p \<noteq> k) m"

definition bt_get :: "('k, 'v) btree \<Rightarrow> 'k \<Rightarrow> 'v option" where
  "bt_get m k = map_of m k"

definition bt_invar :: "('k::linorder, 'v) btree \<Rightarrow> bool" where
  "bt_invar m \<longleftrightarrow> sorted_wrt (<) (map fst m)"

definition bt_keys :: "('k, 'v) btree \<Rightarrow> 'k list" where
  "bt_keys m = map fst m"

definition bt_vals :: "('k, 'v) btree \<Rightarrow> 'v list" where
  "bt_vals m = map snd m"

lemma bt_insert_keys: "fst ` set (bt_insert k v m) = insert k (fst ` set m)"
  by (induction m) auto

lemma bt_insert_sorted: "sorted_wrt (<) (map fst m) \<Longrightarrow> sorted_wrt (<) (map fst (bt_insert k v m))"
proof (induction m)
  case (Cons p m)
  have "fst p < x" if "x \<in> fst ` set (bt_insert k v m)" "fst p < k" for x
    using that Cons.prems by (auto simp: bt_insert_keys)
  with Cons show ?case by (auto simp: not_less order.order_iff_strict)
qed simp

lemma map_of_bt_insert:
  "sorted_wrt (<) (map fst m) \<Longrightarrow> map_of (bt_insert k v m) k' = (if k' = k then Some v else map_of m k')"
  by (induction m) auto

lemma map_of_bt_remove: "map_of (bt_remove k m) k' = (if k' = k then None else map_of m k')"
  by (induction m) (auto simp: bt_remove_def)

lemma sorted_bt_remove: "sorted_wrt (<) (map fst m) \<Longrightarrow> sorted_wrt (<) (map fst (bt_remove k m))"
  by (induction m) (auto simp: bt_remove_def)

interpretation bt: map_impl "[]" bt_insert bt_remove bt_get bt_invar
  by unfold_locales
    (auto simp: bt_get_def bt_invar_def map_of_bt_insert map_of_bt_remove bt_insert_sorted sorted_bt_remove)

lemma bt_invar_distinct: "bt_invar m \<Longrightarrow> distinct (map fst m)"
  by (simp add: bt_invar_def strict_sorted_iff)

lemma bt_get_eq_Some: "bt_invar m \<Longrightarrow> bt_get m k = Some v \<longleftrightarrow> (k, v) \<in> set m"
  by (simp add: bt_get_def bt_invar_distinct)

lemma bt_get_None: "bt_get m k = None \<longleftrightarrow> k \<notin> set (bt_keys m)"
  by (auto simp: bt_get_def bt_keys_def map_of_eq_None_iff)

lemma set_bt_insert: "set (bt_insert k v m) \<subseteq> insert (k, v) (set m)"
  by (induction m) auto

lemma bt_get_map: "bt_get (map (\<lambda>(k, v). (k, f v)) m) p = map_option f (bt_get m p)"
  by (simp add: bt_get_def map_of_map)

lemma bt_invar_map: "bt_invar (map (\<lambda>(k, v). (k, f v)) m) = bt_invar m"
  by (simp add: bt_invar_def comp_def case_prod_unfold)

lemma length_bt_insert:
  "bt_invar m \<Longrightarrow> length (bt_insert k v m) = (if bt_get m k = None then Suc (length m) else length m)"
  unfolding bt_invar_def bt_get_def
  by (induction m) (auto simp: map_of_eq_None_iff split: if_splits)


subsection \<open>\<open>HashMap\<close> and \<open>DashMap\<close>\<close>

type_synonym ('k, 'v) hmap = "('k \<times> 'v) list"

definition hm_insert :: "'k \<Rightarrow> 'v \<Rightarrow> ('k, 'v) hmap \<Rightarrow> ('k, 'v) hmap" where
  "hm_insert k v m = AList.update k v m"

definition hm_remove :: "'k \<Rightarrow> ('k, 'v) hmap \<Rightarrow> ('k, 'v) hmap" where
  "hm_remove k m = AList.delete k m"

definition hm_get :: "('k, 'v) hmap \<Rightarrow> 'k \<Rightarrow> 'v option" where
  "hm_get m k = map_of m k"

definition hm_invar :: "('k, 'v) hmap \<Rightarrow> bool" where
  "hm_invar m \<longleftrightarrow> distinct (map fst m)"

interpretation hm: map_impl "[]" hm_insert hm_remove hm_get hm_invar
  by unfold_locales
    (auto simp: hm_insert_def hm_remove_def hm_get_def hm_invar_def update_conv' delete_conv'
      distinct_update distinct_delete)

lemma length_hm_insert:
  "length (hm_insert k v m) = (if hm_get m k = None then Suc (length m) else length m)"
  unfolding hm_insert_def hm_get_def by (induction m) auto

lemma hm_get_eq_Some: "hm_invar m \<Longrightarrow> hm_get m k = Some v \<longleftrightarrow> (k, v) \<in> set m"
  by (simp add: hm_get_def hm_invar_def)

lemma hm_get_None: "hm_get m k = None \<longleftrightarrow> k \<notin> fst ` set m"
  by (auto simp: hm_get_def map_of_eq_None_iff)

lemma length_hm_remove:
  assumes "hm_invar m"
  shows "length (hm_remove k m) = (if hm_get m k = None then length m else length m - 1)"
  using assms unfolding hm_remove_def hm_get_def hm_invar_def
proof (induction m)
  case (Cons p m)
  then show ?case
    by (cases p; cases m) (auto simp: map_of_eq_None_iff split: if_splits)
qed simp

lemma hm_get_filter:
  assumes "hm_invar m"
  shows "hm_get (filter P m) k = (case hm_get m k of Some v \<Rightarrow> if P (k, v) then Some v else None | None \<Rightarrow> None)"
proof -
  have "hm_invar (filter P m)" using assms by (simp add: hm_invar_def distinct_map_filter)
  then have iff: "hm_get (filter P m) k = Some v \<longleftrightarrow> hm_get m k = Some v \<and> P (k, v)" for v
    using assms by (simp add: hm_get_eq_Some)
  show ?thesis
  proof (cases "hm_get (filter P m) k")
    case None
    then show ?thesis using iff by (cases "hm_get m k") auto
  next
    case (Some v)
    then show ?thesis using iff [of v] by simp
  qed
qed

lemma hm_invar_filter: "hm_invar m \<Longrightarrow> hm_invar (filter P m)"
  by (simp add: hm_invar_def distinct_map_filter)

lemmas map_laws =
  bt.get_empty bt.get_ins bt.get_del bt.invar_empty bt.invar_ins bt.invar_del
  hm.get_empty hm.get_ins hm.get_del hm.invar_empty hm.invar_ins hm.invar_del


end
