(* ===== verification/Location.thy ===== *)
theory Location
  imports Prelude
begin

text \<open>
  Account locations and their on-disk codec.

  Models \<open>hyperplane-types/src/location.rs\<close> (the record, the two constructors,
  the version order, the byte ranges) and the 45-byte encoding of
  \<open>base-locator/src/rocks_locator.rs\<close>.  The lemmas show that decoding is the exact
  inverse of encoding, that it never panics, and that \<open>is_newer_than\<close> is a strict
  weak order whose ties are exactly equal versions.
\<close>

section \<open>Data\<close>

datatype storage_type = Base | Delta | Compacted

record account_location =
  loc_file_id :: u64
  loc_offset :: u64
  loc_stored_size :: u32
  loc_data_offset :: u32
  loc_data_len :: u32
  loc_slot :: u64
  loc_write_version :: u64
  loc_storage_type :: storage_type

definition new_base :: "u64 \<Rightarrow> u64 \<Rightarrow> u32 \<Rightarrow> u32 \<Rightarrow> u32 \<Rightarrow> u64 \<Rightarrow> u64 \<Rightarrow> account_location" where
  "new_base file_id offset stored_size data_offset data_len slot write_version =
     \<lparr> loc_file_id = file_id, loc_offset = offset, loc_stored_size = stored_size,
       loc_data_offset = data_offset, loc_data_len = data_len, loc_slot = slot,
       loc_write_version = write_version, loc_storage_type = Base \<rparr>"

definition new_delta :: "u64 \<Rightarrow> u64 \<Rightarrow> u32 \<Rightarrow> u64 \<Rightarrow> u64 \<Rightarrow> account_location" where
  "new_delta segment_id offset data_len slot write_version =
     \<lparr> loc_file_id = segment_id, loc_offset = offset, loc_stored_size = data_len,
       loc_data_offset = 0, loc_data_len = data_len, loc_slot = slot,
       loc_write_version = write_version, loc_storage_type = Delta \<rparr>"

definition is_newer_than :: "account_location \<Rightarrow> account_location \<Rightarrow> bool" where
  "is_newer_than self other =
     (if loc_slot self \<noteq> loc_slot other then loc_slot self > loc_slot other
      else loc_write_version self > loc_write_version other)"

text \<open>A \<open>Range<u64>\<close> is the pair of its bounds; \<open>as u64\<close> is a widening cast.\<close>

definition read_range :: "account_location \<Rightarrow> u64 \<times> u64" where
  "read_range l = (loc_offset l, loc_offset l + ucast (loc_stored_size l))"

definition data_range :: "account_location \<Rightarrow> u64 \<times> u64" where
  "data_range l =
     (loc_offset l + ucast (loc_data_offset l),
      loc_offset l + ucast (loc_data_offset l) + ucast (loc_data_len l))"

definition in_range :: "u64 \<Rightarrow> u64 \<times> u64 \<Rightarrow> bool" where
  "in_range x r \<longleftrightarrow> fst r \<le> x \<and> x < snd r"

record compressed_location =
  cl_location :: account_location
  cl_pubkey_id :: u64

definition storage_type_fmt :: "storage_type \<Rightarrow> string" where
  "storage_type_fmt s =
     (case s of Base \<Rightarrow> ''base'' | Delta \<Rightarrow> ''delta'' | Compacted \<Rightarrow> ''compacted'')"


section \<open>The 45-byte encoding\<close>

text \<open>The payload of \<open>SerializationError\<close>, one constructor per message format.\<close>

datatype serialization_msg =
    Invalid_location_bytes nat
  | Invalid_storage_type byte
  | Invalid_pubkey_length nat

datatype locator_error =
    BackendError
  | SerializationError serialization_msg
  | LocatorIoError

fun storage_type_byte :: "storage_type \<Rightarrow> byte" where
  "storage_type_byte Base = 0"
| "storage_type_byte Delta = 1"
| "storage_type_byte Compacted = 2"

definition serialize_location :: "account_location \<Rightarrow> (locator_error, byte list) result" where
  "serialize_location l =
     Ok (le_bytes 8 (loc_file_id l) @ le_bytes 8 (loc_offset l) @
         le_bytes 4 (loc_stored_size l) @ le_bytes 4 (loc_data_offset l) @
         le_bytes 4 (loc_data_len l) @ le_bytes 8 (loc_slot l) @
         le_bytes 8 (loc_write_version l) @ [storage_type_byte (loc_storage_type l)])"

text \<open>
  \<open>uN::from_le_bytes(bytes[i..j].try_into().unwrap())\<close>: panics when the slice is out
  of range or its length is not the width of the integer.
\<close>

definition le_at :: "byte list \<Rightarrow> nat \<Rightarrow> nat \<Rightarrow> ('e, 'w::len word) result" where
  "le_at bytes i j =
     rbind (or_panic (slice bytes i j))
       (\<lambda>bs. if 8 * length bs = LENGTH('w) then Ok (of_le_bytes bs) else Panic)"

definition byte_at :: "byte list \<Rightarrow> nat \<Rightarrow> ('e, byte) result" where
  "byte_at bytes i = (if i < length bytes then Ok (bytes ! i) else Panic)"

definition storage_type_of_byte :: "byte \<Rightarrow> (locator_error, storage_type) result" where
  "storage_type_of_byte b =
     (if b = 0 then Ok Base else if b = 1 then Ok Delta else if b = 2 then Ok Compacted
      else Err (SerializationError (Invalid_storage_type b)))"

definition deserialize_location :: "byte list \<Rightarrow> (locator_error, account_location) result" where
  "deserialize_location bytes =
     rbind (ensure (\<not> length bytes < 45) (SerializationError (Invalid_location_bytes (length bytes)))) (\<lambda>_.
     rbind (le_at bytes 0 8) (\<lambda>file_id.
     rbind (le_at bytes 8 16) (\<lambda>offset.
     rbind (le_at bytes 16 20) (\<lambda>stored_size.
     rbind (le_at bytes 20 24) (\<lambda>data_offset.
     rbind (le_at bytes 24 28) (\<lambda>data_len.
     rbind (le_at bytes 28 36) (\<lambda>slot.
     rbind (le_at bytes 36 44) (\<lambda>write_version.
     rbind (byte_at bytes 44) (\<lambda>storage_type_byte.
     rbind (storage_type_of_byte storage_type_byte) (\<lambda>storage_type.
     Ok \<lparr> loc_file_id = file_id, loc_offset = offset, loc_stored_size = stored_size,
          loc_data_offset = data_offset, loc_data_len = data_len, loc_slot = slot,
          loc_write_version = write_version, loc_storage_type = storage_type \<rparr>))))))))))"


section \<open>Library lemmas\<close>

lemma le_at_append:
  fixes w :: "'w::len word"
  assumes "i = length xs" "j = i + n" "LENGTH('w) = 8 * n"
  shows "le_at (xs @ le_bytes n w @ ys) i j = Ok w"
proof -
  have "slice (xs @ le_bytes n w @ ys) i j = Some (le_bytes n w)"
    using assms by (intro slice_exactI) simp_all
  then show ?thesis using assms(3) by (simp add: le_at_def of_le_bytes_le_bytes)
qed

lemma le_at_eq_Ok:
  assumes "j \<le> length bs" "i \<le> j" "LENGTH('w::len) = 8 * (j - i)"
  shows "(le_at bs i j :: ('e, 'w word) result) = Ok (of_le_bytes (take (j - i) (drop i bs)))"
  using assms by (simp add: le_at_def slice_in_range)

lemma le_at_reads:
  assumes "le_at bs i j = Ok (w :: 'w::len word)" "i \<le> j" "LENGTH('w) = 8 * (j - i)"
  shows "le_bytes (j - i) w = take (j - i) (drop i bs)"
  using assms le_bytes_of_le_bytes [where 'a = 'w and bs = "take (j - i) (drop i bs)"]
  by (auto simp: le_at_def res_simps dest: slice_SomeD split: if_splits)

lemma le_at_not_Err [simp]: "le_at bs i j \<noteq> Err e"
  by (auto simp: le_at_def res_simps split: if_splits)

lemma byte_at_not_Err [simp]: "byte_at bs i \<noteq> Err e"
  by (simp add: byte_at_def)

lemma storage_type_of_byte_inverse [simp]: "storage_type_of_byte (storage_type_byte s) = Ok s"
  by (cases s) (simp_all add: storage_type_of_byte_def)

lemma storage_type_of_byte_Ok: "storage_type_of_byte b = Ok s \<Longrightarrow> b = storage_type_byte s"
  by (auto simp: storage_type_of_byte_def split: if_splits)

lemma storage_type_of_byte_not_Panic [simp]: "storage_type_of_byte b \<noteq> Panic"
  by (simp add: storage_type_of_byte_def)

text \<open>The eight fields of the encoding, cut out of any byte string that starts with them.\<close>

lemma take_45_split:
  assumes "45 \<le> length bs"
  shows "take 45 bs = take 8 bs @ take 8 (drop 8 bs) @ take 4 (drop 16 bs) @ take 4 (drop 20 bs) @
           take 4 (drop 24 bs) @ take 8 (drop 28 bs) @ take 8 (drop 36 bs) @ [bs ! 44]"
proof -
  have s: "take (i + j) bs = take i bs @ take j (drop i bs)" for i j
    by (simp add: take_add)
  have "take 45 bs = take 44 bs @ [bs ! 44]"
    using take_Suc_conv_app_nth [of 44 bs] assms by simp
  then show ?thesis
    using s [of 8 8] s [of 16 4] s [of 20 4] s [of 24 4] s [of 28 8] s [of 36 8] by simp
qed

lemma deserialize_serialize_append:
  assumes "serialize_location l = Ok bs"
  shows "deserialize_location (bs @ rest) = Ok l"
proof -
  define a b c d e f g h where fields:
    "a = le_bytes 8 (loc_file_id l)" "b = le_bytes 8 (loc_offset l)"
    "c = le_bytes 4 (loc_stored_size l)" "d = le_bytes 4 (loc_data_offset l)"
    "e = le_bytes 4 (loc_data_len l)" "f = le_bytes 8 (loc_slot l)"
    "g = le_bytes 8 (loc_write_version l)" "h = storage_type_byte (loc_storage_type l)"
  have bs: "bs = a @ b @ c @ d @ e @ f @ g @ [h]"
    using assms by (simp add: serialize_location_def fields)
  note R = le_at_append
  have "le_at (bs @ rest) 0 8 = (Ok (loc_file_id l) :: (locator_error, u64) result)"
    using R [of 0 "[]" 8 8 "loc_file_id l"] by (simp add: bs fields)
  moreover have "le_at (bs @ rest) 8 16 = (Ok (loc_offset l) :: (locator_error, u64) result)"
    using R [of 8 a 16 8 "loc_offset l"] by (simp add: bs fields)
  moreover have "le_at (bs @ rest) 16 20 = (Ok (loc_stored_size l) :: (locator_error, u32) result)"
    using R [of 16 "a @ b" 20 4 "loc_stored_size l"] by (simp add: bs fields)
  moreover have "le_at (bs @ rest) 20 24 = (Ok (loc_data_offset l) :: (locator_error, u32) result)"
    using R [of 20 "a @ b @ c" 24 4 "loc_data_offset l"] by (simp add: bs fields)
  moreover have "le_at (bs @ rest) 24 28 = (Ok (loc_data_len l) :: (locator_error, u32) result)"
    using R [of 24 "a @ b @ c @ d" 28 4 "loc_data_len l"] by (simp add: bs fields)
  moreover have "le_at (bs @ rest) 28 36 = (Ok (loc_slot l) :: (locator_error, u64) result)"
    using R [of 28 "a @ b @ c @ d @ e" 36 8 "loc_slot l"] by (simp add: bs fields)
  moreover have "le_at (bs @ rest) 36 44 = (Ok (loc_write_version l) :: (locator_error, u64) result)"
    using R [of 36 "a @ b @ c @ d @ e @ f" 44 8 "loc_write_version l"] by (simp add: bs fields)
  moreover have "byte_at (bs @ rest) 44 = (Ok h :: (locator_error, byte) result)"
    by (simp add: byte_at_def bs fields nth_append)
  moreover have "45 \<le> length (bs @ rest)" by (simp add: bs fields)
  ultimately show ?thesis by (simp add: deserialize_location_def fields)
qed

lemma deserialize_not_Panic: "deserialize_location bs \<noteq> Panic"
proof (cases "length bs < 45")
  case False
  then show ?thesis
    by (simp add: deserialize_location_def le_at_eq_Ok byte_at_def rbind_eq_Panic)
qed (simp add: deserialize_location_def)

lemma deserialize_Ok_prefix:
  assumes "deserialize_location bs = Ok l"
  shows "serialize_location l = Ok (take 45 bs)"
proof -
  have len: "45 \<le> length bs"
    using assms by (auto simp: deserialize_location_def res_simps)
  have L: "le_bytes n (of_le_bytes (take n ys) :: 'w::len word) = take n ys"
    if "n \<le> length ys" "LENGTH('w) = 8 * n" for n ys
    using le_bytes_of_le_bytes [where 'a = 'w and bs = "take n ys"] that by simp
  obtain s where s: "storage_type_of_byte (bs ! 44) = Ok s"
    and l: "l = \<lparr> loc_file_id = of_le_bytes (take 8 bs), loc_offset = of_le_bytes (take 8 (drop 8 bs)),
      loc_stored_size = of_le_bytes (take 4 (drop 16 bs)),
      loc_data_offset = of_le_bytes (take 4 (drop 20 bs)),
      loc_data_len = of_le_bytes (take 4 (drop 24 bs)), loc_slot = of_le_bytes (take 8 (drop 28 bs)),
      loc_write_version = of_le_bytes (take 8 (drop 36 bs)), loc_storage_type = s \<rparr>"
    using assms len by (auto simp: deserialize_location_def le_at_eq_Ok byte_at_def rbind_eq_Ok)
  show ?thesis
    unfolding serialize_location_def take_45_split [OF len]
    using len storage_type_of_byte_Ok [OF s] by (simp add: l L)
qed

lemma serialize_length: "serialize_location l = Ok bs \<Longrightarrow> length bs = 45"
  by (auto simp: serialize_location_def)

text \<open>The version of a location, and the order of versions.\<close>

definition version :: "account_location \<Rightarrow> u64 \<times> u64" where
  "version l = (loc_slot l, loc_write_version l)"

lemma is_newer_than_iff:
  "is_newer_than l m \<longleftrightarrow>
     loc_slot m < loc_slot l \<or> loc_slot m = loc_slot l \<and> loc_write_version m < loc_write_version l"
  by (auto simp: is_newer_than_def)


section \<open>Properties\<close>

text \<open>C3: decoding a location never panics, and it succeeds with \<open>l\<close> exactly on the byte
  strings whose first 45 bytes are the encoding of \<open>l\<close>: the codec loses nothing, accepts
  nothing else, and ignores trailing bytes.\<close>

theorem location_codec_exact:
  "deserialize_location bs \<noteq> Panic \<and>
   (deserialize_location bs = Ok l \<longleftrightarrow> serialize_location l = Ok (take 45 bs))"
  using deserialize_not_Panic deserialize_Ok_prefix
    deserialize_serialize_append [of l "take 45 bs" "drop 45 bs"] by auto

text \<open>\<open>is_newer_than\<close> is a strict order by slot, then write version: irreflexive,
  transitive, and two locations are unordered exactly when their versions coincide.\<close>

theorem is_newer_than_strict_order:
  "\<not> is_newer_than l l \<and>
   (is_newer_than l m \<and> is_newer_than m n \<longrightarrow> is_newer_than l n) \<and>
   (\<not> is_newer_than l m \<and> \<not> is_newer_than m l \<longleftrightarrow> version l = version m)"
  by (auto simp: is_newer_than_iff version_def)

theorem is_newer_than_strict_order_witness:
  "is_newer_than (new_base 1 0 0 0 0 7 9) (new_delta 1 0 0 7 3) \<and>
   is_newer_than (new_delta 1 0 0 7 3) (new_base 1 0 0 0 0 6 50) \<and>
   is_newer_than (new_base 1 0 0 0 0 7 9) (new_base 1 0 0 0 0 6 50)"
  using is_newer_than_strict_order [of "new_base 1 0 0 0 0 7 9" "new_delta 1 0 0 7 3"
      "new_base 1 0 0 0 0 6 50"]
  by (simp add: is_newer_than_def new_base_def new_delta_def)

text \<open>When the stored region does not run past the end of the address space and the
  payload fits into it, the data range lies inside the read range, so a reader that maps
  the read range can serve the payload.\<close>

theorem data_range_in_read_range:
  assumes "unat (loc_offset l) + unat (loc_stored_size l) < 2 ^ 64"
    and "unat (loc_data_offset l) + unat (loc_data_len l) \<le> unat (loc_stored_size l)"
    and "in_range x (data_range l)"
  shows "in_range x (read_range l)"
proof -
  have "unat (loc_offset l + ucast (loc_data_offset l)) = unat (loc_offset l) + unat (loc_data_offset l)"
    using assms(1,2) by (subst unat_word_add_exact) simp_all
  moreover from this have "unat (loc_offset l + ucast (loc_data_offset l) + ucast (loc_data_len l))
      = unat (loc_offset l) + unat (loc_data_offset l) + unat (loc_data_len l)"
    using assms(1,2) by (subst unat_word_add_exact) simp_all
  moreover have "unat (loc_offset l + ucast (loc_stored_size l)) = unat (loc_offset l) + unat (loc_stored_size l)"
    using assms(1) by (subst unat_word_add_exact) simp_all
  ultimately show ?thesis
    using assms(2,3) by (simp add: in_range_def data_range_def read_range_def word_le_nat_alt word_less_nat_alt)
qed

theorem data_range_in_read_range_witness:
  "in_range 1050 (data_range (new_base 1 1000 120 20 100 100 1)) \<and>
   in_range 1050 (read_range (new_base 1 1000 120 20 100 100 1))"
  using data_range_in_read_range [of "new_base 1 1000 120 20 100 100 1" 1050]
  by (simp add: in_range_def data_range_def new_base_def)

end
