(* ===== verification/Bitmap.thy ===== *)
theory Bitmap
  imports Prelude
begin

text \<open>
  Compressed bitmaps and the pubkey dictionary (\<open>hyperplane-types/src/bitmap.rs\<close>).

  The \<open>roaring\<close> crate is a parameter: a record \<open>treemap_ops\<close> of the operations the code
  calls, with their documented behaviour as the laws of the locale \<open>roaring\<close>.  The locale
  \<open>id_set\<close> is the interface every index relies on; \<open>sublocale\<close> shows that \<open>PubkeyBitmap\<close>
  implements it over any lawful treemap, its cached cardinality included.  The dictionary
  is shown to refine the list of its pubkeys in order of first insertion.
\<close>

section \<open>The bitmap crate as a parameter\<close>

record 'b treemap_ops =
  tm_new :: 'b
  tm_insert :: "u64 \<Rightarrow> 'b \<Rightarrow> bool \<times> 'b"
  tm_remove :: "u64 \<Rightarrow> 'b \<Rightarrow> bool \<times> 'b"
  tm_contains :: "'b \<Rightarrow> u64 \<Rightarrow> bool"
  tm_len :: "'b \<Rightarrow> u64"
  tm_and :: "'b \<Rightarrow> 'b \<Rightarrow> 'b"
  tm_or :: "'b \<Rightarrow> 'b \<Rightarrow> 'b"
  tm_sub :: "'b \<Rightarrow> 'b \<Rightarrow> 'b"
  tm_iter :: "'b \<Rightarrow> u64 list"
  tm_serialize :: "'b \<Rightarrow> byte list"
  tm_deserialize :: "byte list \<Rightarrow> 'b option"


section \<open>\<open>PubkeyBitmap\<close>\<close>

record 'b pubkey_bitmap =
  pb_bitmap :: 'b
  pb_cardinality :: u64

definition pb_new :: "'b treemap_ops \<Rightarrow> 'b pubkey_bitmap" where
  "pb_new R = \<lparr> pb_bitmap = tm_new R, pb_cardinality = 0 \<rparr>"

definition pb_insert :: "'b treemap_ops \<Rightarrow> u64 \<Rightarrow> 'b pubkey_bitmap \<Rightarrow> bool \<times> 'b pubkey_bitmap" where
  "pb_insert R pubkey_id b =
     (let (inserted, m) = tm_insert R pubkey_id (pb_bitmap b) in
      if inserted then (True, \<lparr> pb_bitmap = m, pb_cardinality = tm_len R m \<rparr>)
      else (False, b \<lparr> pb_bitmap := m \<rparr>))"

definition pb_remove :: "'b treemap_ops \<Rightarrow> u64 \<Rightarrow> 'b pubkey_bitmap \<Rightarrow> bool \<times> 'b pubkey_bitmap" where
  "pb_remove R pubkey_id b =
     (let (removed, m) = tm_remove R pubkey_id (pb_bitmap b) in
      if removed then (True, \<lparr> pb_bitmap = m, pb_cardinality = tm_len R m \<rparr>)
      else (False, b \<lparr> pb_bitmap := m \<rparr>))"

definition pb_contains :: "'b treemap_ops \<Rightarrow> 'b pubkey_bitmap \<Rightarrow> u64 \<Rightarrow> bool" where
  "pb_contains R b pubkey_id = tm_contains R (pb_bitmap b) pubkey_id"

definition pb_len :: "'b pubkey_bitmap \<Rightarrow> u64" where
  "pb_len b = pb_cardinality b"

definition pb_is_empty :: "'b pubkey_bitmap \<Rightarrow> bool" where
  "pb_is_empty b \<longleftrightarrow> pb_cardinality b = 0"

definition pb_live_cardinality :: "'b treemap_ops \<Rightarrow> 'b pubkey_bitmap \<Rightarrow> u64" where
  "pb_live_cardinality R b = tm_len R (pb_bitmap b)"

definition pb_intersection ::
  "'b treemap_ops \<Rightarrow> 'b pubkey_bitmap \<Rightarrow> 'b pubkey_bitmap \<Rightarrow> 'b pubkey_bitmap" where
  "pb_intersection R b c =
     (let m = tm_and R (pb_bitmap b) (pb_bitmap c)
      in \<lparr> pb_bitmap = m, pb_cardinality = tm_len R m \<rparr>)"

definition pb_union ::
  "'b treemap_ops \<Rightarrow> 'b pubkey_bitmap \<Rightarrow> 'b pubkey_bitmap \<Rightarrow> 'b pubkey_bitmap" where
  "pb_union R b c =
     (let m = tm_or R (pb_bitmap b) (pb_bitmap c)
      in \<lparr> pb_bitmap = m, pb_cardinality = tm_len R m \<rparr>)"

definition pb_difference ::
  "'b treemap_ops \<Rightarrow> 'b pubkey_bitmap \<Rightarrow> 'b pubkey_bitmap \<Rightarrow> 'b pubkey_bitmap" where
  "pb_difference R b c =
     (let m = tm_sub R (pb_bitmap b) (pb_bitmap c)
      in \<lparr> pb_bitmap = m, pb_cardinality = tm_len R m \<rparr>)"

definition pb_iter :: "'b treemap_ops \<Rightarrow> 'b pubkey_bitmap \<Rightarrow> u64 list" where
  "pb_iter R b = tm_iter R (pb_bitmap b)"

definition pb_first_n :: "'b treemap_ops \<Rightarrow> 'b pubkey_bitmap \<Rightarrow> nat \<Rightarrow> u64 list" where
  "pb_first_n R b n = take n (tm_iter R (pb_bitmap b))"

definition pb_serialize :: "'b treemap_ops \<Rightarrow> 'b pubkey_bitmap \<Rightarrow> byte list" where
  "pb_serialize R b = tm_serialize R (pb_bitmap b)"

definition pb_deserialize :: "'b treemap_ops \<Rightarrow> byte list \<Rightarrow> 'b pubkey_bitmap option" where
  "pb_deserialize R bytes =
     (case tm_deserialize R bytes of None \<Rightarrow> None
      | Some m \<Rightarrow> Some \<lparr> pb_bitmap = m, pb_cardinality = tm_len R m \<rparr>)"

definition pb_compressed_size :: "'b treemap_ops \<Rightarrow> 'b pubkey_bitmap \<Rightarrow> nat" where
  "pb_compressed_size R b = length (pb_serialize R b)"

text \<open>\<open>RoaringTreemap::clear\<close> leaves the empty treemap.\<close>

definition pb_clear :: "'b treemap_ops \<Rightarrow> 'b pubkey_bitmap \<Rightarrow> 'b pubkey_bitmap" where
  "pb_clear R b = \<lparr> pb_bitmap = tm_new R, pb_cardinality = 0 \<rparr>"


section \<open>\<open>IndexEntry\<close>\<close>

record 'b index_entry =
  ie_key :: "byte list"
  ie_bitmap :: "'b pubkey_bitmap"
  ie_last_updated_slot :: u64
  ie_entry_count :: u64

definition index_entry_new :: "'b treemap_ops \<Rightarrow> byte list \<Rightarrow> 'b index_entry" where
  "index_entry_new R key =
     \<lparr> ie_key = key, ie_bitmap = pb_new R, ie_last_updated_slot = 0, ie_entry_count = 0 \<rparr>"

definition index_entry_update :: "'b pubkey_bitmap \<Rightarrow> u64 \<Rightarrow> 'b index_entry \<Rightarrow> 'b index_entry" where
  "index_entry_update bitmap slot e =
     e \<lparr> ie_bitmap := bitmap, ie_entry_count := pb_len bitmap, ie_last_updated_slot := slot \<rparr>"


section \<open>\<open>PubkeyDictionary\<close>\<close>

record 'pk pubkey_dictionary =
  pd_pubkey_to_id :: "('pk, u64) hmap"
  pd_id_to_pubkey :: "(u64, 'pk) hmap"
  pd_next_id :: u64

definition pd_new :: "'pk pubkey_dictionary" where
  "pd_new = \<lparr> pd_pubkey_to_id = [], pd_id_to_pubkey = [], pd_next_id = 0 \<rparr>"

definition pd_insert :: "'pk \<Rightarrow> 'pk pubkey_dictionary \<Rightarrow> u64 \<times> 'pk pubkey_dictionary" where
  "pd_insert pubkey d =
     (case hm_get (pd_pubkey_to_id d) pubkey of
        Some pid \<Rightarrow> (pid, d)
      | None \<Rightarrow>
          (let pid = pd_next_id d in
           (pid, \<lparr> pd_pubkey_to_id = hm_insert pubkey pid (pd_pubkey_to_id d),
                  pd_id_to_pubkey = hm_insert pid pubkey (pd_id_to_pubkey d),
                  pd_next_id = pid + 1 \<rparr>)))"

definition pd_get_id :: "'pk pubkey_dictionary \<Rightarrow> 'pk \<Rightarrow> u64 option" where
  "pd_get_id d pubkey = hm_get (pd_pubkey_to_id d) pubkey"

definition pd_get_pubkey :: "'pk pubkey_dictionary \<Rightarrow> u64 \<Rightarrow> 'pk option" where
  "pd_get_pubkey d pubkey_id = hm_get (pd_id_to_pubkey d) pubkey_id"

definition pd_contains :: "'pk pubkey_dictionary \<Rightarrow> 'pk \<Rightarrow> bool" where
  "pd_contains d pubkey \<longleftrightarrow> hm_get (pd_pubkey_to_id d) pubkey \<noteq> None"

definition pd_len :: "'pk pubkey_dictionary \<Rightarrow> nat" where
  "pd_len d = length (pd_pubkey_to_id d)"

definition pd_is_empty :: "'pk pubkey_dictionary \<Rightarrow> bool" where
  "pd_is_empty d \<longleftrightarrow> pd_pubkey_to_id d = []"

primrec pd_batch_insert :: "'pk list \<Rightarrow> 'pk pubkey_dictionary \<Rightarrow> u64 list \<times> 'pk pubkey_dictionary" where
  "pd_batch_insert [] d = ([], d)"
| "pd_batch_insert (pk # pks) d =
     (let (pid, d1) = pd_insert pk d; (ids, d2) = pd_batch_insert pks d1 in (pid # ids, d2))"

definition pd_batch_get_id :: "'pk pubkey_dictionary \<Rightarrow> 'pk list \<Rightarrow> u64 option list" where
  "pd_batch_get_id d pubkeys = map (pd_get_id d) pubkeys"

definition pd_batch_get_pubkey :: "'pk pubkey_dictionary \<Rightarrow> u64 list \<Rightarrow> 'pk option list" where
  "pd_batch_get_pubkey d pubkey_ids = map (pd_get_pubkey d) pubkey_ids"

text \<open>\<open>bincode::serialize\<close> and \<open>bincode::deserialize\<close> are parameters.\<close>

definition pd_serialize ::
  "('pk pubkey_dictionary \<Rightarrow> byte list option) \<Rightarrow> 'pk pubkey_dictionary \<Rightarrow> byte list" where
  "pd_serialize bincode_ser d = (case bincode_ser d of Some bs \<Rightarrow> bs | None \<Rightarrow> [])"

definition pd_deserialize ::
  "(byte list \<Rightarrow> 'pk pubkey_dictionary option) \<Rightarrow> byte list \<Rightarrow> 'pk pubkey_dictionary option" where
  "pd_deserialize bincode_de bytes = bincode_de bytes"

definition pd_memory_usage :: "'pk pubkey_dictionary \<Rightarrow> u64" where
  "pd_memory_usage d = (let entry_size = 32 + 8 + 64 in of_nat (length (pd_pubkey_to_id d)) * entry_size * 2)"

definition pd_clear :: "'pk pubkey_dictionary \<Rightarrow> 'pk pubkey_dictionary" where
  "pd_clear d = d \<lparr> pd_pubkey_to_id := [], pd_id_to_pubkey := [], pd_next_id := 0 \<rparr>"

definition pd_from_iter :: "'pk list \<Rightarrow> 'pk pubkey_dictionary" where
  "pd_from_iter pubkeys = fold (\<lambda>pk d. snd (pd_insert pk d)) pubkeys pd_new"


section \<open>Interfaces\<close>

text \<open>What an index relies on of a set of pubkey ids.\<close>

locale id_set =
  fixes new :: "'s"
    and ins :: "u64 \<Rightarrow> 's \<Rightarrow> bool \<times> 's"
    and rem :: "u64 \<Rightarrow> 's \<Rightarrow> bool \<times> 's"
    and mem :: "'s \<Rightarrow> u64 \<Rightarrow> bool"
    and size_of :: "'s \<Rightarrow> u64"
    and meet :: "'s \<Rightarrow> 's \<Rightarrow> 's"
    and join :: "'s \<Rightarrow> 's \<Rightarrow> 's"
    and minus_of :: "'s \<Rightarrow> 's \<Rightarrow> 's"
    and elems :: "'s \<Rightarrow> u64 list"
    and ok :: "'s \<Rightarrow> bool"
  assumes ok_new: "ok new"
    and ok_ins: "ok s \<Longrightarrow> ok (snd (ins x s))"
    and ok_rem: "ok s \<Longrightarrow> ok (snd (rem x s))"
    and ok_meet: "ok s \<Longrightarrow> ok t \<Longrightarrow> ok (meet s t)"
    and ok_join: "ok s \<Longrightarrow> ok t \<Longrightarrow> ok (join s t)"
    and ok_minus: "ok s \<Longrightarrow> ok t \<Longrightarrow> ok (minus_of s t)"
    and elems_new: "elems new = []"
    and elems_sorted: "sorted_wrt (<) (elems s)"
    and ins_new: "fst (ins x s) \<longleftrightarrow> x \<notin> set (elems s)"
    and rem_old: "fst (rem x s) \<longleftrightarrow> x \<in> set (elems s)"
    and elems_ins: "set (elems (snd (ins x s))) = insert x (set (elems s))"
    and elems_rem: "set (elems (snd (rem x s))) = set (elems s) - {x}"
    and mem_elems: "mem s x \<longleftrightarrow> x \<in> set (elems s)"
    and size_elems: "ok s \<Longrightarrow> size_of s = of_nat (length (elems s))"
    and elems_meet: "set (elems (meet s t)) = set (elems s) \<inter> set (elems t)"
    and elems_join: "set (elems (join s t)) = set (elems s) \<union> set (elems t)"
    and elems_minus: "set (elems (minus_of s t)) = set (elems s) - set (elems t)"
begin

lemma elems_distinct: "distinct (elems s)"
  using elems_sorted [of s] by (simp add: strict_sorted_iff)

lemma elems_eq_sorted_list: "elems s = sorted_list_of_set (set (elems s))"
  using elems_sorted [of s] elems_distinct [of s]
  by (simp add: sorted_list_of_set.idem_if_sorted_distinct strict_sorted_imp_sorted)

lemma elems_eqI: "set (elems s) = set (elems t) \<Longrightarrow> elems s = elems t"
  by (metis elems_eq_sorted_list)

lemma ok_ins_all: "ok s \<Longrightarrow> ok (fold (\<lambda>x s. snd (ins x s)) xs s)"
  by (induction xs arbitrary: s) (auto simp: ok_ins)

lemma elems_ins_all: "set (elems (fold (\<lambda>x s. snd (ins x s)) xs s)) = set xs \<union> set (elems s)"
  by (induction xs arbitrary: s) (auto simp: elems_ins)

lemma elems_join_all: "set (elems (fold (\<lambda>t s. join s t) ts s)) = \<Union> (set ` elems ` set ts) \<union> set (elems s)"
  by (induction ts arbitrary: s) (auto simp: elems_join)

lemma ok_meet_all: "ok s \<Longrightarrow> \<forall>t\<in>set ts. ok t \<Longrightarrow> ok (fold (\<lambda>t s. meet s t) ts s)"
  by (induction ts arbitrary: s) (auto simp: ok_meet)

lemma elems_meet_all:
  "set (elems (fold (\<lambda>t s. meet s t) ts s)) = {x \<in> set (elems s). \<forall>t\<in>set ts. x \<in> set (elems t)}"
  by (induction ts arbitrary: s) (auto simp: elems_meet)

lemma length_ins:
  "length (elems (snd (ins x s))) = (if x \<in> set (elems s) then length (elems s) else Suc (length (elems s)))"
  using elems_distinct elems_ins [of x s] by (metis distinct_card card_insert_if List.finite_set)

lemma size_zero_iff:
  assumes "ok s" "length (elems s) < 2 ^ 64"
  shows "size_of s = 0 \<longleftrightarrow> elems s = []"
  using assms by (simp add: size_elems word_of_nat_eq_0_iff dvd_imp_le)
    (metis dvd_imp_le length_greater_0_conv linorder_not_less dvd_0_right list.size(3))

end

text \<open>
  The documented behaviour of \<open>RoaringTreemap\<close>: ascending iteration, set semantics of the
  operations, \<open>insert\<close> and \<open>remove\<close> report a change, serialisation round-trips.
\<close>

locale roaring =
  fixes R :: "'b treemap_ops"
  assumes tm_iter_new: "tm_iter R (tm_new R) = []"
    and tm_iter_sorted: "sorted_wrt (<) (tm_iter R m)"
    and tm_insert_new: "fst (tm_insert R x m) \<longleftrightarrow> x \<notin> set (tm_iter R m)"
    and tm_remove_old: "fst (tm_remove R x m) \<longleftrightarrow> x \<in> set (tm_iter R m)"
    and tm_iter_insert: "set (tm_iter R (snd (tm_insert R x m))) = insert x (set (tm_iter R m))"
    and tm_iter_remove: "set (tm_iter R (snd (tm_remove R x m))) = set (tm_iter R m) - {x}"
    and tm_contains_iter: "tm_contains R m x \<longleftrightarrow> x \<in> set (tm_iter R m)"
    and tm_len_iter: "tm_len R m = of_nat (length (tm_iter R m))"
    and tm_iter_and: "set (tm_iter R (tm_and R m n)) = set (tm_iter R m) \<inter> set (tm_iter R n)"
    and tm_iter_or: "set (tm_iter R (tm_or R m n)) = set (tm_iter R m) \<union> set (tm_iter R n)"
    and tm_iter_sub: "set (tm_iter R (tm_sub R m n)) = set (tm_iter R m) - set (tm_iter R n)"
    and tm_deserialize_serialize: "\<exists>m'. tm_deserialize R (tm_serialize R m) = Some m' \<and> tm_iter R m' = tm_iter R m"
begin

lemma tm_distinct: "distinct (tm_iter R m)"
  using tm_iter_sorted [of m] by (simp add: strict_sorted_iff)

lemma tm_iter_eqI: "set (tm_iter R m) = set (tm_iter R n) \<Longrightarrow> tm_iter R m = tm_iter R n"
  by (meson strict_sorted_equal tm_iter_sorted)

lemma tm_insert_old: "\<not> fst (tm_insert R x m) \<Longrightarrow> tm_iter R (snd (tm_insert R x m)) = tm_iter R m"
  by (rule tm_iter_eqI) (auto simp: tm_insert_new tm_iter_insert)

lemma tm_remove_new: "\<not> fst (tm_remove R x m) \<Longrightarrow> tm_iter R (snd (tm_remove R x m)) = tm_iter R m"
  by (rule tm_iter_eqI) (auto simp: tm_remove_old tm_iter_remove)

end

text \<open>The cached cardinality is exact.\<close>

definition pb_ok :: "'b treemap_ops \<Rightarrow> 'b pubkey_bitmap \<Rightarrow> bool" where
  "pb_ok R b \<longleftrightarrow> pb_cardinality b = tm_len R (pb_bitmap b)"

context roaring
begin

lemma pb_bitmap_insert: "pb_bitmap (snd (pb_insert R x s)) = snd (tm_insert R x (pb_bitmap s))"
  by (simp add: pb_insert_def split: prod.split)

lemma pb_bitmap_remove: "pb_bitmap (snd (pb_remove R x s)) = snd (tm_remove R x (pb_bitmap s))"
  by (simp add: pb_remove_def split: prod.split)

lemma pb_bitmap_setops:
  "pb_bitmap (pb_new R) = tm_new R"
  "pb_bitmap (pb_intersection R s t) = tm_and R (pb_bitmap s) (pb_bitmap t)"
  "pb_bitmap (pb_union R s t) = tm_or R (pb_bitmap s) (pb_bitmap t)"
  "pb_bitmap (pb_difference R s t) = tm_sub R (pb_bitmap s) (pb_bitmap t)"
  by (simp_all add: pb_new_def pb_intersection_def pb_union_def pb_difference_def Let_def)

lemma pb_ok_setops:
  "pb_ok R (pb_new R)" "pb_ok R (pb_intersection R s t)" "pb_ok R (pb_union R s t)"
  "pb_ok R (pb_difference R s t)"
  by (simp_all add: pb_ok_def pb_new_def pb_intersection_def pb_union_def pb_difference_def Let_def
      tm_len_iter tm_iter_new)

lemma pb_len_iter: "pb_ok R s \<Longrightarrow> pb_len s = of_nat (length (tm_iter R (pb_bitmap s)))"
  by (simp add: pb_ok_def pb_len_def tm_len_iter)

lemma fst_pb_insert: "fst (pb_insert R x s) = fst (tm_insert R x (pb_bitmap s))"
  by (simp add: pb_insert_def split: prod.split)

lemma fst_pb_remove: "fst (pb_remove R x s) = fst (tm_remove R x (pb_bitmap s))"
  by (simp add: pb_remove_def split: prod.split)

lemma pb_ok_insert: "pb_ok R s \<Longrightarrow> pb_ok R (snd (pb_insert R x s))"
  using tm_insert_old [of x "pb_bitmap s"]
  by (cases "tm_insert R x (pb_bitmap s)") (simp add: pb_ok_def pb_insert_def tm_len_iter)

lemma pb_ok_remove: "pb_ok R s \<Longrightarrow> pb_ok R (snd (pb_remove R x s))"
  using tm_remove_new [of x "pb_bitmap s"]
  by (cases "tm_remove R x (pb_bitmap s)") (simp add: pb_ok_def pb_remove_def tm_len_iter)

end

sublocale roaring \<subseteq> pb: id_set "pb_new R" "pb_insert R" "pb_remove R" "pb_contains R" pb_len
    "pb_intersection R" "pb_union R" "pb_difference R" "pb_iter R" "pb_ok R"
  by unfold_locales
    (simp_all add: pb_ok_insert pb_ok_remove pb_ok_setops pb_len_iter pb_iter_def pb_bitmap_insert
      pb_bitmap_remove pb_bitmap_setops fst_pb_insert fst_pb_remove tm_insert_new tm_remove_old
      tm_iter_insert tm_iter_remove tm_iter_sorted tm_contains_iter tm_iter_and tm_iter_or tm_iter_sub
      pb_contains_def tm_iter_new)


section \<open>A lawful treemap\<close>

text \<open>
  A reference instance of the bitmap interface on lists of ids; iteration sorts, so every
  list represents a treemap.  It serves to evaluate the model on concrete inputs.
\<close>

primrec chunks8 :: "nat \<Rightarrow> byte list \<Rightarrow> u64 list" where
  "chunks8 0 bs = []"
| "chunks8 (Suc n) bs = of_le_bytes (take 8 bs) # chunks8 n (drop 8 bs)"

definition list_treemap :: "u64 list treemap_ops" where
  "list_treemap =
     \<lparr> tm_new = [], tm_insert = (\<lambda>x m. (x \<notin> set m, List.insert x m)),
       tm_remove = (\<lambda>x m. (x \<in> set m, removeAll x m)),
       tm_contains = (\<lambda>m x. x \<in> set m), tm_len = (\<lambda>m. of_nat (length (remdups m))),
       tm_and = (\<lambda>m n. filter (\<lambda>x. x \<in> set n) m), tm_or = (\<lambda>m n. m @ n),
       tm_sub = (\<lambda>m n. filter (\<lambda>x. x \<notin> set n) m), tm_iter = (\<lambda>m. sort (remdups m)),
       tm_serialize = (\<lambda>m. concat (map (le_bytes 8) m)),
       tm_deserialize = (\<lambda>bs. if length bs mod 8 = 0 then Some (chunks8 (length bs div 8) bs) else None) \<rparr>"

lemma length_concat_le_bytes: "length (concat (map (le_bytes 8) (m :: u64 list))) = 8 * length m"
  by (induction m) auto

lemma chunks8_concat: "chunks8 (length m) (concat (map (le_bytes 8) m)) = m"
  by (induction m) (simp_all add: of_le_bytes_le_bytes_u64)

lemma sort_remdups_strict: "sorted_wrt (<) (sort (remdups xs))" for xs :: "'a::linorder list"
  by (simp add: strict_sorted_iff)

interpretation lt: roaring list_treemap
  by unfold_locales
    (auto simp: list_treemap_def sort_remdups_strict length_concat_le_bytes chunks8_concat
      simp del: sorted_wrt.simps)

lemmas list_treemap_simps = list_treemap_def treemap_ops.simps


section \<open>The dictionary refines a list\<close>

text \<open>
  The abstract dictionary is the list of distinct pubkeys in order of first insertion: the
  id of a pubkey is its position.  \<open>pd_refines d pks\<close> relates the two hash maps and the
  counter to that list.
\<close>

definition pd_refines :: "'pk pubkey_dictionary \<Rightarrow> 'pk list \<Rightarrow> bool" where
  "pd_refines d pks \<longleftrightarrow>
     distinct pks \<and> length pks < 2 ^ 64 \<and>
     hm_invar (pd_pubkey_to_id d) \<and> hm_invar (pd_id_to_pubkey d) \<and>
     pd_next_id d = of_nat (length pks) \<and> length (pd_pubkey_to_id d) = length pks \<and>
     (\<forall>pk i. hm_get (pd_pubkey_to_id d) pk = Some i \<longleftrightarrow> unat i < length pks \<and> pks ! unat i = pk) \<and>
     (\<forall>pk i. hm_get (pd_id_to_pubkey d) i = Some pk \<longleftrightarrow> unat i < length pks \<and> pks ! unat i = pk)"

definition add_new :: "'a \<Rightarrow> 'a list \<Rightarrow> 'a list" where
  "add_new x xs = (if x \<in> set xs then xs else xs @ [x])"

lemma pd_refines_new: "pd_refines pd_new []"
  by (simp add: pd_refines_def pd_new_def hm_get_def hm_invar_def)

lemma pd_refines_clear: "pd_refines (pd_clear d) []"
  by (simp add: pd_refines_def pd_clear_def hm_get_def hm_invar_def)

lemma pd_refines_get_id:
  assumes "pd_refines d pks"
  shows "pd_get_id d pk = Some i \<longleftrightarrow> unat i < length pks \<and> pks ! unat i = pk"
  using assms by (simp add: pd_refines_def pd_get_id_def)

lemma pd_refines_get_pubkey:
  assumes "pd_refines d pks"
  shows "pd_get_pubkey d i = Some pk \<longleftrightarrow> unat i < length pks \<and> pks ! unat i = pk"
  using assms by (simp add: pd_refines_def pd_get_pubkey_def)

lemma pd_refines_contains:
  assumes "pd_refines d pks"
  shows "pd_get_id d pk = None \<longleftrightarrow> pk \<notin> set pks"
proof -
  have "pk \<in> set pks \<longleftrightarrow> (\<exists>i. unat (i :: u64) < length pks \<and> pks ! unat i = pk)"
  proof
    assume "pk \<in> set pks"
    then obtain n where "n < length pks" "pks ! n = pk" by (auto simp: in_set_conv_nth)
    moreover have "n < 2 ^ 64" using \<open>n < length pks\<close> assms by (simp add: pd_refines_def)
    ultimately show "\<exists>i. unat (i :: u64) < length pks \<and> pks ! unat i = pk"
      by (intro exI [of _ "of_nat n"]) (simp add: unat_of_nat_eq)
  qed auto
  moreover have "pd_get_id d pk \<noteq> None \<longleftrightarrow> (\<exists>i. unat (i :: u64) < length pks \<and> pks ! unat i = pk)"
    using pd_refines_get_id [OF assms] by auto
  ultimately show ?thesis by blast
qed

lemma pd_insert_old:
  assumes "pd_refines d pks" "pk \<in> set pks"
  shows "pd_insert pk d = (the (pd_get_id d pk), d)"
  using assms pd_refines_contains [OF assms(1), of pk]
  by (auto simp: pd_insert_def pd_get_id_def split: option.splits)

lemma pd_insert_refines_new:
  assumes r: "pd_refines d pks" and new: "pk \<notin> set pks" and len: "length pks + 1 < 2 ^ 64"
  shows "fst (pd_insert pk d) = of_nat (length pks) \<and> pd_refines (snd (pd_insert pk d)) (pks @ [pk])"
proof -
  define n :: u64 where "n = of_nat (length pks)"
  have n: "unat n = length pks" "pd_next_id d = n"
    using r len by (simp_all add: pd_refines_def n_def unat_of_length)
  have none: "hm_get (pd_pubkey_to_id d) pk = None"
    using pd_refines_contains [OF r, of pk] new by (simp add: pd_get_id_def)
  have ins: "pd_insert pk d =
      (n, \<lparr> pd_pubkey_to_id = hm_insert pk n (pd_pubkey_to_id d),
            pd_id_to_pubkey = hm_insert n pk (pd_id_to_pubkey d), pd_next_id = n + 1 \<rparr>)"
    using none n by (simp add: pd_insert_def Let_def)
  have iff: "unat i < length (pks @ [pk]) \<and> (pks @ [pk]) ! unat i = q \<longleftrightarrow>
      (if i = n then q = pk else unat i < length pks \<and> pks ! unat i = q)" for i q
    using unat_eq_of_nat [of "length pks" i] len
    by (auto simp: nth_append n_def unat_of_length less_Suc_eq)
  have "hm_invar (pd_pubkey_to_id d)" "hm_invar (pd_id_to_pubkey d)" "length (pd_pubkey_to_id d) = length pks"
    using r by (simp_all add: pd_refines_def)
  moreover have "\<forall>q i. hm_get (pd_pubkey_to_id d) q = Some i \<longleftrightarrow> unat i < length pks \<and> pks ! unat i = q"
      "\<forall>q i. hm_get (pd_id_to_pubkey d) i = Some q \<longleftrightarrow> unat i < length pks \<and> pks ! unat i = q"
    using r unfolding pd_refines_def by blast+
  ultimately show ?thesis
    unfolding pd_refines_def ins iff using r new len none n
    by (auto simp: pd_refines_def hm.get_ins hm.invar_ins length_hm_insert n_def)
qed

lemma pd_insert_refines:
  assumes "pd_refines d pks" "length pks + 1 < 2 ^ 64"
  shows "pd_refines (snd (pd_insert pk d)) (add_new pk pks)"
    and "pd_get_pubkey (snd (pd_insert pk d)) (fst (pd_insert pk d)) = Some pk"
proof -
  show r: "pd_refines (snd (pd_insert pk d)) (add_new pk pks)"
    using assms pd_insert_refines_new pd_insert_old by (fastforce simp: add_new_def)
  show "pd_get_pubkey (snd (pd_insert pk d)) (fst (pd_insert pk d)) = Some pk"
  proof (cases "pk \<in> set pks")
    case True
    then have "pd_get_id d pk \<noteq> None" using pd_refines_contains [OF assms(1)] by simp
    then show ?thesis
      using True assms pd_refines_get_id pd_refines_get_pubkey by (fastforce simp: pd_insert_old)
  next
    case False
    then show ?thesis
      using assms pd_insert_refines_new [OF assms(1) False] pd_refines_get_pubkey
      by (fastforce simp: unat_of_length)
  qed
qed

lemma length_add_new: "length (add_new x xs) \<le> Suc (length xs)"
  by (simp add: add_new_def)

lemma add_new_prefix: "n < length xs \<Longrightarrow> add_new x xs ! n = xs ! n \<and> n < length (add_new x xs)"
  by (simp add: add_new_def nth_append)

lemma fold_add_new_prefix:
  "n < length xs \<Longrightarrow> fold add_new ys xs ! n = xs ! n \<and> n < length (fold add_new ys xs)"
proof (induction ys arbitrary: xs)
  case (Cons y ys)
  then show ?case using add_new_prefix [of n xs y] Cons.IH [of "add_new y xs"] by simp
qed simp

lemma set_fold_add_new: "set (fold add_new ys xs) = set ys \<union> set xs"
  by (induction ys arbitrary: xs) (auto simp: add_new_def)

lemma pd_batch_insert_refines:
  assumes "pd_refines d qs" "length qs + length pks < 2 ^ 64"
  shows "pd_refines (snd (pd_batch_insert pks d)) (fold add_new pks qs) \<and>
     pd_batch_get_pubkey (snd (pd_batch_insert pks d)) (fst (pd_batch_insert pks d)) = map Some pks"
  using assms
proof (induction pks arbitrary: d qs)
  case (Cons pk pks)
  let ?d1 = "snd (pd_insert pk d)" and ?id = "fst (pd_insert pk d)"
  have r1: "pd_refines ?d1 (add_new pk qs)" and g1: "pd_get_pubkey ?d1 ?id = Some pk"
    using pd_insert_refines [OF Cons.prems(1)] Cons.prems(2) by auto
  have len: "length (add_new pk qs) + length pks < 2 ^ 64"
    using Cons.prems(2) length_add_new [of pk qs] by simp
  note IH = Cons.IH [OF r1 len]
  have "pd_get_pubkey (snd (pd_batch_insert pks ?d1)) ?id = Some pk"
    using g1 fold_add_new_prefix [of "unat ?id" "add_new pk qs" pks] IH r1
    by (auto simp: pd_refines_get_pubkey)
  then show ?case using IH by (auto simp: pd_batch_get_pubkey_def split: prod.splits)
qed (simp add: pd_batch_get_pubkey_def)

lemma pd_from_iter_batch: "fold (\<lambda>pk d. snd (pd_insert pk d)) pks d = snd (pd_batch_insert pks d)"
  by (induction pks arbitrary: d) (auto split: prod.splits)

lemma pd_from_iter_refines:
  assumes "length pks < 2 ^ 64"
  shows "pd_refines (pd_from_iter pks) (fold add_new pks [])"
  using pd_batch_insert_refines [OF pd_refines_new, of pks] assms
  by (simp add: pd_from_iter_def pd_from_iter_batch)

lemma pd_refines_ids:
  assumes "pd_refines d qs" "pd_batch_get_pubkey d ids = map Some pks"
  shows "pd_batch_get_id d pks = map Some ids"
proof -
  have "map (pd_get_pubkey d) ids = map Some pks \<Longrightarrow> map (pd_get_id d) pks = map Some ids"
  proof (induction ids arbitrary: pks)
    case (Cons i ids)
    then obtain pk pks' where "pks = pk # pks'" by (cases pks) auto
    then show ?case
      using Cons assms(1) by (simp add: pd_refines_get_id pd_refines_get_pubkey)
  qed simp
  then show ?thesis using assms(2) by (simp add: pd_batch_get_id_def pd_batch_get_pubkey_def)
qed

lemma pd_refines_len:
  assumes "pd_refines d qs"
  shows "pd_len d = card (set qs)" "pd_get_pubkey d i \<noteq> None \<longleftrightarrow> unat i < card (set qs)"
  using assms pd_refines_get_pubkey [OF assms, of i]
  by (auto simp: pd_refines_def pd_len_def distinct_card)


section \<open>Histories of a bitmap\<close>

datatype bitmap_op = Insert u64 | Remove u64

definition pb_apply :: "'b treemap_ops \<Rightarrow> bitmap_op \<Rightarrow> 'b pubkey_bitmap \<Rightarrow> 'b pubkey_bitmap" where
  "pb_apply R oper b = (case oper of Insert x \<Rightarrow> snd (pb_insert R x b) | Remove x \<Rightarrow> snd (pb_remove R x b))"

definition set_apply :: "bitmap_op \<Rightarrow> u64 set \<Rightarrow> u64 set" where
  "set_apply oper S = (case oper of Insert x \<Rightarrow> insert x S | Remove x \<Rightarrow> S - {x})"

context roaring
begin

lemma pb_apply_ok: "pb_ok R b \<Longrightarrow> pb_ok R (pb_apply R oper b)"
  by (simp add: pb_apply_def pb_ok_insert pb_ok_remove split: bitmap_op.split)

lemma pb_apply_refines: "set (pb_iter R (pb_apply R oper b)) = set_apply oper (set (pb_iter R b))"
  by (simp add: pb_apply_def set_apply_def pb.elems_ins pb.elems_rem split: bitmap_op.split)

lemma pb_run_refines:
  "pb_ok R b \<Longrightarrow> pb_ok R (fold (pb_apply R) opers b) \<and>
     set (pb_iter R (fold (pb_apply R) opers b)) = fold set_apply opers (set (pb_iter R b))"
  by (induction opers arbitrary: b) (auto simp: pb_apply_ok pb_apply_refines)

lemma pb_history:
  "pb_iter R (fold (pb_apply R) opers (pb_new R)) = sorted_list_of_set (fold set_apply opers {}) \<and>
   pb_len (fold (pb_apply R) opers (pb_new R)) = of_nat (card (fold set_apply opers {}))"
proof -
  let ?b = "fold (pb_apply R) opers (pb_new R)"
  have ok: "pb_ok R ?b" and s: "set (pb_iter R ?b) = fold set_apply opers {}"
    using pb_run_refines [OF pb.ok_new, of opers] by (simp_all add: pb.elems_new)
  show ?thesis
    using pb.elems_eq_sorted_list [of ?b] pb.size_elems [OF ok] distinct_card [OF pb.elems_distinct, of ?b]
    by (simp add: s)
qed

lemma pb_roundtrip:
  "\<exists>b'. pb_deserialize R (pb_serialize R b) = Some b' \<and> pb_iter R b' = pb_iter R b \<and> pb_ok R b'"
  using tm_deserialize_serialize [of "pb_bitmap b"]
  by (auto simp: pb_deserialize_def pb_serialize_def pb_iter_def pb_ok_def)

end


section \<open>Properties\<close>

text \<open>After any history of insertions and removals a \<open>PubkeyBitmap\<close> over a lawful
  roaring treemap iterates exactly the ids of the set that the same history builds, in
  ascending order, and its cached cardinality is the number of ids.\<close>

theorem pubkey_bitmap_refines_set:
  assumes "roaring R"
  shows "pb_iter R (fold (pb_apply R) opers (pb_new R)) = sorted_list_of_set (fold set_apply opers {}) \<and>
    pb_len (fold (pb_apply R) opers (pb_new R)) = of_nat (card (fold set_apply opers {}))"
  by (rule roaring.pb_history [OF assms])

theorem pubkey_bitmap_refines_set_witness:
  "pb_iter list_treemap (fold (pb_apply list_treemap) [Insert 9, Insert 4, Insert 9, Remove 4, Insert 2]
      (pb_new list_treemap)) = sorted_list_of_set {2, 9} \<and>
   pb_len (fold (pb_apply list_treemap) [Insert 9, Insert 4, Insert 9, Remove 4, Insert 2]
      (pb_new list_treemap)) = 2"
  using pubkey_bitmap_refines_set [OF lt.roaring_axioms, of "[Insert 9, Insert 4, Insert 9, Remove 4, Insert 2]"]
  by (simp add: set_apply_def insert_Diff_if)

text \<open>C25: inserting any batch of fewer than \<open>2^64\<close> pubkeys into a fresh dictionary gives
  ids that resolve back to exactly these pubkeys and forth again; the ids are dense, with
  one id per distinct pubkey.\<close>

theorem dictionary_batch_roundtrip:
  assumes "length pks < 2 ^ 64" "pd_batch_insert pks pd_new = (ids, d)"
  shows "pd_batch_get_pubkey d ids = map Some pks \<and> pd_batch_get_id d pks = map Some ids \<and>
    pd_len d = card (set pks) \<and> (\<forall>i. pd_get_pubkey d i \<noteq> None \<longleftrightarrow> unat i < card (set pks))"
proof -
  have "pd_refines d (fold add_new pks [])" "pd_batch_get_pubkey d ids = map Some pks"
    using pd_batch_insert_refines [OF pd_refines_new, of pks] assms by auto
  then show ?thesis
    using pd_refines_ids pd_refines_len by (fastforce simp: set_fold_add_new)
qed

theorem dictionary_batch_roundtrip_witness:
  "pd_batch_get_pubkey (snd (pd_batch_insert [True, False, True] pd_new)) [0, 1, 0] =
     map Some [True, False, True]"
  using dictionary_batch_roundtrip [of "[True, False, True]" "[0, 1, 0]"
      "snd (pd_batch_insert [True, False, True] pd_new)"]
  by (simp add: pd_insert_def pd_new_def hm_get_def hm_insert_def)

text \<open>Ids are stable: once a dictionary built from pubkeys \<open>qs\<close> has assigned an id,
  inserting further pubkeys never changes it, in either direction.\<close>

theorem dictionary_ids_stable:
  assumes "length qs + length pks < 2 ^ 64"
    and "pd_get_id (pd_from_iter qs) pk = Some i"
  shows "pd_get_id (snd (pd_batch_insert pks (pd_from_iter qs))) pk = Some i \<and>
    pd_get_pubkey (snd (pd_batch_insert pks (pd_from_iter qs))) i = Some pk"
proof -
  have r: "pd_refines (pd_from_iter qs) (fold add_new qs [])"
    using assms(1) by (intro pd_from_iter_refines) simp
  have "length (fold add_new qs []) \<le> length qs"
    using r distinct_card [of "fold add_new qs []"] card_length [of qs]
    by (simp add: pd_refines_def set_fold_add_new)
  then have "pd_refines (snd (pd_batch_insert pks (pd_from_iter qs))) (fold add_new pks (fold add_new qs []))"
    using pd_batch_insert_refines [OF r, of pks] assms(1) by linarith
  moreover have "unat i < length (fold add_new qs [])" "fold add_new qs [] ! unat i = pk"
    using assms(2) pd_refines_get_id [OF r] by auto
  ultimately show ?thesis
    by (simp add: pd_refines_get_id pd_refines_get_pubkey fold_add_new_prefix)
qed

theorem dictionary_ids_stable_witness:
  "pd_get_id (snd (pd_batch_insert [7] (pd_from_iter [5, 6 :: nat]))) 6 = Some 1"
  using dictionary_ids_stable [of "[5, 6 :: nat]" "[7]" 6 1]
  by (simp add: pd_from_iter_def pd_get_id_def pd_insert_def pd_new_def hm_get_def hm_insert_def)

end
