(* ===== verification/Slots.thy ===== *)
theory Slots
  imports Prelude
begin

text \<open>
  Slots, commitment levels and reconciliation.

  Models \<open>hyperplane-types/src/slot.rs\<close> and the crate \<open>slot-reconciler\<close>: the slot context
  of a reader, the lock-free slot tracker, the reconciler with its locked state and its
  atomic mirrors, the root, watermark, commitment and rollback trackers.

  The compare-and-exchange loop of the watermark and the mirrored stores of the reconciler
  are step relations over a pool of threads, so that their properties hold for every
  interleaving.
\<close>

section \<open>Commitment levels\<close>

datatype commitment_level = Processed | Confirmed | Finalized

fun commitment_rank :: "commitment_level \<Rightarrow> nat" where
  "commitment_rank Processed = 0"
| "commitment_rank Confirmed = 1"
| "commitment_rank Finalized = 2"

text \<open>The derived \<open>Ord\<close>: constructors in order of declaration.\<close>

instantiation commitment_level :: linorder
begin

definition less_eq_commitment_level :: "commitment_level \<Rightarrow> commitment_level \<Rightarrow> bool" where
  "less_eq_commitment_level a b \<longleftrightarrow> commitment_rank a \<le> commitment_rank b"

definition less_commitment_level :: "commitment_level \<Rightarrow> commitment_level \<Rightarrow> bool" where
  "less_commitment_level a b \<longleftrightarrow> commitment_rank a < commitment_rank b"

lemma commitment_rank_inj: "commitment_rank a = commitment_rank b \<Longrightarrow> a = b"
  by (cases a; cases b) auto

instance
  by standard
    (auto simp: less_eq_commitment_level_def less_commitment_level_def dest: commitment_rank_inj)

end

fun min_confirmations :: "commitment_level \<Rightarrow> u64" where
  "min_confirmations Processed = 0"
| "min_confirmations Confirmed = 1"
| "min_confirmations Finalized = 31"

definition satisfies :: "commitment_level \<Rightarrow> commitment_level \<Rightarrow> bool" where
  "satisfies self other \<longleftrightarrow> self \<ge> other"


section \<open>\<open>SlotContext\<close>\<close>

record slot_context =
  sc_processed_slot :: u64
  sc_confirmed_slot :: u64
  sc_finalized_slot :: u64
  sc_parent_slot :: u64

definition slot_context_new :: slot_context where
  "slot_context_new =
     \<lparr> sc_processed_slot = 0, sc_confirmed_slot = 0, sc_finalized_slot = 0, sc_parent_slot = 0 \<rparr>"

definition slot_context_update :: "u64 \<Rightarrow> u64 \<Rightarrow> slot_context \<Rightarrow> slot_context" where
  "slot_context_update new_slot parent_slot c =
     (let c1 = c \<lparr> sc_parent_slot := sc_processed_slot c \<rparr>;
          c2 = c1 \<lparr> sc_processed_slot := new_slot \<rparr>;
          c3 = (if new_slot > 1 then c2 \<lparr> sc_confirmed_slot := new_slot - 1 \<rparr> else c2)
      in if new_slot > 31 then c3 \<lparr> sc_finalized_slot := new_slot - 31 \<rparr> else c3)"

fun slot_context_get_watermark :: "slot_context \<Rightarrow> commitment_level \<Rightarrow> u64" where
  "slot_context_get_watermark c Processed = sc_processed_slot c"
| "slot_context_get_watermark c Confirmed = sc_confirmed_slot c"
| "slot_context_get_watermark c Finalized = sc_finalized_slot c"

definition slot_context_is_visible :: "slot_context \<Rightarrow> u64 \<Rightarrow> commitment_level \<Rightarrow> bool" where
  "slot_context_is_visible c slot commitment \<longleftrightarrow> slot \<le> slot_context_get_watermark c commitment"


section \<open>\<open>AtomicSlotTracker\<close>\<close>

record atomic_slot_tracker =
  at_processed_slot :: u64
  at_confirmed_slot :: u64
  at_finalized_slot :: u64

definition slot_tracker_new :: atomic_slot_tracker where
  "slot_tracker_new = \<lparr> at_processed_slot = 0, at_confirmed_slot = 0, at_finalized_slot = 0 \<rparr>"

text \<open>The three stores of \<open>update\<close>, in program order.\<close>

definition slot_tracker_update_stores ::
  "slot_context \<Rightarrow> (atomic_slot_tracker \<Rightarrow> atomic_slot_tracker) list" where
  "slot_tracker_update_stores c =
     [\<lambda>t. t \<lparr> at_processed_slot := sc_processed_slot c \<rparr>,
      \<lambda>t. t \<lparr> at_confirmed_slot := sc_confirmed_slot c \<rparr>,
      \<lambda>t. t \<lparr> at_finalized_slot := sc_finalized_slot c \<rparr>]"

definition slot_tracker_update :: "slot_context \<Rightarrow> atomic_slot_tracker \<Rightarrow> atomic_slot_tracker" where
  "slot_tracker_update c t = fold (\<lambda>store t. store t) (slot_tracker_update_stores c) t"

fun slot_tracker_get_watermark :: "atomic_slot_tracker \<Rightarrow> commitment_level \<Rightarrow> u64" where
  "slot_tracker_get_watermark t Processed = at_processed_slot t"
| "slot_tracker_get_watermark t Confirmed = at_confirmed_slot t"
| "slot_tracker_get_watermark t Finalized = at_finalized_slot t"

definition slot_tracker_get_context :: "atomic_slot_tracker \<Rightarrow> slot_context" where
  "slot_tracker_get_context t =
     \<lparr> sc_processed_slot = at_processed_slot t, sc_confirmed_slot = at_confirmed_slot t,
       sc_finalized_slot = at_finalized_slot t,
       sc_parent_slot = saturating_sub (at_processed_slot t) 1 \<rparr>"


section \<open>\<open>SlotRange\<close> and \<open>RootStatus\<close>\<close>

record slot_range =
  sr_start_slot :: u64
  sr_end_slot :: u64

definition slot_range_contains :: "slot_range \<Rightarrow> u64 \<Rightarrow> bool" where
  "slot_range_contains r slot \<longleftrightarrow> slot \<ge> sr_start_slot r \<and> slot \<le> sr_end_slot r"

definition slot_range_len :: "slot_range \<Rightarrow> u64" where
  "slot_range_len r = sr_end_slot r - sr_start_slot r + 1"

definition slot_range_is_empty :: "slot_range \<Rightarrow> bool" where
  "slot_range_is_empty r \<longleftrightarrow> sr_end_slot r < sr_start_slot r"

record root_status =
  rs_current_root :: u64
  rs_pending_compaction_root :: u64
  rs_last_compaction_root :: u64
  rs_slots_since_last_compaction :: u64

definition needs_compaction :: "root_status \<Rightarrow> u64 \<Rightarrow> bool" where
  "needs_compaction s threshold_slots \<longleftrightarrow> rs_slots_since_last_compaction s \<ge> threshold_slots"


section \<open>The reconciler\<close>

record slot_reconciler_state =
  st_processed_slot :: u64
  st_confirmed_slot :: u64
  st_finalized_slot :: u64
  st_root_slot :: u64
  st_rollback_count :: u64

record slot_reconciler =
  rc_state :: slot_reconciler_state
  rc_processed_slot :: u64
  rc_confirmed_slot :: u64
  rc_finalized_slot :: u64
  rc_root_slot :: u64

definition reconciler_new :: "u64 \<Rightarrow> slot_reconciler" where
  "reconciler_new root_slot =
     \<lparr> rc_state = \<lparr> st_processed_slot = root_slot, st_confirmed_slot = root_slot,
         st_finalized_slot = root_slot, st_root_slot = root_slot, st_rollback_count = 0 \<rparr>,
       rc_processed_slot = root_slot, rc_confirmed_slot = root_slot,
       rc_finalized_slot = root_slot, rc_root_slot = root_slot \<rparr>"

definition update_processed :: "u64 \<Rightarrow> slot_reconciler \<Rightarrow> slot_reconciler" where
  "update_processed slot r =
     (let r1 = r \<lparr> rc_processed_slot := slot \<rparr>
      in r1 \<lparr> rc_state := (rc_state r1) \<lparr> st_processed_slot := slot \<rparr> \<rparr>)"

definition update_confirmed :: "u64 \<Rightarrow> slot_reconciler \<Rightarrow> slot_reconciler" where
  "update_confirmed slot r =
     (let r1 = r \<lparr> rc_confirmed_slot := slot \<rparr>
      in r1 \<lparr> rc_state := (rc_state r1) \<lparr> st_confirmed_slot := slot \<rparr> \<rparr>)"

definition locked_finalized :: "u64 \<Rightarrow> slot_reconciler \<Rightarrow> slot_reconciler" where
  "locked_finalized slot r =
     (let r1 = r \<lparr> rc_state := (rc_state r) \<lparr> st_finalized_slot := slot \<rparr> \<rparr>
      in if slot > st_root_slot (rc_state r1)
         then r1 \<lparr> rc_state := (rc_state r1) \<lparr> st_root_slot := slot \<rparr>, rc_root_slot := slot \<rparr>
         else r1)"

definition update_finalized :: "u64 \<Rightarrow> slot_reconciler \<Rightarrow> slot_reconciler" where
  "update_finalized slot r = locked_finalized slot (r \<lparr> rc_finalized_slot := slot \<rparr>)"

definition reconciler_get_root :: "slot_reconciler \<Rightarrow> u64" where
  "reconciler_get_root r = rc_root_slot r"

fun reconciler_get_slot :: "slot_reconciler \<Rightarrow> commitment_level \<Rightarrow> u64" where
  "reconciler_get_slot r Processed = rc_processed_slot r"
| "reconciler_get_slot r Confirmed = rc_confirmed_slot r"
| "reconciler_get_slot r Finalized = rc_finalized_slot r"

definition is_finalized :: "slot_reconciler \<Rightarrow> u64 \<Rightarrow> bool" where
  "is_finalized r slot \<longleftrightarrow> slot \<le> rc_finalized_slot r"

definition is_confirmed :: "slot_reconciler \<Rightarrow> u64 \<Rightarrow> bool" where
  "is_confirmed r slot \<longleftrightarrow> slot \<le> rc_confirmed_slot r"

definition rollback_root :: "u64 \<Rightarrow> slot_reconciler \<Rightarrow> slot_reconciler" where
  "rollback_root new_root r =
     r \<lparr> rc_state := (rc_state r) \<lparr> st_rollback_count := st_rollback_count (rc_state r) + 1,
                                  st_root_slot := new_root \<rparr>,
         rc_root_slot := new_root \<rparr>"

definition rollback_cap :: "u64 \<Rightarrow> u64 \<Rightarrow> slot_reconciler \<Rightarrow> slot_reconciler" where
  "rollback_cap new_root finalized r =
     (if finalized > new_root
      then r \<lparr> rc_finalized_slot := new_root, rc_state := (rc_state r) \<lparr> st_finalized_slot := new_root \<rparr> \<rparr>
      else r)"

definition handle_rollback :: "u64 \<Rightarrow> slot_reconciler \<Rightarrow> slot_reconciler" where
  "handle_rollback new_root r =
     (let r1 = rollback_root new_root r;
          finalized = rc_finalized_slot r1
      in rollback_cap new_root finalized r1)"

definition reconciler_stats :: "slot_reconciler \<Rightarrow> slot_reconciler_state" where
  "reconciler_stats r = rc_state r"

definition reconciler_rollback_count :: "slot_reconciler \<Rightarrow> u64" where
  "reconciler_rollback_count r = st_rollback_count (rc_state r)"


section \<open>The other trackers\<close>

record commitment_tracker =
  ct_processed :: u64
  ct_confirmed :: u64
  ct_finalized :: u64

definition commitment_tracker_new :: commitment_tracker where
  "commitment_tracker_new = \<lparr> ct_processed = 0, ct_confirmed = 0, ct_finalized = 0 \<rparr>"

definition commitment_tracker_update :: "u64 \<Rightarrow> u64 \<Rightarrow> u64 \<Rightarrow> commitment_tracker \<Rightarrow> commitment_tracker" where
  "commitment_tracker_update processed confirmed finalized t =
     t \<lparr> ct_processed := processed, ct_confirmed := confirmed, ct_finalized := finalized \<rparr>"

record root_tracker =
  rt_root :: u64

definition root_tracker_new :: "u64 \<Rightarrow> root_tracker" where
  "root_tracker_new initial_root = \<lparr> rt_root = initial_root \<rparr>"

definition root_tracker_get_root :: "root_tracker \<Rightarrow> u64" where
  "root_tracker_get_root t = rt_root t"

definition root_tracker_update_root :: "u64 \<Rightarrow> root_tracker \<Rightarrow> u64 \<times> root_tracker" where
  "root_tracker_update_root new_root t = (rt_root t, t \<lparr> rt_root := new_root \<rparr>)"

definition root_tracker_advance_root :: "u64 \<Rightarrow> root_tracker \<Rightarrow> u64 \<times> root_tracker" where
  "root_tracker_advance_root delta t =
     (let new_root = rt_root t + delta in (new_root, t \<lparr> rt_root := new_root \<rparr>))"

record rollback_event =
  re_from_slot :: u64
  re_to_slot :: u64
  re_timestamp :: u64

record rollback_handler =
  rh_rollback_count :: u64
  rh_last_rollback :: "rollback_event option"

definition rollback_handler_new :: rollback_handler where
  "rollback_handler_new = \<lparr> rh_rollback_count = 0, rh_last_rollback = None \<rparr>"

text \<open>The wall clock is the argument \<open>now\<close>, in seconds since the epoch.\<close>

definition rollback_handler_handle :: "u64 \<Rightarrow> u64 \<Rightarrow> u64 \<Rightarrow> rollback_handler \<Rightarrow> rollback_handler" where
  "rollback_handler_handle now from_slot to_slot h =
     h \<lparr> rh_rollback_count := rh_rollback_count h + 1,
         rh_last_rollback := Some \<lparr> re_from_slot = from_slot, re_to_slot = to_slot, re_timestamp = now \<rparr> \<rparr>"

record watermark_tracker =
  wt_watermark :: u64

definition watermark_new :: "u64 \<Rightarrow> watermark_tracker" where
  "watermark_new initial = \<lparr> wt_watermark = initial \<rparr>"

definition watermark_get :: "watermark_tracker \<Rightarrow> u64" where
  "watermark_get t = wt_watermark t"

definition watermark_advance :: "watermark_tracker \<Rightarrow> u64 \<times> watermark_tracker" where
  "watermark_advance t = (wt_watermark t, t \<lparr> wt_watermark := wt_watermark t + 1 \<rparr>)"

text \<open>
  \<open>WatermarkTracker::update\<close> run by a pool of threads.  A thread is about to load
  (\<open>AtLoad\<close>), has loaded \<open>current\<close> and is about to compare-and-exchange (\<open>AtCas\<close>), or has
  returned.  The tracker holds the atomic cell.
\<close>

datatype wm_thread = AtLoad u64 | AtCas u64 u64 | Returned u64 bool

inductive wm_step ::
  "watermark_tracker \<times> wm_thread list \<Rightarrow> watermark_tracker \<times> wm_thread list \<Rightarrow> bool" where
  load_stale: "\<lbrakk> i < length ts; ts ! i = AtLoad v; v \<le> wt_watermark t \<rbrakk>
    \<Longrightarrow> wm_step (t, ts) (t, ts[i := Returned v False])"
| load_newer: "\<lbrakk> i < length ts; ts ! i = AtLoad v; \<not> v \<le> wt_watermark t \<rbrakk>
    \<Longrightarrow> wm_step (t, ts) (t, ts[i := AtCas v (wt_watermark t)])"
| cas_succeeds: "\<lbrakk> i < length ts; ts ! i = AtCas v current; wt_watermark t = current \<rbrakk>
    \<Longrightarrow> wm_step (t, ts) (t \<lparr> wt_watermark := v \<rparr>, ts[i := Returned v True])"
| cas_fails: "\<lbrakk> i < length ts; ts ! i = AtCas v current; wt_watermark t \<noteq> current \<rbrakk>
    \<Longrightarrow> wm_step (t, ts) (t, ts[i := AtLoad v])"

inductive_cases wm_stepE: "wm_step (t, ts) s'"

text \<open>The loop of one thread that nobody disturbs.\<close>

definition watermark_update :: "u64 \<Rightarrow> watermark_tracker \<Rightarrow> bool \<times> watermark_tracker" where
  "watermark_update new_value t =
     (if new_value \<le> wt_watermark t then (False, t) else (True, t \<lparr> wt_watermark := new_value \<rparr>))"

text \<open>
  The reconciler run by a pool of threads.  Each call is a list of atomic instructions: the
  stores to the mirrors happen outside the lock (\<open>update_*\<close>) or inside it
  (\<open>handle_rollback\<close>), the writes to the locked state inside it.  \<open>lk\<close> is the thread that
  holds the write lock.
\<close>

datatype rc_instr =
    StoreProcessed u64 | WriteProcessed u64
  | StoreConfirmed u64 | WriteConfirmed u64
  | StoreFinalized u64 | WriteFinalized u64
  | RollbackRoot u64 | LoadFinalized u64 | RollbackCap u64 u64

fun rc_needs_lock :: "rc_instr \<Rightarrow> bool" where
  "rc_needs_lock (WriteProcessed s) = True"
| "rc_needs_lock (WriteConfirmed s) = True"
| "rc_needs_lock (WriteFinalized s) = True"
| "rc_needs_lock (RollbackRoot s) = True"
| "rc_needs_lock _ = False"

datatype rc_call = UpdateProcessed u64 | UpdateConfirmed u64 | UpdateFinalized u64 | HandleRollback u64

fun rc_compile :: "rc_call \<Rightarrow> rc_instr list" where
  "rc_compile (UpdateProcessed s) = [StoreProcessed s, WriteProcessed s]"
| "rc_compile (UpdateConfirmed s) = [StoreConfirmed s, WriteConfirmed s]"
| "rc_compile (UpdateFinalized s) = [StoreFinalized s, WriteFinalized s]"
| "rc_compile (HandleRollback s) = [RollbackRoot s, LoadFinalized s]"

fun rc_call_run :: "rc_call \<Rightarrow> slot_reconciler \<Rightarrow> slot_reconciler" where
  "rc_call_run (UpdateProcessed s) = update_processed s"
| "rc_call_run (UpdateConfirmed s) = update_confirmed s"
| "rc_call_run (UpdateFinalized s) = update_finalized s"
| "rc_call_run (HandleRollback s) = handle_rollback s"

text \<open>The effect of an instruction, and the instructions that take its place.\<close>

fun rc_exec :: "rc_instr \<Rightarrow> slot_reconciler \<Rightarrow> slot_reconciler \<times> rc_instr list" where
  "rc_exec (StoreProcessed s) r = (r \<lparr> rc_processed_slot := s \<rparr>, [])"
| "rc_exec (WriteProcessed s) r = (r \<lparr> rc_state := (rc_state r) \<lparr> st_processed_slot := s \<rparr> \<rparr>, [])"
| "rc_exec (StoreConfirmed s) r = (r \<lparr> rc_confirmed_slot := s \<rparr>, [])"
| "rc_exec (WriteConfirmed s) r = (r \<lparr> rc_state := (rc_state r) \<lparr> st_confirmed_slot := s \<rparr> \<rparr>, [])"
| "rc_exec (StoreFinalized s) r = (r \<lparr> rc_finalized_slot := s \<rparr>, [])"
| "rc_exec (WriteFinalized s) r = (locked_finalized s r, [])"
| "rc_exec (RollbackRoot s) r = (rollback_root s r, [])"
| "rc_exec (LoadFinalized s) r = (r, [RollbackCap s (rc_finalized_slot r)])"
| "rc_exec (RollbackCap s f) r = (rollback_cap s f r, [])"

definition rc_holds_after :: "rc_instr \<Rightarrow> bool" where
  "rc_holds_after i = (case i of RollbackRoot _ \<Rightarrow> True | LoadFinalized _ \<Rightarrow> True | _ \<Rightarrow> False)"

type_synonym rc_config = "slot_reconciler \<times> nat option \<times> rc_instr list list"

inductive rc_step :: "rc_config \<Rightarrow> rc_config \<Rightarrow> bool" where
  rc_instr: "\<lbrakk> i < length ps; ps ! i = ins # rest;
      rc_needs_lock ins \<Longrightarrow> lk = None;
      rc_exec ins r = (r', cont);
      lk' = (if rc_holds_after ins then Some i else if lk = Some i then None else lk) \<rbrakk>
    \<Longrightarrow> rc_step (r, lk, ps) (r', lk', ps[i := cont @ rest])"

inductive_cases rc_stepE: "rc_step (r, lk, ps) c'"


section \<open>Lemmas on the slot context\<close>

text \<open>A watermark that lags a slot by \<open>n\<close>, as long as there are that many slots.\<close>

definition lag :: "u64 \<Rightarrow> u64 \<Rightarrow> u64" where
  "lag n slot = (if slot > n then slot - n else 0)"

definition sc_lagging :: "slot_context \<Rightarrow> bool" where
  "sc_lagging c \<longleftrightarrow> sc_confirmed_slot c = lag 1 (sc_processed_slot c) \<and>
                    sc_finalized_slot c = lag 31 (sc_processed_slot c)"

lemma unat_lag: "unat (lag n m) = unat m - unat n"
  by (auto simp: lag_def unat_sub word_less_nat_alt word_le_nat_alt)

lemma sc_lagging_update:
  assumes "sc_lagging c" "sc_processed_slot c \<le> s"
  shows "sc_lagging (slot_context_update s p c)"
  using assms by (auto simp: sc_lagging_def slot_context_update_def Let_def lag_def)

lemma sc_lagging_new: "sc_lagging slot_context_new"
  by (simp add: sc_lagging_def slot_context_new_def lag_def)

lemma processed_slot_update [simp]: "sc_processed_slot (slot_context_update s p c) = s"
  by (simp add: slot_context_update_def Let_def)

lemma sc_lagging_updates:
  assumes "sc_lagging c" "sorted (sc_processed_slot c # map fst ss)"
  shows "sc_lagging (fold (\<lambda>(s, p). slot_context_update s p) ss c) \<and>
     sc_processed_slot (fold (\<lambda>(s, p). slot_context_update s p) ss c) = last (sc_processed_slot c # map fst ss)"
  using assms by (induction ss arbitrary: c) (auto simp: sc_lagging_update)

lemma sc_lagging_visible:
  assumes "sc_lagging c" "satisfies l m" "slot_context_is_visible c slot l"
  shows "slot_context_is_visible c slot m"
proof -
  have "slot_context_get_watermark c l \<le> slot_context_get_watermark c m"
    using assms(1,2)
    by (cases l; cases m)
      (simp_all add: sc_lagging_def satisfies_def less_eq_commitment_level_def word_le_nat_alt unat_lag)
  then show ?thesis using assms(3) by (simp add: slot_context_is_visible_def)
qed


section \<open>Lemmas on the reconciler\<close>

definition rc_mirrored :: "slot_reconciler \<Rightarrow> bool" where
  "rc_mirrored r \<longleftrightarrow>
     rc_processed_slot r = st_processed_slot (rc_state r) \<and> rc_confirmed_slot r = st_confirmed_slot (rc_state r) \<and>
     rc_finalized_slot r = st_finalized_slot (rc_state r) \<and> rc_root_slot r = st_root_slot (rc_state r) \<and>
     rc_finalized_slot r \<le> rc_root_slot r"

lemmas rc_defs =
  update_processed_def update_confirmed_def update_finalized_def locked_finalized_def
  handle_rollback_def rollback_root_def rollback_cap_def Let_def

lemma rc_mirrored_new: "rc_mirrored (reconciler_new s)"
  by (simp add: rc_mirrored_def reconciler_new_def)

lemma rc_mirrored_call: "rc_mirrored r \<Longrightarrow> rc_mirrored (rc_call_run c r)"
  by (cases c) (auto simp: rc_mirrored_def rc_defs)

lemma rc_mirrored_calls: "rc_mirrored r \<Longrightarrow> rc_mirrored (fold rc_call_run cs r)"
  by (induction cs arbitrary: r) (auto simp: rc_mirrored_call)

text \<open>The root, as a function of the calls: finalized slots raise it, a rollback sets it.\<close>

fun root_after :: "rc_call \<Rightarrow> u64 \<Rightarrow> u64" where
  "root_after (UpdateFinalized s) root = max root s"
| "root_after (HandleRollback s) root = s"
| "root_after _ root = root"

lemma rc_root_call: "rc_mirrored r \<Longrightarrow> rc_root_slot (rc_call_run c r) = root_after c (rc_root_slot r)"
  by (cases c) (auto simp: rc_mirrored_def rc_defs max_def)

lemma rc_root_calls: "rc_mirrored r \<Longrightarrow> rc_root_slot (fold rc_call_run cs r) = fold root_after cs (rc_root_slot r)"
  by (induction cs arbitrary: r) (auto simp: rc_mirrored_call rc_root_call)

lemma rc_step_single:
  assumes "rc_exec ins r = (r', cont)" "rc_needs_lock ins \<Longrightarrow> lk = None"
  shows "rc_step (r, lk, [ins # rest])
    (r', (if rc_holds_after ins then Some 0 else if lk = Some 0 then None else lk), [cont @ rest])"
  using rc_instr [of 0 "[ins # rest]" ins rest lk r r' cont] assms by simp

text \<open>The instructions of one call, run without interruption, are the call.\<close>

lemma rc_sequential: "rc_step\<^sup>*\<^sup>* (r, None, [rc_compile c]) (rc_call_run c r, None, [[]])"
proof -
  note [intro] = converse_rtranclp_into_rtranclp
  note st = rc_step_single [where lk = None]
  show ?thesis
  proof (cases c)
    case (UpdateProcessed s)
    show ?thesis
      using st [of "StoreProcessed s" r _ _ "[WriteProcessed s]"]
        st [of "WriteProcessed s" "r \<lparr> rc_processed_slot := s \<rparr>" _ _ "[]"]
      by (auto simp: UpdateProcessed rc_defs rc_holds_after_def)
  next
    case (UpdateConfirmed s)
    show ?thesis
      using st [of "StoreConfirmed s" r _ _ "[WriteConfirmed s]"]
        st [of "WriteConfirmed s" "r \<lparr> rc_confirmed_slot := s \<rparr>" _ _ "[]"]
      by (auto simp: UpdateConfirmed rc_defs rc_holds_after_def)
  next
    case (UpdateFinalized s)
    show ?thesis
      using st [of "StoreFinalized s" r _ _ "[WriteFinalized s]"]
        st [of "WriteFinalized s" "r \<lparr> rc_finalized_slot := s \<rparr>" _ _ "[]"]
      by (auto simp: UpdateFinalized update_finalized_def rc_holds_after_def)
  next
    case (HandleRollback s)
    let ?r = "rollback_root s r"
    show ?thesis
      using st [of "RollbackRoot s" r _ _ "[LoadFinalized s]"]
        rc_step_single [of "LoadFinalized s" ?r _ _ "Some 0" "[]"]
        rc_step_single [of "RollbackCap s (rc_finalized_slot ?r)" ?r _ _ "Some 0" "[]"]
      by (auto simp: HandleRollback handle_rollback_def rc_holds_after_def Let_def)
  qed
qed

lemma rc_exec_root:
  assumes "rc_exec ins r = (r', cont)" "rc_root_slot r = st_root_slot (rc_state r)"
  shows "rc_root_slot r' = st_root_slot (rc_state r')"
  using assms by (cases ins) (auto simp: rc_defs)

lemma rc_step_root:
  assumes "rc_step\<^sup>*\<^sup>* (r, lk, ps) (r', lk', ps')" "rc_root_slot r = st_root_slot (rc_state r)"
  shows "rc_root_slot r' = st_root_slot (rc_state r')"
  using assms
proof (induction "(r', lk', ps')" arbitrary: r' lk' ps' rule: rtranclp_induct)
  case (step c)
  obtain r1 lk1 ps1 where c: "c = (r1, lk1, ps1)" by (cases c)
  have "rc_root_slot r1 = st_root_slot (rc_state r1)" using step c by blast
  then show ?case using step(2) unfolding c by (auto elim!: rc_stepE dest: rc_exec_root)
qed simp


section \<open>Lemmas on the watermark loop\<close>

fun wm_target :: "wm_thread \<Rightarrow> u64" where
  "wm_target (AtLoad v) = v"
| "wm_target (AtCas v c) = v"
| "wm_target (Returned v b) = v"

fun wm_running :: "wm_thread \<Rightarrow> bool" where
  "wm_running (Returned v b) = False"
| "wm_running _ = True"

fun wm_stale :: "u64 \<Rightarrow> wm_thread \<Rightarrow> bool" where
  "wm_stale m (AtCas v c) = (c \<noteq> m)"
| "wm_stale m _ = False"

fun wm_loading :: "wm_thread \<Rightarrow> bool" where
  "wm_loading (AtLoad v) = True"
| "wm_loading _ = False"

text \<open>
  The invariant of the pool: the cell holds the initial value or a target, it never falls
  behind a thread that returned, and a thread about to exchange wants more than it loaded.
\<close>

definition wm_inv :: "u64 \<Rightarrow> u64 list \<Rightarrow> watermark_tracker \<times> wm_thread list \<Rightarrow> bool" where
  "wm_inv m0 vs c \<longleftrightarrow>
     map wm_target (snd c) = vs \<and> m0 \<le> wt_watermark (fst c) \<and>
     wt_watermark (fst c) \<in> insert m0 (set vs) \<and>
     (\<forall>th \<in> set (snd c). case th of Returned v b \<Rightarrow> v \<le> wt_watermark (fst c)
        | AtCas v cur \<Rightarrow> cur < v | AtLoad v \<Rightarrow> True)"

lemma map_update_same: "i < length xs \<Longrightarrow> f y = f (xs ! i) \<Longrightarrow> map f (xs[i := y]) = map f xs"
  by (metis list_update_id map_update)

lemma wm_inv_start: "wm_inv m0 vs (watermark_new m0, map AtLoad vs)"
  by (auto simp: wm_inv_def watermark_new_def o_def)

lemma set_update_cases: "x \<in> set (xs[i := y]) \<Longrightarrow> x = y \<or> x \<in> set xs"
  using set_update_subset_insert by fastforce

lemma wm_inv_update:
  assumes "wm_inv m0 vs (t, ts)" "i < length ts" "wm_target y = wm_target (ts ! i)"
    and "wt_watermark t \<le> wt_watermark t'" "wt_watermark t' \<in> insert m0 (set vs)"
    and "case y of Returned v b \<Rightarrow> v \<le> wt_watermark t' | AtCas v cur \<Rightarrow> cur < v | AtLoad v \<Rightarrow> True"
  shows "wm_inv m0 vs (t', ts[i := y])"
  using assms unfolding wm_inv_def
  by (auto simp: map_update_same split: wm_thread.splits dest!: set_update_cases)
    (meson order_trans wm_thread.exhaust | fastforce)+

lemma wm_step_inv: "wm_step c c' \<Longrightarrow> wm_inv m0 vs c \<Longrightarrow> wm_inv m0 vs c'"
proof (induction rule: wm_step.induct)
  case (cas_succeeds i ts v current t)
  then have "AtCas v current \<in> set ts" by (metis nth_mem)
  moreover from this have "v \<in> wm_target ` set ts" by (metis image_eqI wm_target.simps(2))
  ultimately have "current < v" "v \<in> set vs"
    using cas_succeeds(4) unfolding wm_inv_def by (fastforce, auto)
  then show ?case using cas_succeeds by (intro wm_inv_update [of m0 vs t]) auto
next
  case (load_stale i ts v t)
  then show ?case by (intro wm_inv_update [of m0 vs t]) (auto simp: wm_inv_def)
next
  case (load_newer i ts v t)
  then show ?case by (intro wm_inv_update [of m0 vs t]) (auto simp: wm_inv_def)
next
  case (cas_fails i ts v current t)
  then show ?case by (intro wm_inv_update [of m0 vs t]) (auto simp: wm_inv_def)
qed

definition wm_measure :: "(watermark_tracker \<times> wm_thread list) \<Rightarrow> nat \<times> nat \<times> nat" where
  "wm_measure c = (cnt wm_running (snd c), cnt (wm_stale (wt_watermark (fst c))) (snd c), cnt wm_loading (snd c))"

lemma wm_step_measure:
  "wm_step c c' \<Longrightarrow> (wm_measure c', wm_measure c) \<in> less_than <*lex*> less_than <*lex*> less_than"
proof (induction rule: wm_step.induct)
  case (load_stale i ts v t)
  then show ?case using cnt_update [of i ts wm_running "Returned v False"] by (simp add: wm_measure_def)
next
  case (load_newer i ts v t)
  then show ?case
    using cnt_update [of i ts wm_running "AtCas v (wt_watermark t)"]
      cnt_update [of i ts "wm_stale (wt_watermark t)" "AtCas v (wt_watermark t)"]
      cnt_update [of i ts wm_loading "AtCas v (wt_watermark t)"] by (simp add: wm_measure_def)
next
  case (cas_succeeds i ts v current t)
  then show ?case using cnt_update [of i ts wm_running "Returned v True"] by (simp add: wm_measure_def)
next
  case (cas_fails i ts v current t)
  then show ?case
    using cnt_update [of i ts wm_running "AtLoad v"]
      cnt_update [of i ts "wm_stale (wt_watermark t)" "AtLoad v"] by (simp add: wm_measure_def)
qed

lemma wm_terminates: "wfP (\<lambda>c' c. wm_step c c')"
proof -
  have "{(c', c). wm_step c c'} \<subseteq> inv_image (less_than <*lex*> less_than <*lex*> less_than) wm_measure"
    using wm_step_measure by auto
  then show ?thesis unfolding wfp_def by (rule wf_subset [rotated]) auto
qed

lemma wm_progress:
  assumes "th \<in> set ts" "wm_running th"
  shows "\<exists>c'. wm_step (t, ts) c'"
proof -
  obtain i where i: "i < length ts" "ts ! i = th" using assms(1) by (auto simp: in_set_conv_nth)
  show ?thesis
  proof (cases th)
    case (AtLoad v)
    then show ?thesis using i load_stale load_newer by blast
  next
    case (AtCas v c)
    then show ?thesis using i cas_succeeds cas_fails by blast
  qed (use assms(2) in auto)
qed

lemma wm_reach_inv: "wm_step\<^sup>*\<^sup>* c c' \<Longrightarrow> wm_inv m0 vs c \<Longrightarrow> wm_inv m0 vs c'"
  by (induction rule: rtranclp_induct) (auto dest: wm_step_inv)

lemma wm_inv_final:
  assumes "wm_inv m0 vs (t, ts)" "\<not> (\<exists>c'. wm_step (t, ts) c')"
  shows "wt_watermark t = Max (insert m0 (set vs))"
proof -
  have "\<not> wm_running th" if "th \<in> set ts" for th using wm_progress [OF that] assms(2) by blast
  then have "wm_target th \<le> wt_watermark t" if "th \<in> set ts" for th
    using assms(1) that unfolding wm_inv_def by (cases th) fastforce+
  then have "\<forall>v \<in> set vs. v \<le> wt_watermark t" using assms(1) by (auto simp: wm_inv_def)
  then show ?thesis using assms(1) by (intro Max_eqI [symmetric]) (auto simp: wm_inv_def)
qed


section \<open>Properties\<close>

text \<open>C8: whatever the interleaving of any number of concurrent \<open>WatermarkTracker::update\<close>
  calls, the compare-and-exchange loops terminate (no infinite run, and a run stops only
  when every call has returned), the watermark never falls below a value a returned call
  was asked for, and it ends at the maximum of the initial value and all requested values.\<close>

theorem watermark_update_concurrent:
  "wfP (\<lambda>c' c. wm_step c c') \<and>
   (wm_step\<^sup>*\<^sup>* (watermark_new m0, map AtLoad vs) (t, ts) \<longrightarrow>
      (\<forall>v b. Returned v b \<in> set ts \<longrightarrow> v \<le> watermark_get t) \<and>
      ((\<nexists>c'. wm_step (t, ts) c') \<longrightarrow>
         (\<forall>th \<in> set ts. \<not> wm_running th) \<and> watermark_get t = Max (insert m0 (set vs))))"
proof (intro conjI impI wm_terminates)
  assume "wm_step\<^sup>*\<^sup>* (watermark_new m0, map AtLoad vs) (t, ts)"
  then have inv: "wm_inv m0 vs (t, ts)" using wm_reach_inv wm_inv_start by blast
  then show "\<forall>v b. Returned v b \<in> set ts \<longrightarrow> v \<le> watermark_get t"
    by (fastforce simp: wm_inv_def watermark_get_def)
  assume stuck: "\<nexists>c'. wm_step (t, ts) c'"
  then show "\<forall>th \<in> set ts. \<not> wm_running th" using wm_progress by blast
  show "watermark_get t = Max (insert m0 (set vs))"
    using wm_inv_final [OF inv stuck] by (simp add: watermark_get_def)
qed

theorem watermark_update_concurrent_witness:
  "wm_step\<^sup>*\<^sup>* (watermark_new 5, map AtLoad [3]) (watermark_new 5, [Returned 3 False]) \<and>
   (\<nexists>c'. wm_step (watermark_new 5, [Returned 3 False]) c') \<and>
   watermark_get (watermark_new 5) = Max (insert 5 (set [3]))"
proof -
  have 1: "wm_step\<^sup>*\<^sup>* (watermark_new 5, map AtLoad [3]) (watermark_new 5, [Returned 3 False])"
    using load_stale [of 0 "[AtLoad 3]" 3 "watermark_new 5"] by (simp add: watermark_new_def r_into_rtranclp)
  have 2: "\<nexists>c'. wm_step (watermark_new 5, [Returned 3 False]) c'"
    by (auto elim!: wm_stepE)
  show ?thesis
    using 1 2 watermark_update_concurrent [of 5 "[3]" "watermark_new 5" "[Returned 3 False]"] by blast
qed


text \<open>C30: running one call's atomic steps without interruption is the call, and under every
  interleaving of concurrent calls the atomic root equals the locked root; but the processed
  mirror can disagree with the locked state once all calls have returned.\<close>

theorem reconciler_interleaving:
  "rc_step\<^sup>*\<^sup>* (r, None, [rc_compile c]) (rc_call_run c r, None, [[]]) \<and>
   (rc_step\<^sup>*\<^sup>* (reconciler_new s, None, map rc_compile cs) (r', lk, ps) \<longrightarrow>
      reconciler_get_root r' = st_root_slot (reconciler_stats r')) \<and>
   (\<exists>r''. rc_step\<^sup>*\<^sup>* (reconciler_new 4, None, map rc_compile [UpdateProcessed 5, UpdateProcessed 6])
        (r'', None, [[], []]) \<and>
      reconciler_get_slot r'' Processed = 6 \<and> st_processed_slot (reconciler_stats r'') = 5)"
proof (intro conjI impI rc_sequential)
  assume "rc_step\<^sup>*\<^sup>* (reconciler_new s, None, map rc_compile cs) (r', lk, ps)"
  then show "reconciler_get_root r' = st_root_slot (reconciler_stats r')"
    using rc_step_root by (fastforce simp: reconciler_get_root_def reconciler_stats_def reconciler_new_def)
next
  let ?q = "rc_step\<^sup>*\<^sup>*" and ?r0 = "reconciler_new 4"
  let ?r1 = "?r0 \<lparr> rc_processed_slot := 5 \<rparr>"
  let ?r2 = "?r1 \<lparr> rc_processed_slot := 6 \<rparr>"
  let ?r3 = "?r2 \<lparr> rc_state := (rc_state ?r2) \<lparr> st_processed_slot := 6 \<rparr> \<rparr>"
  let ?r4 = "?r3 \<lparr> rc_state := (rc_state ?r3) \<lparr> st_processed_slot := 5 \<rparr> \<rparr>"
  let ?a = "[StoreProcessed 5, WriteProcessed 5]" and ?b = "[StoreProcessed 6, WriteProcessed 6]"
  have "rc_step (?r0, None, [?a, ?b]) (?r1, None, [[WriteProcessed 5], ?b])"
    using rc_instr [of 0 "[?a, ?b]" "StoreProcessed 5" _ None] by (simp add: rc_holds_after_def)
  moreover have "rc_step (?r1, None, [[WriteProcessed 5], ?b]) (?r2, None, [[WriteProcessed 5], [WriteProcessed 6]])"
    using rc_instr [of 1 "[[WriteProcessed 5], ?b]" "StoreProcessed 6" _ None] by (simp add: rc_holds_after_def)
  moreover have "rc_step (?r2, None, [[WriteProcessed 5], [WriteProcessed 6]]) (?r3, None, [[WriteProcessed 5], []])"
    using rc_instr [of 1 "[[WriteProcessed 5], [WriteProcessed 6]]" "WriteProcessed 6" _ None]
    by (simp add: rc_holds_after_def)
  moreover have "rc_step (?r3, None, [[WriteProcessed 5], []]) (?r4, None, [[], []])"
    using rc_instr [of 0 "[[WriteProcessed 5], []]" "WriteProcessed 5" _ None] by (simp add: rc_holds_after_def)
  ultimately have "?q (?r0, None, map rc_compile [UpdateProcessed 5, UpdateProcessed 6]) (?r4, None, [[], []])"
    by (simp add: converse_rtranclp_into_rtranclp)
  then show "\<exists>r''. ?q (?r0, None, map rc_compile [UpdateProcessed 5, UpdateProcessed 6]) (r'', None, [[], []]) \<and>
      reconciler_get_slot r'' Processed = 6 \<and> st_processed_slot (reconciler_stats r'') = 5"
    by (intro exI [of _ ?r4]) (simp add: reconciler_stats_def)
qed

theorem reconciler_interleaving_witness:
  "reconciler_get_root (update_finalized 9 (reconciler_new 4)) =
     st_root_slot (reconciler_stats (update_finalized 9 (reconciler_new 4)))"
  using reconciler_interleaving [of "reconciler_new 4" "UpdateFinalized 9" 4 "[UpdateFinalized 9]"
      "update_finalized 9 (reconciler_new 4)" None "[[]]"] by simp

text \<open>As long as slots are processed in non-decreasing order, the confirmed slot lags the
  processed one by 1 and the finalized one by 31, so that a slot visible at a commitment is
  visible at every weaker one.\<close>

theorem slot_context_lags:
  assumes "sorted (map fst ss)" "ss \<noteq> []"
    and "c = fold (\<lambda>(s, p). slot_context_update s p) ss slot_context_new"
  shows "sc_processed_slot c = fst (last ss) \<and>
    sc_confirmed_slot c = lag 1 (fst (last ss)) \<and> sc_finalized_slot c = lag 31 (fst (last ss)) \<and>
    (\<forall>slot l m. satisfies l m \<and> slot_context_is_visible c slot l \<longrightarrow> slot_context_is_visible c slot m)"
proof -
  have "sc_lagging c" and "sc_processed_slot c = fst (last ss)"
    using sc_lagging_updates [OF sc_lagging_new, of ss] assms
    by (auto simp: slot_context_new_def last_map)
  then show ?thesis using sc_lagging_visible by (auto simp: sc_lagging_def)
qed

theorem slot_context_lags_witness:
  "sc_finalized_slot (fold (\<lambda>(s, p). slot_context_update s p) [(3, 2), (40, 3)] slot_context_new) = 9"
  using slot_context_lags [OF _ _ refl, of "[(3, 2), (40, 3)]"] by (simp add: lag_def)

text \<open>Processing an older slot breaks that order: the finalized slot stays ahead of the
  processed one, and slots are visible as finalized that are not visible as processed.\<close>

theorem slot_context_rewind_breaks_order:
  "let c = slot_context_update 10 9 (slot_context_update 100 99 slot_context_new)
   in slot_context_is_visible c 60 Finalized \<and> \<not> slot_context_is_visible c 60 Processed"
  by (simp add: slot_context_update_def slot_context_new_def slot_context_is_visible_def Let_def)

text \<open>After a rollback no slot above the new root counts as finalized, but slots above it
  that were confirmed still do.\<close>

theorem rollback_caps_only_finalized:
  "(is_finalized (handle_rollback new_root r) slot \<longrightarrow> slot \<le> new_root) \<and>
   reconciler_get_root (handle_rollback new_root r) = new_root \<and>
   is_confirmed (handle_rollback new_root r) slot = is_confirmed r slot"
  by (auto simp: is_finalized_def is_confirmed_def reconciler_get_root_def rc_defs)

theorem rollback_caps_only_finalized_witness:
  "is_finalized (handle_rollback 102 (update_finalized 103 (reconciler_new 100))) 102 \<and>
   (102 :: u64) \<le> 102"
  using rollback_caps_only_finalized [of 102 "update_finalized 103 (reconciler_new 100)" 102]
  by (simp add: is_finalized_def rc_defs reconciler_new_def)

end
