(* ===== verification/Entry_Layout.thy ===== *)
theory Entry_Layout
  imports Prelude
begin

text \<open>
  The 64-byte entry header shared by the ring buffer (\<open>RingEntry\<close> of
  \<open>geyser-bridge/src/ring_buffer.rs\<close>) and the delta segments (\<open>DeltaEntry\<close> of
  \<open>delta-plane/src/segment_writer.rs\<close>): both are \<open>repr(C)\<close> structs with the same fields.
  Field offsets: size 0, four bytes of padding, slot 8, write version 16, pubkey 24, data
  length 56, reserved 60.  The padding bytes are an argument, since the code leaves them
  unspecified.
\<close>

record entry_header =
  eh_size :: u32
  eh_slot :: u64
  eh_write_version :: u64
  eh_pubkey :: "byte list"
  eh_data_len :: u32
  eh_reserved :: u32

definition ENTRY_SIZE :: nat where
  "ENTRY_SIZE = 64"

definition entry_header_bytes :: "byte list \<Rightarrow> entry_header \<Rightarrow> byte list" where
  "entry_header_bytes pad e =
     le_bytes 4 (eh_size e) @ pad @ le_bytes 8 (eh_slot e) @ le_bytes 8 (eh_write_version e) @
     eh_pubkey e @ le_bytes 4 (eh_data_len e) @ le_bytes 4 (eh_reserved e)"

text \<open>Reading the struct at an offset of the mapping; \<open>None\<close> outside of it.\<close>

definition entry_at :: "byte list \<Rightarrow> nat \<Rightarrow> entry_header option" where
  "entry_at mem off =
     (case slice mem off (off + ENTRY_SIZE) of None \<Rightarrow> None
      | Some bs \<Rightarrow> Some \<lparr> eh_size = of_le_bytes (take 4 bs), eh_slot = of_le_bytes (take 8 (drop 8 bs)),
          eh_write_version = of_le_bytes (take 8 (drop 16 bs)), eh_pubkey = take 32 (drop 24 bs),
          eh_data_len = of_le_bytes (take 4 (drop 56 bs)), eh_reserved = of_le_bytes (take 4 (drop 60 bs)) \<rparr>)"

text \<open>An account update as both formats store it: the header and the payload.\<close>

record update =
  up_slot :: u64
  up_write_version :: u64
  up_pubkey :: "byte list"
  up_data :: "byte list"

definition entry_of :: "update \<Rightarrow> entry_header" where
  "entry_of u =
     \<lparr> eh_size = of_nat (ENTRY_SIZE + length (up_data u)), eh_slot = up_slot u,
       eh_write_version = up_write_version u, eh_pubkey = up_pubkey u,
       eh_data_len = of_nat (length (up_data u)), eh_reserved = 0 \<rparr>"

definition update_bytes :: "byte list \<Rightarrow> update \<Rightarrow> byte list" where
  "update_bytes pad u = entry_header_bytes pad (entry_of u) @ up_data u"

text \<open>An update whose entry size fits into the 32-bit size field.\<close>

definition update_fits :: "update \<Rightarrow> bool" where
  "update_fits u \<longleftrightarrow> length (up_pubkey u) = 32 \<and> ENTRY_SIZE + length (up_data u) < 2 ^ 32"

definition update_size :: "update \<Rightarrow> nat" where
  "update_size u = ENTRY_SIZE + length (up_data u)"

lemma length_entry_header_bytes:
  "length pad = 4 \<Longrightarrow> length (eh_pubkey e) = 32 \<Longrightarrow> length (entry_header_bytes pad e) = ENTRY_SIZE"
  by (simp add: entry_header_bytes_def ENTRY_SIZE_def)

lemma length_update_bytes:
  "length pad = 4 \<Longrightarrow> update_fits u \<Longrightarrow> length (update_bytes pad u) = update_size u"
  by (simp add: update_bytes_def update_size_def update_fits_def length_entry_header_bytes entry_of_def)

lemma entry_at_append:
  assumes "length pad = 4" "length (eh_pubkey e) = 32" "off = length xs"
  shows "entry_at (xs @ entry_header_bytes pad e @ ys) off = Some e"
proof -
  have "slice (xs @ entry_header_bytes pad e @ ys) off (off + ENTRY_SIZE) = Some (entry_header_bytes pad e)"
    using assms by (intro slice_exactI) (simp_all add: length_entry_header_bytes)
  then show ?thesis
    using assms(1,2)
    by (simp add: entry_at_def entry_header_bytes_def codec_simps)
qed

lemma entry_at_update:
  assumes "length pad = 4" "update_fits u" "off = length xs"
  shows "entry_at (xs @ update_bytes pad u @ ys) off = Some (entry_of u)"
  using entry_at_append [of pad "entry_of u" off xs "up_data u @ ys"] assms
  by (simp add: update_bytes_def update_fits_def entry_of_def)

lemma payload_at_update:
  assumes "length pad = 4" "update_fits u" "off = length xs"
  shows "slice (xs @ update_bytes pad u @ ys) (off + ENTRY_SIZE) (off + ENTRY_SIZE + length (up_data u))
    = Some (up_data u)"
  using slice_exact [of "xs @ entry_header_bytes pad (entry_of u)" "up_data u" ys] assms
  by (simp add: update_bytes_def length_entry_header_bytes entry_of_def update_fits_def add.assoc)

lemma entry_of_sizes:
  assumes "update_fits u"
  shows "unat (eh_size (entry_of u)) = update_size u" "unat (eh_data_len (entry_of u)) = length (up_data u)"
    "eh_size (entry_of u) \<noteq> 0"
proof -
  show 1: "unat (eh_size (entry_of u)) = update_size u"
    using assms unat_of_nat_eq [of "ENTRY_SIZE + length (up_data u)", where 'a = 32]
    by (simp add: entry_of_def update_fits_def update_size_def del: of_nat_add)
  show "unat (eh_data_len (entry_of u)) = length (up_data u)"
    using assms by (simp add: entry_of_def update_fits_def unat_of_nat_eq ENTRY_SIZE_def)
  have "update_size u \<noteq> 0" by (simp add: update_size_def ENTRY_SIZE_def)
  then show "eh_size (entry_of u) \<noteq> 0" using 1 by (metis unat_0)
qed


section \<open>Append-only logs of updates\<close>

text \<open>
  An entry to append: the update and the padding bytes its header happens to have.
\<close>

type_synonym padded = "byte list \<times> update"

definition padded_ok :: "padded \<Rightarrow> bool" where
  "padded_ok e \<longleftrightarrow> length (fst e) = 4 \<and> update_fits (snd e)"

definition entries_bytes :: "padded list \<Rightarrow> byte list" where
  "entries_bytes us = concat (map (\<lambda>e. update_bytes (fst e) (snd e)) us)"

definition entries_size :: "padded list \<Rightarrow> nat" where
  "entries_size us = sum_list (map (\<lambda>e. update_size (snd e)) us)"

lemma entries_bytes_simps [simp]:
  "entries_bytes [] = []" "entries_bytes (e # us) = update_bytes (fst e) (snd e) @ entries_bytes us"
  "entries_bytes (us @ vs) = entries_bytes us @ entries_bytes vs"
  by (simp_all add: entries_bytes_def)

lemma entries_size_simps [simp]:
  "entries_size [] = 0" "entries_size (e # us) = update_size (snd e) + entries_size us"
  "entries_size (us @ vs) = entries_size us + entries_size vs"
  by (simp_all add: entries_size_def)

lemma length_entries_bytes: "\<forall>e \<in> set us. padded_ok e \<Longrightarrow> length (entries_bytes us) = entries_size us"
  by (induction us) (simp_all add: padded_ok_def length_update_bytes)

text \<open>
  What the delta plane relies on of such a log: while the entry fits into the capacity,
  appending extends the entries held and keeps the capacity.
\<close>

locale update_log =
  fixes app :: "padded \<Rightarrow> 'l \<Rightarrow> 'l"
    and holds :: "'l \<Rightarrow> padded list \<Rightarrow> bool"
    and cap :: "'l \<Rightarrow> nat"
  assumes app_holds: "\<lbrakk> holds l us; padded_ok e; entries_size us + update_size (snd e) \<le> cap l \<rbrakk>
      \<Longrightarrow> holds (app e l) (us @ [e]) \<and> cap (app e l) = cap l"
begin

lemma app_all_holds:
  "\<lbrakk> holds l us; \<forall>e \<in> set vs. padded_ok e; entries_size us + entries_size vs \<le> cap l \<rbrakk>
     \<Longrightarrow> holds (fold app vs l) (us @ vs) \<and> cap (fold app vs l) = cap l"
proof (induction vs arbitrary: l us)
  case (Cons e vs)
  have "holds (app e l) (us @ [e]) \<and> cap (app e l) = cap l"
    using Cons.prems by (intro app_holds) auto
  then show ?case using Cons.IH [of "app e l" "us @ [e]"] Cons.prems by simp
qed simp

end

end
