(* ===== verification/Ring_Buffer.thy ===== *)
theory Ring_Buffer
  imports Entry_Layout
begin

text \<open>
  The shared-memory ring buffer between the Geyser plugin and the delta plane
  (\<open>geyser-bridge/src/ring_buffer.rs\<close>) and the plugin itself (\<open>geyser-bridge/src/lib.rs\<close>).

  The mapping is the record \<open>ring_mem\<close>: the fields of \<open>RingBufferHeader\<close> and the bytes
  behind it.  \<open>RingBufferHeader\<close> is \<open>repr(C, align(64))\<close> with 80 bytes of fields, so it
  occupies 128 bytes and the bytes behind it number 128 fewer than the file.  The unsafe
  accesses are checked against the mapping: an access outside of it is \<open>Panic\<close> here (in
  the program a fault or silent corruption).

  The lemmas show that a reader gets back exactly the updates written, in order, and
  exactly when a write leaves the mapping.
\<close>

definition RING_HEADER_SIZE :: nat where
  "RING_HEADER_SIZE = 128"

datatype ring_buffer_state = Uninitialized | Active | Draining | Stopped

fun state_byte :: "ring_buffer_state \<Rightarrow> byte" where
  "state_byte Uninitialized = 0"
| "state_byte Active = 1"
| "state_byte Draining = 2"
| "state_byte Stopped = 3"

record ring_mem =
  rb_write_pos :: u64
  rb_read_pos :: u64
  rb_capacity :: u64
  rb_entry_count :: u64
  rb_state :: byte
  rb_bytes :: "byte list"

datatype ring_buffer_error = Io | NotActive | BufferFull | InvalidSize | CorruptedEntry

record ring_writer =
  rw_capacity :: u64

record ring_reader =
  rr_read_pos :: u64

definition ring_entry_total_size :: "entry_header \<Rightarrow> nat" where
  "ring_entry_total_size e = ENTRY_SIZE + unat (eh_data_len e)"


section \<open>Writer\<close>

text \<open>\<open>opened\<close> is the outcome of opening, sizing and mapping the file; a fresh file is zeroed.\<close>

definition ring_create :: "bool \<Rightarrow> nat \<Rightarrow> (ring_buffer_error, ring_writer \<times> ring_mem) result" where
  "ring_create opened capacity =
     (if \<not> opened then Err Io
      else if capacity < RING_HEADER_SIZE then Panic
      else Ok (\<lparr> rw_capacity = of_nat capacity \<rparr>,
               \<lparr> rb_write_pos = 0, rb_read_pos = 0, rb_capacity = of_nat capacity, rb_entry_count = 0,
                 rb_state = state_byte Active, rb_bytes = replicate (capacity - RING_HEADER_SIZE) 0 \<rparr>))"

text \<open>Opening an existing file of \<open>len\<close> bytes whose contents are \<open>m\<close>.\<close>

definition ring_writer_open :: "bool \<Rightarrow> nat \<Rightarrow> ring_mem \<Rightarrow> (ring_buffer_error, ring_writer) result" where
  "ring_writer_open opened len m =
     (if \<not> opened then Err Io
      else if len < RING_HEADER_SIZE then Err InvalidSize
      else Ok \<lparr> rw_capacity = rb_capacity m \<rparr>)"

definition ring_write ::
  "byte list \<Rightarrow> ring_writer \<Rightarrow> u64 \<Rightarrow> u64 \<Rightarrow> byte list \<Rightarrow> byte list \<Rightarrow> ring_mem \<Rightarrow>
     (ring_buffer_error, u64) result \<times> ring_mem" where
  "ring_write pad w slot write_version pubkey data m =
     (if rb_state m \<noteq> state_byte Active then (Err NotActive, m)
      else
        let entry_size = (of_nat (ENTRY_SIZE + length data) :: u32);
            write_pos = rb_write_pos m;
            new_pos = write_pos + ucast entry_size
        in if new_pos > rw_capacity w then (Err BufferFull, m)
           else if length (rb_bytes m) < unat write_pos + ENTRY_SIZE + length data then (Panic, m)
           else
             let header = entry_header_bytes pad
                   \<lparr> eh_size = entry_size, eh_slot = slot, eh_write_version = write_version,
                     eh_pubkey = pubkey, eh_data_len = of_nat (length data), eh_reserved = 0 \<rparr>;
                 bytes1 = write_at (rb_bytes m) (unat write_pos) header;
                 bytes2 = write_at bytes1 (unat write_pos + ENTRY_SIZE) data
             in (Ok write_pos,
                 m \<lparr> rb_bytes := bytes2, rb_write_pos := new_pos, rb_entry_count := rb_entry_count m + 1 \<rparr>))"

definition ring_entry_count :: "ring_mem \<Rightarrow> u64" where
  "ring_entry_count m = rb_entry_count m"

definition ring_close :: "ring_mem \<Rightarrow> ring_mem" where
  "ring_close m = m \<lparr> rb_state := state_byte Stopped \<rparr>"


section \<open>Reader\<close>

record ring_entry_view =
  rv_slot :: u64
  rv_write_version :: u64
  rv_pubkey :: "byte list"
  rv_data :: "byte list"

definition ring_reader_open :: "bool \<Rightarrow> nat \<Rightarrow> (ring_buffer_error, ring_reader) result" where
  "ring_reader_open opened len =
     (if \<not> opened then Err Io
      else if len < RING_HEADER_SIZE then Err InvalidSize
      else Ok \<lparr> rr_read_pos = 0 \<rparr>)"

definition ring_read_next ::
  "ring_mem \<Rightarrow> ring_reader \<Rightarrow> (ring_buffer_error, ring_entry_view option) result \<times> ring_reader" where
  "ring_read_next m rd =
     (let write_pos = rb_write_pos m; read_pos = rr_read_pos rd in
      if read_pos \<ge> write_pos then (Ok None, rd)
      else case entry_at (rb_bytes m) (unat read_pos) of
        None \<Rightarrow> (Panic, rd)
      | Some entry \<Rightarrow>
          if eh_size entry = 0 \<or> read_pos + ucast (eh_size entry) > write_pos then (Err CorruptedEntry, rd)
          else case slice (rb_bytes m) (unat read_pos + ENTRY_SIZE)
                      (unat read_pos + ENTRY_SIZE + unat (eh_data_len entry)) of
            None \<Rightarrow> (Panic, rd)
          | Some data \<Rightarrow>
              (Ok (Some \<lparr> rv_slot = eh_slot entry, rv_write_version = eh_write_version entry,
                          rv_pubkey = eh_pubkey entry, rv_data = data \<rparr>),
               rd \<lparr> rr_read_pos := read_pos + ucast (eh_size entry) \<rparr>))"

definition ring_advance :: "u64 \<Rightarrow> ring_reader \<Rightarrow> ring_mem \<Rightarrow> ring_reader \<times> ring_mem" where
  "ring_advance pos rd m = (rd \<lparr> rr_read_pos := pos \<rparr>, m \<lparr> rb_read_pos := pos \<rparr>)"


section \<open>The Geyser plugin\<close>

record plugin =
  gp_ring_buffer :: "ring_writer option"

definition plugin_new :: plugin where
  "plugin_new = \<lparr> gp_ring_buffer = None \<rparr>"

datatype plugin_error = Create_failed ring_buffer_error | Invalid_pubkey_length

definition init_ring_buffer ::
  "bool \<Rightarrow> nat \<Rightarrow> plugin \<times> ring_mem \<Rightarrow> (plugin_error, unit) result \<times> plugin \<times> ring_mem" where
  "init_ring_buffer opened capacity s =
     (case ring_create opened capacity of
        Err e \<Rightarrow> (Err (Create_failed e), s)
      | Panic \<Rightarrow> (Panic, s)
      | Ok (w, m) \<Rightarrow> (Ok (), (fst s) \<lparr> gp_ring_buffer := Some w \<rparr>, m))"

text \<open>
  The three versions of \<open>ReplicaAccountInfo\<close>, each with the fields the plugin reads.
\<close>

record replica_info =
  ri_pubkey :: "byte list"
  ri_write_version :: u64
  ri_data :: "byte list"

datatype replica_account_info = V0_0_1 replica_info | V0_0_2 replica_info | V0_0_3 replica_info

definition forward_update ::
  "byte list \<Rightarrow> replica_info \<Rightarrow> u64 \<Rightarrow> plugin \<Rightarrow> ring_mem \<Rightarrow> (plugin_error, unit) result \<times> ring_mem" where
  "forward_update pad info slot p m =
     (if length (ri_pubkey info) \<noteq> 32 then (Err Invalid_pubkey_length, m)
      else case gp_ring_buffer p of
        None \<Rightarrow> (Ok (), m)
      | Some w \<Rightarrow>
          (case ring_write pad w slot (ri_write_version info) (ri_pubkey info) (ri_data info) m of
             (Panic, m') \<Rightarrow> (Panic, m')
           | (_, m') \<Rightarrow> (Ok (), m')))"

fun update_account ::
  "byte list \<Rightarrow> replica_account_info \<Rightarrow> u64 \<Rightarrow> plugin \<Rightarrow> ring_mem \<Rightarrow> (plugin_error, unit) result \<times> ring_mem" where
  "update_account pad (V0_0_1 info) slot p m = forward_update pad info slot p m"
| "update_account pad (V0_0_2 info) slot p m = forward_update pad info slot p m"
| "update_account pad (V0_0_3 info) slot p m = forward_update pad info slot p m"


section \<open>Lemmas\<close>

text \<open>
  The abstract ring is the list of entries it holds.  \<open>ring_holds m us\<close>: the bytes behind
  the header start with the entries of \<open>us\<close>, and the write position is their total size.
\<close>

definition ring_holds :: "ring_mem \<Rightarrow> padded list \<Rightarrow> bool" where
  "ring_holds m us \<longleftrightarrow>
     (\<forall>e \<in> set us. padded_ok e) \<and> (\<exists>rest. rb_bytes m = entries_bytes us @ rest) \<and>
     length (rb_bytes m) < 2 ^ 64 \<and> rb_write_pos m = of_nat (entries_size us) \<and>
     rb_state m = state_byte Active \<and> rb_entry_count m = of_nat (length us)"

definition ring_log :: "ring_writer \<Rightarrow> ring_mem \<Rightarrow> padded list \<Rightarrow> bool" where
  "ring_log w m us \<longleftrightarrow> ring_holds m us \<and> length (rb_bytes m) \<le> unat (rw_capacity w)"

definition ring_write_entry :: "ring_writer \<Rightarrow> padded \<Rightarrow> ring_mem \<Rightarrow> (ring_buffer_error, u64) result \<times> ring_mem" where
  "ring_write_entry w e m =
     ring_write (fst e) w (up_slot (snd e)) (up_write_version (snd e)) (up_pubkey (snd e)) (up_data (snd e)) m"

definition ring_append :: "ring_writer \<Rightarrow> padded \<Rightarrow> ring_mem \<Rightarrow> ring_mem" where
  "ring_append w e m = snd (ring_write_entry w e m)"

definition view_of :: "update \<Rightarrow> ring_entry_view" where
  "view_of u = \<lparr> rv_slot = up_slot u, rv_write_version = up_write_version u,
                 rv_pubkey = up_pubkey u, rv_data = up_data u \<rparr>"

lemma ring_holds_size:
  assumes "ring_holds m us"
  shows "entries_size us \<le> length (rb_bytes m)" "unat (rb_write_pos m) = entries_size us"
proof -
  show le: "entries_size us \<le> length (rb_bytes m)"
    using assms by (auto simp: ring_holds_def length_entries_bytes [symmetric])
  then show "unat (rb_write_pos m) = entries_size us"
    using assms by (simp add: ring_holds_def unat_of_nat_eq)
qed

lemma ring_create_log:
  assumes "ring_create True capacity = Ok (w, m)" "capacity < 2 ^ 64"
  shows "ring_log w m []" "unat (rw_capacity w) = capacity" "length (rb_bytes m) + RING_HEADER_SIZE = capacity"
  using assms by (auto simp: ring_create_def ring_holds_def ring_log_def unat_of_nat_eq split: if_splits)

text \<open>The position behind an entry, and the effect of a write that has room.\<close>

lemma ring_new_pos:
  assumes h: "ring_holds m us" and f: "update_fits u" and b: "entries_size us + update_size u < 2 ^ 64"
  shows "rb_write_pos m + ucast (eh_size (entry_of u)) = of_nat (entries_size us + update_size u)"
    and "unat (rb_write_pos m + ucast (eh_size (entry_of u))) = entries_size us + update_size u"
proof -
  show *: "unat (rb_write_pos m + ucast (eh_size (entry_of u))) = entries_size us + update_size u"
    using b ring_holds_size(2) [OF h] entry_of_sizes(1) [OF f]
    by (subst unat_word_add_exact) simp_all
  then show "rb_write_pos m + ucast (eh_size (entry_of u)) = of_nat (entries_size us + update_size u)"
    using b unat_eq_of_nat [of "entries_size us + update_size u" "rb_write_pos m + ucast (eh_size (entry_of u))"]
    by (simp del: of_nat_add)
qed

lemma write_at_end: "write_at (xs @ rest) (length xs) ys = xs @ ys @ drop (length ys) rest"
  by (simp add: write_at_def)

lemma write_entry_bytes:
  assumes "length pad = 4" "update_fits u"
  shows "write_at (write_at (pre @ rest) (length pre) (entry_header_bytes pad (entry_of u)))
      (length pre + ENTRY_SIZE) (up_data u) = pre @ update_bytes pad u @ drop (update_size u) rest"
proof -
  have "length (entry_header_bytes pad (entry_of u)) = ENTRY_SIZE"
    using assms by (simp add: length_entry_header_bytes entry_of_def update_fits_def)
  then show ?thesis
    using write_at_end [of pre rest "entry_header_bytes pad (entry_of u)"]
      write_at_end [of "pre @ entry_header_bytes pad (entry_of u)" "drop ENTRY_SIZE rest" "up_data u"]
    by (simp add: update_bytes_def update_size_def add.commute)
qed

lemma ring_write_entry_unfold:
  "ring_write_entry w (pad, u) m =
     (if rb_state m \<noteq> state_byte Active then (Err NotActive, m)
      else if rb_write_pos m + ucast (eh_size (entry_of u)) > rw_capacity w then (Err BufferFull, m)
      else if length (rb_bytes m) < unat (rb_write_pos m) + update_size u then (Panic, m)
      else (Ok (rb_write_pos m),
        m \<lparr> rb_bytes := write_at (write_at (rb_bytes m) (unat (rb_write_pos m)) (entry_header_bytes pad (entry_of u)))
               (unat (rb_write_pos m) + ENTRY_SIZE) (up_data u),
            rb_write_pos := rb_write_pos m + ucast (eh_size (entry_of u)),
            rb_entry_count := rb_entry_count m + 1 \<rparr>))"
  by (simp add: ring_write_entry_def ring_write_def entry_of_def update_size_def Let_def add.assoc
      del: of_nat_add)

lemma ring_write_room:
  assumes l: "ring_log w m us" and e: "padded_ok (pad, u)"
    and room: "entries_size us + update_size u \<le> length (rb_bytes m)"
    and rest: "rb_bytes m = entries_bytes us @ rest"
  shows "ring_write_entry w (pad, u) m =
     (Ok (of_nat (entries_size us)),
      m \<lparr> rb_bytes := entries_bytes us @ update_bytes pad u @ drop (update_size u) rest,
          rb_write_pos := of_nat (entries_size us + update_size u), rb_entry_count := rb_entry_count m + 1 \<rparr>)"
proof -
  have h: "ring_holds m us" and p: "length pad = 4" and f: "update_fits u"
    using l e by (simp_all add: ring_log_def padded_ok_def)
  have "length (rb_bytes m) < 2 ^ 64" using h by (simp add: ring_holds_def)
  then have b: "entries_size us + update_size u < 2 ^ 64" using room by simp
  note new = ring_new_pos [OF h f b]
  have "\<not> rb_write_pos m + ucast (eh_size (entry_of u)) > rw_capacity w"
    using new(2) room l by (simp add: word_less_nat_alt ring_log_def)
  moreover have "length (entries_bytes us) = entries_size us"
    using h by (simp add: ring_holds_def length_entries_bytes)
  ultimately show ?thesis
    using h room ring_holds_size [OF h] write_entry_bytes [OF p f, of "entries_bytes us" rest]
    unfolding ring_write_entry_unfold new(1) rest
    by (simp add: ring_holds_def)
qed

lemma ring_append_log:
  assumes "ring_log w m us" "padded_ok e" "entries_size us + update_size (snd e) \<le> length (rb_bytes m)"
  shows "ring_log w (ring_append w e m) (us @ [e]) \<and> length (rb_bytes (ring_append w e m)) = length (rb_bytes m)"
proof -
  obtain pad u where e: "e = (pad, u)" by (cases e)
  obtain rest where rest: "rb_bytes m = entries_bytes us @ rest"
    using assms(1) by (auto simp: ring_log_def ring_holds_def)
  have "length (entries_bytes us) = entries_size us" "length (update_bytes pad u) = update_size u"
    using assms by (auto simp: ring_log_def ring_holds_def length_entries_bytes e padded_ok_def length_update_bytes)
  moreover from this have "update_size u \<le> length rest" using assms(3) rest e by simp
  ultimately show ?thesis
    using ring_write_room [OF assms(1) assms(2) [unfolded e] _ rest] assms rest
    by (auto simp: e ring_append_def ring_log_def ring_holds_def)
qed

interpretation rl: update_log "ring_append w" "ring_log w" "\<lambda>m. length (rb_bytes m)" for w
  by unfold_locales (rule ring_append_log)


subsection \<open>Reading\<close>

lemma ring_read_entry:
  assumes h: "ring_holds m (xs @ (pad, u) # ys)" and r: "rr_read_pos rd = of_nat (entries_size xs)"
  shows "ring_read_next m rd = (Ok (Some (view_of u)), rd \<lparr> rr_read_pos := of_nat (entries_size (xs @ [(pad, u)])) \<rparr>)"
proof -
  let ?us = "xs @ (pad, u) # ys"
  have f: "update_fits u" and p: "length pad = 4" and xs: "\<forall>e\<in>set xs. padded_ok e"
    using h by (auto simp: ring_holds_def padded_ok_def)
  obtain rest where rest: "rb_bytes m = entries_bytes xs @ update_bytes pad u @ entries_bytes ys @ rest"
    using h by (auto simp: ring_holds_def)
  have lt: "entries_size ?us < 2 ^ 64" using ring_holds_size(1) [OF h] h by (simp add: ring_holds_def)
  have rp: "unat (rr_read_pos rd) = length (entries_bytes xs)"
    using lt by (simp add: r unat_of_nat_eq length_entries_bytes [OF xs])
  have us: "unat (ucast (eh_size (entry_of u)) :: u64) = update_size u"
    using entry_of_sizes(1) [OF f] by simp
  have nxt: "unat (rr_read_pos rd + ucast (eh_size (entry_of u))) = entries_size xs + update_size u"
    using lt rp us length_entries_bytes [OF xs] by (subst unat_word_add_exact) simp_all
  have "\<not> rr_read_pos rd \<ge> rb_write_pos m"
    using ring_holds_size(2) [OF h] rp length_entries_bytes [OF xs] us entry_of_sizes(3) [OF f] entry_of_sizes(1) [OF f]
    by (simp add: word_le_nat_alt unat_eq_zero [symmetric])
  moreover have "\<not> rr_read_pos rd + ucast (eh_size (entry_of u)) > rb_write_pos m"
    using ring_holds_size(2) [OF h] nxt by (simp add: word_less_nat_alt)
  moreover have "entry_at (rb_bytes m) (unat (rr_read_pos rd)) = Some (entry_of u)"
    unfolding rest by (rule entry_at_update) (use p f rp in auto)
  moreover have "slice (rb_bytes m) (unat (rr_read_pos rd) + ENTRY_SIZE)
      (unat (rr_read_pos rd) + ENTRY_SIZE + length (up_data u)) = Some (up_data u)"
    unfolding rest by (rule payload_at_update) (use p f rp in auto)
  moreover have "rr_read_pos rd + ucast (eh_size (entry_of u)) = of_nat (entries_size xs + update_size u)"
    using nxt lt unat_eq_of_nat [of "entries_size xs + update_size u"] by (simp del: of_nat_add)
  ultimately show ?thesis
    using entry_of_sizes [OF f] by (simp add: ring_read_next_def Let_def view_of_def entry_of_def)
qed

lemma ring_read_end:
  "ring_holds m us \<Longrightarrow> rr_read_pos rd = of_nat (entries_size us) \<Longrightarrow> ring_read_next m rd = (Ok None, rd)"
  by (simp add: ring_read_next_def ring_holds_def)

text \<open>The values of \<open>n\<close> successive \<open>read_next\<close> calls.\<close>

primrec ring_read_n :: "nat \<Rightarrow> ring_mem \<Rightarrow> ring_reader \<Rightarrow> (ring_buffer_error, ring_entry_view option) result list" where
  "ring_read_n 0 m rd = []"
| "ring_read_n (Suc n) m rd = (let (v, rd') = ring_read_next m rd in v # ring_read_n n m rd')"

lemma ring_read_suffix:
  assumes "ring_holds m (xs @ ys)" "rr_read_pos rd = of_nat (entries_size xs)"
  shows "ring_read_n (Suc (length ys)) m rd = map (\<lambda>e. Ok (Some (view_of (snd e)))) ys @ [Ok None]"
  using assms
proof (induction ys arbitrary: xs rd)
  case (Cons e ys)
  obtain pad u where e: "e = (pad, u)" by (cases e)
  show ?case
    using ring_read_entry [of m xs pad u ys rd] Cons.prems
      Cons.IH [of "xs @ [e]" "rd \<lparr> rr_read_pos := of_nat (entries_size (xs @ [e])) \<rparr>"]
    by (simp add: e del: ring_read_n.simps(2)) (simp add: e Let_def)
qed (simp add: ring_read_end)


subsection \<open>Overrun\<close>

lemma ring_write_overrun:
  assumes "ring_log w m us" "padded_ok (pad, u)" "unat (rw_capacity w) < 2 ^ 63"
    and "length (rb_bytes m) < entries_size us + update_size u"
    and "entries_size us + update_size u \<le> unat (rw_capacity w)"
  shows "ring_write_entry w (pad, u) m = (Panic, m)"
proof -
  have h: "ring_holds m us" and f: "update_fits u" using assms by (simp_all add: ring_log_def padded_ok_def)
  have "unat (rb_write_pos m + ucast (eh_size (entry_of u))) = entries_size us + update_size u"
    using assms by (intro ring_new_pos [OF h f]) simp
  then show ?thesis
    using assms h ring_holds_size(2) [OF h]
    by (simp add: ring_write_entry_unfold word_less_nat_alt ring_holds_def)
qed


section \<open>Properties\<close>

text \<open>C7: on a freshly created ring, as long as the entries fit behind the 128-byte header, a
  reader opened afterwards returns exactly the updates written, in order and with their
  slot, write version, pubkey and data, and then reports that there is no more data.\<close>

theorem ring_buffer_fifo:
  assumes "ring_create True capacity = Ok (w, m0)" "capacity < 2 ^ 64"
    and "\<forall>e \<in> set us. padded_ok e" "entries_size us + RING_HEADER_SIZE \<le> capacity"
    and "m = fold (ring_append w) us m0" "ring_reader_open True capacity = Ok rd"
  shows "ring_read_n (Suc (length us)) m rd = map (\<lambda>e. Ok (Some (view_of (snd e)))) us @ [Ok None] \<and>
    ring_entry_count m = of_nat (length us)"
proof -
  have "ring_log w m us"
    using rl.app_all_holds [OF ring_create_log(1) [OF assms(1,2)], of us] assms(3-5)
      ring_create_log(3) [OF assms(1,2)] by simp
  then have "ring_holds m ([] @ us)" by (simp add: ring_log_def)
  moreover have "rr_read_pos rd = of_nat (entries_size [])"
    using assms(6) by (auto simp: ring_reader_open_def split: if_splits)
  ultimately show ?thesis
    using ring_read_suffix [of m "[]" us rd] by (simp add: ring_entry_count_def ring_holds_def)
qed

definition sample_update :: "byte list \<Rightarrow> update" where
  "sample_update d = \<lparr> up_slot = 7, up_write_version = 3, up_pubkey = replicate 32 1, up_data = d \<rparr>"

theorem ring_buffer_fifo_witness:
  "\<exists>w m0. ring_create True 400 = Ok (w, m0) \<and>
     ring_read_n 3 (fold (ring_append w) [(replicate 4 0, sample_update [9]), (replicate 4 0, sample_update [])] m0)
       \<lparr> rr_read_pos = 0 \<rparr> =
     [Ok (Some (view_of (sample_update [9]))), Ok (Some (view_of (sample_update []))), Ok None]"
proof -
  obtain w m0 where c: "ring_create True 400 = Ok (w, m0)" by (simp add: ring_create_def RING_HEADER_SIZE_def)
  show ?thesis
    using ring_buffer_fifo [OF c, of "[(replicate 4 0, sample_update [9]), (replicate 4 0, sample_update [])]" _
        "\<lparr> rr_read_pos = 0 \<rparr>"] c
    by (simp add: padded_ok_def update_fits_def sample_update_def update_size_def ENTRY_SIZE_def
        RING_HEADER_SIZE_def ring_reader_open_def numeral_3_eq_3)
qed

text \<open>The capacity check ignores the header: on a created ring of fewer than \<open>2^63\<close> bytes
  a write that still fits the capacity, but not the 128 bytes less that lie behind the
  header, passes the check and runs past the end of the mapping.\<close>

theorem ring_buffer_write_overruns:
  assumes "ring_create True capacity = Ok (w, m0)" "capacity < 2 ^ 63"
    and "\<forall>e \<in> set us. padded_ok e" "entries_size us + RING_HEADER_SIZE \<le> capacity"
    and "padded_ok (pad, u)"
    and "capacity - RING_HEADER_SIZE < entries_size us + update_size u"
    and "entries_size us + update_size u \<le> capacity"
  shows "fst (ring_write_entry w (pad, u) (fold (ring_append w) us m0)) = Panic"
proof -
  have c: "capacity < 2 ^ 64" using assms(2) by simp
  note cr = ring_create_log [OF assms(1) c]
  have "ring_log w (fold (ring_append w) us m0) us \<and>
      length (rb_bytes (fold (ring_append w) us m0)) = length (rb_bytes m0)"
    using rl.app_all_holds [OF cr(1), of us] assms(3,4) cr(3) by simp
  then show ?thesis
    using ring_write_overrun [of w "fold (ring_append w) us m0" us pad u] assms cr by simp
qed

theorem ring_buffer_write_overruns_witness:
  "\<exists>w m0. ring_create True 200 = Ok (w, m0) \<and>
     fst (ring_write_entry w (replicate 4 0, sample_update (replicate 20 5)) m0) = Panic"
proof -
  obtain w m0 where c: "ring_create True 200 = Ok (w, m0)" by (simp add: ring_create_def RING_HEADER_SIZE_def)
  show ?thesis
    using ring_buffer_write_overruns [OF c, of "[]" "replicate 4 0" "sample_update (replicate 20 5)"] c
    by (simp add: padded_ok_def update_fits_def sample_update_def update_size_def ENTRY_SIZE_def
        RING_HEADER_SIZE_def)
qed

text \<open>The plugin callback reports an error exactly for a pubkey that is not 32 bytes; when
  the ring is full or stopped the update is dropped silently and the ring left unchanged.\<close>

theorem update_account_outcomes:
  assumes "account \<in> {V0_0_1 info, V0_0_2 info, V0_0_3 info}"
  shows "(fst (update_account pad account slot p m) = Err e \<longleftrightarrow>
       length (ri_pubkey info) \<noteq> 32 \<and> e = Invalid_pubkey_length) \<and>
    (length (ri_pubkey info) = 32 \<and> gp_ring_buffer p = Some w \<and>
     fst (ring_write pad w slot (ri_write_version info) (ri_pubkey info) (ri_data info) m) \<in> {Err BufferFull, Err NotActive}
       \<longrightarrow> update_account pad account slot p m = (Ok (), m))"
proof -
  have eq: "update_account pad account slot p m = forward_update pad info slot p m"
    using assms by auto
  have same: "m' = m" if "ring_write pad w slot v k d m = (Err x, m')" for v k d x m'
    using that by (auto simp: ring_write_def Let_def split: if_splits)
  show ?thesis unfolding eq
    by (auto simp: forward_update_def dest: same split: option.splits prod.splits result.splits)
qed

theorem update_account_outcomes_witness:
  "update_account [] (V0_0_2 \<lparr> ri_pubkey = replicate 32 0, ri_write_version = 1, ri_data = [1, 2] \<rparr>) 5
     \<lparr> gp_ring_buffer = Some \<lparr> rw_capacity = 65 \<rparr> \<rparr>
     \<lparr> rb_write_pos = 0, rb_read_pos = 0, rb_capacity = 65, rb_entry_count = 0, rb_state = 1, rb_bytes = [] \<rparr>
   = (Ok (), \<lparr> rb_write_pos = 0, rb_read_pos = 0, rb_capacity = 65, rb_entry_count = 0, rb_state = 1, rb_bytes = [] \<rparr>)"
  using update_account_outcomes [of
      "V0_0_2 \<lparr> ri_pubkey = replicate 32 0, ri_write_version = 1, ri_data = [1, 2] \<rparr>"
      "\<lparr> ri_pubkey = replicate 32 0, ri_write_version = 1, ri_data = [1, 2] \<rparr>" "[]" 5
      "\<lparr> gp_ring_buffer = Some \<lparr> rw_capacity = 65 \<rparr> \<rparr>"
      "\<lparr> rb_write_pos = 0, rb_read_pos = 0, rb_capacity = 65, rb_entry_count = 0, rb_state = 1, rb_bytes = [] \<rparr>"
      Invalid_pubkey_length "\<lparr> rw_capacity = 65 \<rparr>"]
  by (simp add: ring_write_def ENTRY_SIZE_def Let_def)

end
