(* ===== verification/Segment.thy ===== *)
theory Segment
  imports Entry_Layout
begin

text \<open>
  Append-only delta segments (\<open>delta-plane/src/segment_writer.rs\<close>).

  A segment file is its bytes; the writer keeps the position of the file cursor.  The
  48-byte \<open>SegmentHeader\<close> is \<open>repr(C)\<close>: magic 0, version 4, start slot 8, end slot 16, entry
  count 24, data size 32, checksum 40, four bytes of tail padding 44 (an argument).
  \<open>crc32fast::hash\<close> is the parameter \<open>crc\<close>.  \<open>io\<close> tells whether the writes of a call
  succeed; a call that fails is taken to have written nothing.
\<close>

record segment_header =
  sh_magic :: u32
  sh_version :: u32
  sh_start_slot :: u64
  sh_end_slot :: u64
  sh_entry_count :: u64
  sh_data_size :: u64
  sh_checksum :: u32

datatype segment_error = SegIo | InvalidMagic u32 | UnsupportedVersion u32 | ChecksumMismatch

definition MAGIC :: u32 where
  "MAGIC = 0x5345474D"

definition VERSION :: u32 where
  "VERSION = 1"

definition SEGMENT_HEADER_SIZE :: nat where
  "SEGMENT_HEADER_SIZE = 48"

definition segment_header_new :: "u64 \<Rightarrow> segment_header" where
  "segment_header_new start_slot =
     \<lparr> sh_magic = MAGIC, sh_version = VERSION, sh_start_slot = start_slot, sh_end_slot = 0,
       sh_entry_count = 0, sh_data_size = 0, sh_checksum = 0 \<rparr>"

definition segment_header_validate :: "segment_header \<Rightarrow> (segment_error, unit) result" where
  "segment_header_validate h =
     (if sh_magic h \<noteq> MAGIC then Err (InvalidMagic (sh_magic h))
      else if sh_version h \<noteq> VERSION then Err (UnsupportedVersion (sh_version h))
      else Ok ())"

definition segment_header_bytes :: "byte list \<Rightarrow> segment_header \<Rightarrow> byte list" where
  "segment_header_bytes pad h =
     le_bytes 4 (sh_magic h) @ le_bytes 4 (sh_version h) @ le_bytes 8 (sh_start_slot h) @
     le_bytes 8 (sh_end_slot h) @ le_bytes 8 (sh_entry_count h) @ le_bytes 8 (sh_data_size h) @
     le_bytes 4 (sh_checksum h) @ pad"

definition segment_header_of_bytes :: "byte list \<Rightarrow> segment_header" where
  "segment_header_of_bytes bs =
     \<lparr> sh_magic = of_le_bytes (take 4 bs), sh_version = of_le_bytes (take 4 (drop 4 bs)),
       sh_start_slot = of_le_bytes (take 8 (drop 8 bs)), sh_end_slot = of_le_bytes (take 8 (drop 16 bs)),
       sh_entry_count = of_le_bytes (take 8 (drop 24 bs)), sh_data_size = of_le_bytes (take 8 (drop 32 bs)),
       sh_checksum = of_le_bytes (take 4 (drop 40 bs)) \<rparr>"

section \<open>Writer\<close>

record segment_writer =
  sw_file :: "byte list"
  sw_cursor :: nat
  sw_header :: segment_header
  sw_current_pos :: u64

text \<open>\<open>write_all\<close> at the cursor overwrites what is there and extends the file.\<close>

definition file_write :: "byte list \<Rightarrow> segment_writer \<Rightarrow> segment_writer" where
  "file_write bs w = w \<lparr> sw_file := write_at (sw_file w) (sw_cursor w) bs, sw_cursor := sw_cursor w + length bs \<rparr>"

definition write_header ::
  "(byte list \<Rightarrow> u32) \<Rightarrow> byte list \<Rightarrow> bool \<Rightarrow> segment_writer \<Rightarrow> (segment_error, unit) result \<times> segment_writer" where
  "write_header crc pad io w =
     (let covered = take (SEGMENT_HEADER_SIZE - 4) (segment_header_bytes pad (sw_header w));
          w1 = w \<lparr> sw_header := (sw_header w) \<lparr> sh_checksum := crc covered \<rparr> \<rparr>
      in if \<not> io then (Err SegIo, w1)
         else (Ok (), file_write (segment_header_bytes pad (sw_header w1)) (w1 \<lparr> sw_cursor := 0 \<rparr>)))"

definition segment_create ::
  "(byte list \<Rightarrow> u32) \<Rightarrow> byte list \<Rightarrow> bool \<Rightarrow> bool \<Rightarrow> u64 \<Rightarrow> (segment_error, segment_writer) result" where
  "segment_create crc pad opened io start_slot =
     (if \<not> opened then Err SegIo
      else case write_header crc pad io
             \<lparr> sw_file = [], sw_cursor = 0, sw_header = segment_header_new start_slot,
               sw_current_pos = of_nat SEGMENT_HEADER_SIZE \<rparr> of
        (Ok _, w) \<Rightarrow> Ok w | (Err e, w) \<Rightarrow> Err e | (Panic, w) \<Rightarrow> Panic)"

definition segment_append ::
  "byte list \<Rightarrow> bool \<Rightarrow> u64 \<Rightarrow> u64 \<Rightarrow> byte list \<Rightarrow> byte list \<Rightarrow> segment_writer \<Rightarrow>
     (segment_error, u64) result \<times> segment_writer" where
  "segment_append pad io slot write_version pubkey data w =
     (let entry = \<lparr> eh_size = of_nat (ENTRY_SIZE + length data), eh_slot = slot,
            eh_write_version = write_version, eh_pubkey = pubkey,
            eh_data_len = of_nat (length data), eh_reserved = 0 \<rparr>;
          offset = sw_current_pos w
      in if \<not> io then (Err SegIo, w)
         else
           let w1 = file_write (entry_header_bytes pad entry) w;
               w2 = file_write data w1;
               h = sw_header w2
           in (Ok offset,
               w2 \<lparr> sw_current_pos := sw_current_pos w2 + ucast (eh_size entry),
                    sw_header := h \<lparr> sh_entry_count := sh_entry_count h + 1,
                      sh_data_size := sh_data_size h + ucast (eh_size entry),
                      sh_end_slot := max (sh_end_slot h) slot \<rparr> \<rparr>))"

record segment_info =
  si_start_slot :: u64
  si_end_slot :: u64
  si_entry_count :: u64
  si_data_size :: u64

definition header_info :: "segment_header \<Rightarrow> segment_info" where
  "header_info h = \<lparr> si_start_slot = sh_start_slot h, si_end_slot = sh_end_slot h,
                     si_entry_count = sh_entry_count h, si_data_size = sh_data_size h \<rparr>"

definition segment_finalize ::
  "(byte list \<Rightarrow> u32) \<Rightarrow> byte list \<Rightarrow> bool \<Rightarrow> segment_writer \<Rightarrow> (segment_error, segment_info) result \<times> byte list" where
  "segment_finalize crc pad io w =
     (case write_header crc pad io w of
        (Ok _, w') \<Rightarrow> (Ok (header_info (sw_header w')), sw_file w')
      | (Err e, w') \<Rightarrow> (Err e, sw_file w')
      | (Panic, w') \<Rightarrow> (Panic, sw_file w'))"


section \<open>Reader\<close>

record segment_reader =
  sg_file :: "byte list"
  sg_header :: segment_header

definition segment_open :: "bool \<Rightarrow> byte list \<Rightarrow> (segment_error, segment_reader) result" where
  "segment_open opened bytes =
     (if \<not> opened \<or> length bytes < SEGMENT_HEADER_SIZE then Err SegIo
      else let header = segment_header_of_bytes (take SEGMENT_HEADER_SIZE bytes) in
        rbind (segment_header_validate header) (\<lambda>_. Ok \<lparr> sg_file = bytes, sg_header = header \<rparr>))"

definition segment_reader_info :: "segment_reader \<Rightarrow> segment_info" where
  "segment_reader_info r = header_info (sg_header r)"


section \<open>Lemmas\<close>

lemma length_segment_header_bytes: "length pad = 4 \<Longrightarrow> length (segment_header_bytes pad h) = SEGMENT_HEADER_SIZE"
  by (simp add: segment_header_bytes_def SEGMENT_HEADER_SIZE_def)

lemma segment_header_codec: "segment_header_of_bytes (segment_header_bytes pad h) = h"
  by (simp add: segment_header_of_bytes_def segment_header_bytes_def codec_simps)

text \<open>
  The abstract segment is the list of entries appended.  \<open>segment_holds start w us\<close>: behind
  48 header bytes the file is exactly the entries, the cursor is at its end, and the header
  fields in memory are the statistics of the entries.
\<close>

definition segment_stats :: "u64 \<Rightarrow> padded list \<Rightarrow> segment_info" where
  "segment_stats start_slot us =
     \<lparr> si_start_slot = start_slot, si_end_slot = fold (\<lambda>e m. max m (up_slot (snd e))) us 0,
       si_entry_count = of_nat (length us), si_data_size = of_nat (entries_size us) \<rparr>"

definition segment_holds :: "u64 \<Rightarrow> segment_writer \<Rightarrow> padded list \<Rightarrow> bool" where
  "segment_holds start_slot w us \<longleftrightarrow>
     (\<forall>e \<in> set us. padded_ok e) \<and>
     (\<exists>hd. length hd = SEGMENT_HEADER_SIZE \<and> sw_file w = hd @ entries_bytes us) \<and>
     sw_cursor w = length (sw_file w) \<and>
     sw_current_pos w = of_nat (SEGMENT_HEADER_SIZE + entries_size us) \<and>
     sh_magic (sw_header w) = MAGIC \<and> sh_version (sw_header w) = VERSION \<and>
     header_info (sw_header w) = segment_stats start_slot us"

definition segment_append_entry :: "bool \<Rightarrow> padded \<Rightarrow> segment_writer \<Rightarrow> (segment_error, u64) result \<times> segment_writer" where
  "segment_append_entry io e w =
     segment_append (fst e) io (up_slot (snd e)) (up_write_version (snd e)) (up_pubkey (snd e)) (up_data (snd e)) w"

lemma segment_create_holds:
  assumes "segment_create crc pad True True s = Ok w" "length pad = 4"
  shows "segment_holds s w []"
  using assms
  by (auto simp: segment_create_def write_header_def segment_holds_def file_write_def write_at_def Let_def
      length_segment_header_bytes segment_header_new_def header_info_def segment_stats_def)

lemma write_at_eof: "i = length xs \<Longrightarrow> write_at xs i ys = xs @ ys"
  by (simp add: write_at_def)

lemma segment_append_Ok:
  assumes "segment_holds s w us" "padded_ok (pad, u)"
  shows "segment_append_entry True (pad, u) w =
     (Ok (of_nat (SEGMENT_HEADER_SIZE + entries_size us)),
      w \<lparr> sw_file := sw_file w @ update_bytes pad u, sw_cursor := sw_cursor w + update_size u,
          sw_current_pos := of_nat (SEGMENT_HEADER_SIZE + entries_size us + update_size u),
          sw_header := (sw_header w) \<lparr> sh_entry_count := sh_entry_count (sw_header w) + 1,
            sh_data_size := sh_data_size (sw_header w) + of_nat (update_size u),
            sh_end_slot := max (sh_end_slot (sw_header w)) (up_slot u) \<rparr> \<rparr>)"
proof -
  have f: "update_fits u" and p: "length pad = 4" using assms(2) by (simp_all add: padded_ok_def)
  have sz: "(ucast (eh_size (entry_of u)) :: u64) = of_nat (update_size u)"
    using entry_of_sizes(1) [OF f] f unat_eq_of_nat [of "update_size u" "ucast (eh_size (entry_of u))"]
    by (simp add: update_size_def update_fits_def)
  have hd: "length (entry_header_bytes pad (entry_of u)) = ENTRY_SIZE"
    using p f by (simp add: length_entry_header_bytes entry_of_def update_fits_def)
  have e: "\<lparr> eh_size = of_nat (ENTRY_SIZE + length (up_data u)), eh_slot = up_slot u,
      eh_write_version = up_write_version u, eh_pubkey = up_pubkey u,
      eh_data_len = of_nat (length (up_data u)), eh_reserved = 0 \<rparr> = entry_of u"
    by (simp add: entry_of_def)
  show ?thesis
    using assms(1)
    unfolding segment_append_entry_def segment_append_def fst_conv snd_conv e Let_def
    by (simp add: segment_holds_def sz file_write_def write_at_eof hd update_bytes_def update_size_def)
qed

definition segment_extend :: "padded \<Rightarrow> segment_writer \<Rightarrow> segment_writer" where
  "segment_extend e w = snd (segment_append_entry True e w)"

lemma segment_extend_holds:
  assumes "segment_holds s w us" "padded_ok e"
  shows "segment_holds s (segment_extend e w) (us @ [e])"
proof -
  obtain pad u where e: "e = (pad, u)" by (cases e)
  have len: "length (update_bytes pad u) = update_size u"
    using assms(2) by (simp add: e padded_ok_def length_update_bytes)
  have ok: "padded_ok (pad, u)" using assms(2) e by simp
  note w' = segment_append_Ok [OF assms(1) ok]
  have "header_info (sw_header (segment_extend e w)) = segment_stats s (us @ [e])"
    using assms(1) by (simp add: w' e segment_extend_def segment_holds_def header_info_def segment_stats_def)
  moreover have "\<exists>hd. length hd = SEGMENT_HEADER_SIZE \<and> sw_file (segment_extend e w) = hd @ entries_bytes (us @ [e])"
    using assms(1) by (auto simp: w' e segment_extend_def segment_holds_def)
  ultimately show ?thesis
    using assms by (simp add: w' e segment_extend_def segment_holds_def len add.assoc)
qed

text \<open>A segment takes any number of entries.\<close>

interpretation seg: update_log segment_extend "segment_holds s" "\<lambda>_. n" for s n
  by unfold_locales (simp add: segment_extend_holds)

lemma segment_extend_all:
  "segment_holds s w us \<Longrightarrow> \<forall>e \<in> set vs. padded_ok e \<Longrightarrow> segment_holds s (fold segment_extend vs w) (us @ vs)"
  using seg.app_all_holds [of s w us vs "entries_size us + entries_size vs"] by simp

lemma segment_finalize_open:
  assumes "segment_holds s w us" "length pad = 4"
  obtains bytes where "segment_finalize crc pad True w = (Ok (segment_stats s us), bytes)"
    and "\<exists>hd. length hd = SEGMENT_HEADER_SIZE \<and> bytes = hd @ entries_bytes us"
    and "\<exists>r. segment_open True bytes = Ok r \<and> segment_reader_info r = segment_stats s us"
proof -
  obtain hd where hd: "length hd = SEGMENT_HEADER_SIZE" "sw_file w = hd @ entries_bytes us"
    using assms(1) by (auto simp: segment_holds_def)
  define c where "c = crc (take (SEGMENT_HEADER_SIZE - 4) (segment_header_bytes pad (sw_header w)))"
  define h where "h = (sw_header w) \<lparr> sh_checksum := c \<rparr>"
  let ?bytes = "segment_header_bytes pad h @ entries_bytes us"
  have lh: "length (segment_header_bytes pad h) = SEGMENT_HEADER_SIZE"
    using assms(2) by (simp add: length_segment_header_bytes)
  have info: "header_info h = segment_stats s us" "sh_magic h = MAGIC" "sh_version h = VERSION"
    using assms(1) by (simp_all add: segment_holds_def header_info_def h_def)
  have fin: "segment_finalize crc pad True w = (Ok (segment_stats s us), ?bytes)"
    using hd lh info
    by (simp add: segment_finalize_def write_header_def Let_def c_def [symmetric] h_def [symmetric]
        file_write_def write_at_def)
  have "segment_open True ?bytes = Ok \<lparr> sg_file = ?bytes, sg_header = h \<rparr>"
    using lh info by (simp add: segment_open_def segment_header_codec segment_header_validate_def)
  then show thesis using that [OF fin] lh info(1) by (auto simp: segment_reader_info_def)
qed

lemma entries_bytes_at:
  assumes "length hb = k" "\<forall>e \<in> set (xs @ (pad, u) # ys). padded_ok e"
  shows "entry_at (hb @ entries_bytes (xs @ (pad, u) # ys)) (k + entries_size xs) = Some (entry_of u)"
    and "slice (hb @ entries_bytes (xs @ (pad, u) # ys)) (k + entries_size xs + ENTRY_SIZE)
        (k + entries_size xs + ENTRY_SIZE + length (up_data u)) = Some (up_data u)"
  using entry_at_update [of pad u "k + entries_size xs" "hb @ entries_bytes xs" "entries_bytes ys"]
    payload_at_update [of pad u "k + entries_size xs" "hb @ entries_bytes xs" "entries_bytes ys"] assms
  by (simp_all add: padded_ok_def length_entries_bytes)


section \<open>Properties\<close>

text \<open>C12: a segment that is created, filled with entries and finalized reopens with the
  statistics of exactly these entries (start slot, highest slot, number and bytes of
  entries), and every entry lies in the file at the offset its \<open>append\<close> returned.\<close>

theorem segment_roundtrip:
  assumes "segment_create crc pad True True start_slot = Ok w" "length pad = 4"
    and "\<forall>e \<in> set (xs @ (pad', u) # ys). padded_ok e"
    and "SEGMENT_HEADER_SIZE + entries_size xs < 2 ^ 64"
    and "fst (segment_append_entry True (pad', u) (fold segment_extend xs w)) = Ok offset"
    and "segment_finalize crc pad True (fold segment_extend (xs @ (pad', u) # ys) w) = (Ok info, bytes)"
  shows "info = segment_stats start_slot (xs @ (pad', u) # ys) \<and>
    (\<exists>r. segment_open True bytes = Ok r \<and> segment_reader_info r = info) \<and>
    entry_at bytes (unat offset) = Some (entry_of u) \<and>
    slice bytes (unat offset + ENTRY_SIZE) (unat offset + ENTRY_SIZE + length (up_data u)) = Some (up_data u)"
proof -
  let ?us = "xs @ (pad', u) # ys"
  have c: "segment_holds start_slot w []" using assms(1,2) by (rule segment_create_holds)
  have h: "segment_holds start_slot (fold segment_extend ?us w) ?us"
    using segment_extend_all [OF c assms(3)] by simp
  have hx: "segment_holds start_slot (fold segment_extend xs w) xs"
    using segment_extend_all [OF c, of xs] assms(3) by simp
  have "offset = of_nat (SEGMENT_HEADER_SIZE + entries_size xs)"
    using segment_append_Ok [OF hx, of pad' u] assms(3,5) by auto
  then have off: "unat offset = SEGMENT_HEADER_SIZE + entries_size xs"
    using unat_eq_of_nat [OF assms(4)] by blast
  obtain bs where bs: "segment_finalize crc pad True (fold segment_extend ?us w) = (Ok (segment_stats start_slot ?us), bs)"
    "\<exists>hb. length hb = SEGMENT_HEADER_SIZE \<and> bs = hb @ entries_bytes ?us"
    "\<exists>r. segment_open True bs = Ok r \<and> segment_reader_info r = segment_stats start_slot ?us"
    using segment_finalize_open [OF h assms(2)] by blast
  then have eq: "info = segment_stats start_slot ?us" "bs = bytes" using assms(6) by auto
  obtain hb where hb: "length hb = SEGMENT_HEADER_SIZE" "bytes = hb @ entries_bytes ?us"
    using bs(2) eq(2) by blast
  show ?thesis
    using bs(3) entries_bytes_at [OF hb(1) assms(3)] by (simp add: eq(1) eq(2) [symmetric] off hb(2) [folded eq(2)])
qed

theorem segment_roundtrip_witness:
  "\<exists>w bytes. segment_create (\<lambda>_. 0) [0, 0, 0, 0] True True 9 = Ok w \<and>
     entry_at bytes 48 = Some (entry_of \<lparr> up_slot = 9, up_write_version = 1, up_pubkey = replicate 32 4, up_data = [7] \<rparr>)"
proof -
  let ?u = "\<lparr> up_slot = 9, up_write_version = 1, up_pubkey = replicate 32 4, up_data = [7] \<rparr> :: update"
  let ?e = "([0, 0, 0, 0], ?u)"
  obtain w where w: "segment_create (\<lambda>_. 0) [0, 0, 0, 0] True True 9 = Ok w"
    by (simp add: segment_create_def write_header_def Let_def)
  have ok: "padded_ok ?e" by (simp add: padded_ok_def update_fits_def ENTRY_SIZE_def)
  have h: "segment_holds 9 w []" using segment_create_holds [OF w] by simp
  obtain bytes where f: "segment_finalize (\<lambda>_. 0) [0, 0, 0, 0] True (fold segment_extend [?e] w)
      = (Ok (segment_stats 9 [?e]), bytes)"
    using segment_finalize_open [of 9 "fold segment_extend [?e] w" "[?e]" "[0, 0, 0, 0]" "\<lambda>_. 0"]
      segment_extend_holds [OF h ok] by auto
  have o: "fst (segment_append_entry True ?e (fold segment_extend [] w)) = Ok 48"
    using segment_append_Ok [OF h ok] by (simp add: SEGMENT_HEADER_SIZE_def)
  show ?thesis
    using segment_roundtrip [OF w, of "[]" "[0, 0, 0, 0]" ?u "[]" 48] ok w o f
    by (auto simp: SEGMENT_HEADER_SIZE_def)
qed

text \<open>The reader never checks the header checksum: a file opens exactly when it has a
  whole header with the right magic and version, whatever its checksum field holds, and
  \<open>ChecksumMismatch\<close> is never reported.\<close>

theorem segment_open_ignores_checksum:
  "(\<exists>r. segment_open True bytes = Ok r) =
     (SEGMENT_HEADER_SIZE \<le> length bytes \<and>
      sh_magic (segment_header_of_bytes bytes) = MAGIC \<and> sh_version (segment_header_of_bytes bytes) = VERSION) \<and>
   segment_open opened bytes \<noteq> Err ChecksumMismatch"
  by (auto simp: segment_open_def segment_header_validate_def segment_header_of_bytes_def Let_def
      SEGMENT_HEADER_SIZE_def drop_take min_def split: if_splits)

end
