(* ===== verification/Delta_Plane.thy ===== *)
theory Delta_Plane
  imports Location Ring_Buffer Segment
begin

text \<open>
  The delta plane (crate \<open>delta-plane\<close>): the locator of delta segments and of the latest
  delta location of each pubkey, the update reducer, the compactor, and the consumer that
  drains the ring buffer into segments.

  Pubkeys are a linearly ordered type (\<open>BTreeMap\<close> keys); \<open>Pubkey::try_from\<close> and the clock
  are arguments.  The list order of a \<open>HashMap\<close> stands for its iteration order.  The files
  \<open>segment_<slot>.bin\<close> are a map from slots to contents, so that a segment that reuses a
  name truncates the older one, as \<open>OpenOptions::truncate\<close> does.
\<close>

section \<open>\<open>DeltaLocator\<close>\<close>

record delta_segment_meta =
  dm_path_slot :: u64
  dm_start_slot :: u64
  dm_end_slot :: u64
  dm_entry_count :: u64
  dm_data_size :: u64
  dm_created_at :: nat

record 'pk delta_locator =
  dl_segments_by_slot :: "(u64, delta_segment_meta) btree"
  dl_latest_locations :: "('pk, account_location) btree"
  dl_total_entries :: u64

definition delta_locator_new :: "'pk delta_locator" where
  "delta_locator_new = \<lparr> dl_segments_by_slot = [], dl_latest_locations = [], dl_total_entries = 0 \<rparr>"

definition register_segment :: "delta_segment_meta \<Rightarrow> 'pk delta_locator \<Rightarrow> 'pk delta_locator" where
  "register_segment meta l =
     l \<lparr> dl_segments_by_slot := bt_insert (dm_start_slot meta) meta (dl_segments_by_slot l) \<rparr>"

definition register_update :: "'pk::linorder \<Rightarrow> account_location \<Rightarrow> 'pk delta_locator \<Rightarrow> 'pk delta_locator" where
  "register_update pubkey location l =
     l \<lparr> dl_latest_locations := bt_insert pubkey location (dl_latest_locations l),
         dl_total_entries := dl_total_entries l + 1 \<rparr>"

definition get_latest :: "'pk delta_locator \<Rightarrow> 'pk \<Rightarrow> account_location option" where
  "get_latest l pubkey = bt_get (dl_latest_locations l) pubkey"

text \<open>\<open>BTreeMap::range(a..=b)\<close> panics when \<open>a > b\<close>.\<close>

definition get_segments_for_range :: "'pk delta_locator \<Rightarrow> u64 \<Rightarrow> u64 \<Rightarrow> (unit, delta_segment_meta list) result" where
  "get_segments_for_range l start_slot end_slot =
     (if start_slot > end_slot then Panic
      else Ok (map snd (filter (\<lambda>p. start_slot \<le> fst p \<and> fst p \<le> end_slot) (dl_segments_by_slot l))))"

definition get_latest_slot :: "'pk delta_locator \<Rightarrow> u64 option" where
  "get_latest_slot l =
     (if dl_segments_by_slot l = [] then None else Some (fst (last (dl_segments_by_slot l))))"

definition delta_entry_count :: "'pk delta_locator \<Rightarrow> u64" where
  "delta_entry_count l = dl_total_entries l"

definition get_all_segments :: "'pk delta_locator \<Rightarrow> delta_segment_meta list" where
  "get_all_segments l = bt_vals (dl_segments_by_slot l)"

definition remove_segments :: "u64 list \<Rightarrow> 'pk delta_locator \<Rightarrow> 'pk delta_locator" where
  "remove_segments slots l = l \<lparr> dl_segments_by_slot := fold bt_remove slots (dl_segments_by_slot l) \<rparr>"

definition delta_locator_clear :: "'pk delta_locator \<Rightarrow> 'pk delta_locator" where
  "delta_locator_clear l =
     l \<lparr> dl_segments_by_slot := [], dl_latest_locations := [], dl_total_entries := 0 \<rparr>"


section \<open>\<open>UpdateReducer\<close>\<close>

record pending_update =
  pu_slot :: u64
  pu_write_version :: u64
  pu_location :: account_location
  pu_timestamp :: nat

record 'pk update_reducer =
  ur_pending_updates :: "('pk, pending_update) hmap"
  ur_flushed_count :: u64
  ur_dedup_count :: u64
  ur_flush_threshold :: nat

definition update_reducer_with_threshold :: "nat \<Rightarrow> 'pk update_reducer" where
  "update_reducer_with_threshold flush_threshold =
     \<lparr> ur_pending_updates = [], ur_flushed_count = 0, ur_dedup_count = 0, ur_flush_threshold = flush_threshold \<rparr>"

definition update_reducer_new :: "'pk update_reducer" where
  "update_reducer_new = update_reducer_with_threshold 10000"

definition add_update ::
  "nat \<Rightarrow> 'pk \<Rightarrow> u64 \<Rightarrow> u64 \<Rightarrow> account_location \<Rightarrow> 'pk update_reducer \<Rightarrow> bool \<times> 'pk update_reducer" where
  "add_update now pubkey slot write_version location r =
     (let is_dedup = (hm_get (ur_pending_updates r) pubkey \<noteq> None);
          r1 = (if is_dedup then r \<lparr> ur_dedup_count := ur_dedup_count r + 1 \<rparr> else r);
          should_update = (case hm_get (ur_pending_updates r1) pubkey of
             Some existing \<Rightarrow> write_version > pu_write_version existing | None \<Rightarrow> True);
          r2 = (if should_update
                then r1 \<lparr> ur_pending_updates := hm_insert pubkey
                       \<lparr> pu_slot = slot, pu_write_version = write_version, pu_location = location,
                         pu_timestamp = now \<rparr> (ur_pending_updates r1) \<rparr>
                else r1)
      in (is_dedup, r2))"

definition get_pending_updates :: "'pk update_reducer \<Rightarrow> ('pk \<times> pending_update) list" where
  "get_pending_updates r = ur_pending_updates r"

definition should_flush :: "'pk update_reducer \<Rightarrow> bool" where
  "should_flush r \<longleftrightarrow> length (ur_pending_updates r) \<ge> ur_flush_threshold r"

definition reducer_flush :: "'pk update_reducer \<Rightarrow> ('pk \<times> pending_update) list \<times> 'pk update_reducer" where
  "reducer_flush r =
     (let updates = ur_pending_updates r in
      (updates, r \<lparr> ur_pending_updates := [], ur_flushed_count := ur_flushed_count r + of_nat (length updates) \<rparr>))"

record reducer_stats =
  rd_pending_count :: u64
  rd_flushed_count :: u64
  rd_dedup_count :: u64

definition reducer_stats_of :: "'pk update_reducer \<Rightarrow> reducer_stats" where
  "reducer_stats_of r =
     \<lparr> rd_pending_count = of_nat (length (ur_pending_updates r)), rd_flushed_count = ur_flushed_count r,
       rd_dedup_count = ur_dedup_count r \<rparr>"

definition pending_count :: "'pk update_reducer \<Rightarrow> nat" where
  "pending_count r = length (ur_pending_updates r)"


section \<open>\<open>Compactor\<close>\<close>

record compactor =
  cp_compaction_count :: u64
  cp_total_merged :: u64
  cp_last_compaction :: "nat option"
  cp_min_segments :: nat
  cp_min_entries :: u64

definition compactor_with_thresholds :: "nat \<Rightarrow> u64 \<Rightarrow> compactor" where
  "compactor_with_thresholds min_segments min_entries =
     \<lparr> cp_compaction_count = 0, cp_total_merged = 0, cp_last_compaction = None,
       cp_min_segments = min_segments, cp_min_entries = min_entries \<rparr>"

definition compactor_new :: compactor where
  "compactor_new = compactor_with_thresholds 10 100000"

definition should_compact :: "compactor \<Rightarrow> 'pk delta_locator \<Rightarrow> bool" where
  "should_compact c l =
     (let segments = get_all_segments l; total_entries = sum_list (map dm_entry_count segments)
      in length segments \<ge> cp_min_segments c \<or> total_entries \<ge> cp_min_entries c)"

record compaction_result =
  cr_segments_compacted :: u64
  cr_accounts_merged :: u64
  cr_new_base_locations :: u64
  cr_bytes_freed :: u64

definition compacted_location :: "account_location \<Rightarrow> account_location" where
  "compacted_location d =
     \<lparr> loc_file_id = 0, loc_offset = 0, loc_stored_size = loc_stored_size d,
       loc_data_offset = loc_data_offset d, loc_data_len = loc_data_len d, loc_slot = loc_slot d,
       loc_write_version = loc_write_version d, loc_storage_type = Compacted \<rparr>"

text \<open>\<open>now1\<close> and \<open>now2\<close> are the two readings of the clock.\<close>

definition compact ::
  "nat \<Rightarrow> nat \<Rightarrow> compactor \<Rightarrow> 'pk delta_locator \<Rightarrow> compaction_result \<times> compactor \<times> 'pk delta_locator" where
  "compact now1 now2 c l =
     (let segments = get_all_segments l in
      if segments = []
      then (\<lparr> cr_segments_compacted = 0, cr_accounts_merged = 0, cr_new_base_locations = 0, cr_bytes_freed = 0 \<rparr>, c, l)
      else
        let latest_deltas = ([] :: ('pk, account_location) hmap);
            new_locations = map (\<lambda>(pubkey, delta_location). (0 :: nat, compacted_location delta_location))
              (filter (\<lambda>(pubkey, _). hm_get latest_deltas pubkey \<noteq> None) latest_deltas);
            n = of_nat (length new_locations);
            c1 = c \<lparr> cp_compaction_count := cp_compaction_count c + 1,
                     cp_total_merged := cp_total_merged c + n, cp_last_compaction := Some now1 \<rparr>;
            l1 = remove_segments (map dm_start_slot segments) l;
            c2 = c1 \<lparr> cp_compaction_count := cp_compaction_count c1 + 1,
                      cp_total_merged := cp_total_merged c1 + n, cp_last_compaction := Some now2 \<rparr>
        in (\<lparr> cr_segments_compacted = of_nat (length segments), cr_accounts_merged = n,
              cr_new_base_locations = n, cr_bytes_freed = 0 \<rparr>, c2, l1))"


section \<open>\<open>DeltaConsumer\<close>\<close>

record 'pk delta_consumer =
  dc_flush_batch_size :: nat
  dc_running :: bool
  dc_current_segment :: "segment_writer option"
  dc_current_segment_start_slot :: "u64 option"
  dc_current_segment_entries :: u64
  dc_total_processed :: u64
  dc_total_errors :: u64
  dc_delta_locator :: "'pk delta_locator"
  dc_update_reducer :: "'pk update_reducer"
  dc_files :: "(u64, byte list) hmap"

datatype delta_consumer_error =
    ConsumerIo
  | RingBufferError ring_buffer_error
  | SegmentWriterError segment_error
  | AlreadyRunning
  | InvalidPubkey

text \<open>What the consumer takes from outside: CRC, padding bytes, clock, \<open>Pubkey::try_from\<close>,
  and whether file operations succeed.\<close>

record 'pk consumer_env =
  ev_crc :: "byte list \<Rightarrow> u32"
  ev_pad :: "byte list"
  ev_now :: nat
  ev_try_from :: "byte list \<Rightarrow> 'pk option"
  ev_io :: bool

definition delta_consumer_new :: "nat \<Rightarrow> 'pk delta_locator \<Rightarrow> 'pk delta_consumer" where
  "delta_consumer_new flush_batch_size l =
     \<lparr> dc_flush_batch_size = flush_batch_size, dc_running = False, dc_current_segment = None,
       dc_current_segment_start_slot = None, dc_current_segment_entries = 0, dc_total_processed = 0,
       dc_total_errors = 0, dc_delta_locator = l, dc_update_reducer = update_reducer_new, dc_files = [] \<rparr>"

definition delta_consumer_start ::
  "bool \<Rightarrow> 'pk delta_consumer \<Rightarrow> (delta_consumer_error, unit) result \<times> 'pk delta_consumer" where
  "delta_consumer_start mkdir_ok c =
     (if dc_running c then (Err AlreadyRunning, c)
      else let c1 = c \<lparr> dc_running := True \<rparr>
           in if mkdir_ok then (Ok (), c1) else (Err ConsumerIo, c1))"

definition store_file :: "u64 option \<Rightarrow> byte list \<Rightarrow> 'pk delta_consumer \<Rightarrow> 'pk delta_consumer" where
  "store_file slot bytes c =
     (case slot of None \<Rightarrow> c | Some s \<Rightarrow> c \<lparr> dc_files := hm_insert s bytes (dc_files c) \<rparr>)"

definition delta_consumer_stop :: "'pk consumer_env \<Rightarrow> 'pk delta_consumer \<Rightarrow> 'pk delta_consumer" where
  "delta_consumer_stop ev c =
     (let c1 = c \<lparr> dc_running := False \<rparr> in
      case dc_current_segment c1 of
        None \<Rightarrow> c1
      | Some segment \<Rightarrow>
          let (r, bytes) = segment_finalize (ev_crc ev) (ev_pad ev) (ev_io ev) segment
          in store_file (dc_current_segment_start_slot c1) bytes (c1 \<lparr> dc_current_segment := None \<rparr>))"

definition write_to_segment ::
  "'pk consumer_env \<Rightarrow> u64 \<Rightarrow> u64 \<Rightarrow> byte list \<Rightarrow> byte list \<Rightarrow> 'pk delta_consumer \<Rightarrow>
     (delta_consumer_error, unit) result \<times> 'pk delta_consumer" where
  "write_to_segment ev slot write_version pubkey data c =
     (let created =
        (case dc_current_segment c of
           Some _ \<Rightarrow> Ok c
         | None \<Rightarrow>
             (case segment_create (ev_crc ev) (ev_pad ev) (ev_io ev) (ev_io ev) slot of
                Err e \<Rightarrow> Err (SegmentWriterError e)
              | Panic \<Rightarrow> Panic
              | Ok w \<Rightarrow> Ok (store_file (Some slot) (sw_file w)
                  (c \<lparr> dc_current_segment := Some w, dc_current_segment_start_slot := Some slot,
                       dc_current_segment_entries := 0 \<rparr>))))
      in case created of
           Err e \<Rightarrow> (Err e, c)
         | Panic \<Rightarrow> (Panic, c)
         | Ok c1 \<Rightarrow>
             (case dc_current_segment c1 of
                None \<Rightarrow> (Ok (), c1)
              | Some segment \<Rightarrow>
                  (case segment_append (ev_pad ev) (ev_io ev) slot write_version pubkey data segment of
                     (Err e, w) \<Rightarrow> (Err (SegmentWriterError e), c1 \<lparr> dc_current_segment := Some w \<rparr>)
                   | (Panic, w) \<Rightarrow> (Panic, c1)
                   | (Ok _, w) \<Rightarrow>
                       (Ok (), store_file (dc_current_segment_start_slot c1) (sw_file w)
                          (c1 \<lparr> dc_current_segment := Some w,
                                dc_current_segment_entries := dc_current_segment_entries c1 + 1 \<rparr>)))))"

definition meta_of :: "nat \<Rightarrow> u64 option \<Rightarrow> segment_info \<Rightarrow> delta_segment_meta" where
  "meta_of now start info =
     \<lparr> dm_path_slot = (case start of Some s \<Rightarrow> s | None \<Rightarrow> 0), dm_start_slot = si_start_slot info,
       dm_end_slot = si_end_slot info, dm_entry_count = si_entry_count info,
       dm_data_size = si_data_size info, dm_created_at = now \<rparr>"

definition maybe_flush_segment ::
  "'pk consumer_env \<Rightarrow> 'pk delta_consumer \<Rightarrow> (delta_consumer_error, unit) result \<times> 'pk delta_consumer" where
  "maybe_flush_segment ev c =
     (if dc_current_segment_entries c \<ge> of_nat (dc_flush_batch_size c)
      then case dc_current_segment c of
          None \<Rightarrow> (Ok (), c)
        | Some segment \<Rightarrow>
            let c1 = c \<lparr> dc_current_segment := None \<rparr>;
                (r, bytes) = segment_finalize (ev_crc ev) (ev_pad ev) (ev_io ev) segment;
                c2 = store_file (dc_current_segment_start_slot c1) bytes c1
            in case r of
                 Err e \<Rightarrow> (Err (SegmentWriterError e), c2)
               | Panic \<Rightarrow> (Panic, c2)
               | Ok info \<Rightarrow>
                   (Ok (), c2 \<lparr> dc_delta_locator := register_segment
                                   (meta_of (ev_now ev) (dc_current_segment_start_slot c2) info) (dc_delta_locator c2),
                                dc_current_segment := None, dc_current_segment_start_slot := None,
                                dc_current_segment_entries := 0 \<rparr>)
      else (Ok (), c))"

definition view_location :: "ring_entry_view \<Rightarrow> account_location" where
  "view_location entry =
     \<lparr> loc_file_id = 0, loc_offset = 0, loc_stored_size = of_nat (length (rv_data entry)),
       loc_data_offset = 0, loc_data_len = of_nat (length (rv_data entry)), loc_slot = rv_slot entry,
       loc_write_version = rv_write_version entry, loc_storage_type = Delta \<rparr>"

text \<open>
  The \<open>while let\<close> loop of \<open>process_updates\<close>, with fuel: \<open>None\<close> when the fuel runs out.  One
  unit per entry of the ring and one for the final empty read suffice (shown below).
\<close>

fun consume_loop ::
  "nat \<Rightarrow> 'pk consumer_env \<Rightarrow> ring_mem \<Rightarrow> ring_reader \<Rightarrow> u64 \<Rightarrow> 'pk delta_consumer \<Rightarrow>
     ((delta_consumer_error, u64) result \<times> 'pk delta_consumer) option" where
  "consume_loop 0 ev m rd processed c = None"
| "consume_loop (Suc fuel) ev m rd processed c =
     (case ring_read_next m rd of
        (Err e, _) \<Rightarrow> Some (Err (RingBufferError e), c)
      | (Panic, _) \<Rightarrow> Some (Panic, c)
      | (Ok None, _) \<Rightarrow> Some (Ok processed, c)
      | (Ok (Some entry), rd') \<Rightarrow>
          (case ev_try_from ev (rv_pubkey entry) of
             None \<Rightarrow> Some (Err InvalidPubkey, c)
           | Some pubkey \<Rightarrow>
               let c1 = c \<lparr> dc_update_reducer := snd (add_update (ev_now ev) pubkey (rv_slot entry)
                                (rv_write_version entry) (view_location entry) (dc_update_reducer c)) \<rparr>
               in (case write_to_segment ev (rv_slot entry) (rv_write_version entry) (rv_pubkey entry)
                          (rv_data entry) c1 of
                     (Err e, c2) \<Rightarrow> Some (Err e, c2)
                   | (Panic, c2) \<Rightarrow> Some (Panic, c2)
                   | (Ok _, c2) \<Rightarrow> consume_loop fuel ev m rd' (processed + 1) c2)))"

definition process_updates ::
  "nat \<Rightarrow> 'pk consumer_env \<Rightarrow> bool \<Rightarrow> nat \<Rightarrow> ring_mem \<Rightarrow> 'pk delta_consumer \<Rightarrow>
     ((delta_consumer_error, u64) result \<times> 'pk delta_consumer) option" where
  "process_updates fuel ev opened ring_len m c =
     (case ring_reader_open opened ring_len of
        Err e \<Rightarrow> Some (Err (RingBufferError e), c)
      | Panic \<Rightarrow> Some (Panic, c)
      | Ok ring_reader \<Rightarrow>
          (case consume_loop fuel ev m ring_reader 0 c of
             None \<Rightarrow> None
           | Some (Err e, c1) \<Rightarrow> Some (Err e, c1)
           | Some (Panic, c1) \<Rightarrow> Some (Panic, c1)
           | Some (Ok processed, c1) \<Rightarrow>
               (let c2 = c1 \<lparr> dc_total_processed := dc_total_processed c1 + processed \<rparr>
                in case maybe_flush_segment ev c2 of
                     (Ok _, c3) \<Rightarrow> Some (Ok processed, c3)
                   | (Err e, c3) \<Rightarrow> Some (Err e, c3)
                   | (Panic, c3) \<Rightarrow> Some (Panic, c3))))"

text \<open>One iteration of the loop in \<open>run\<close>.\<close>

definition run_iteration ::
  "nat \<Rightarrow> 'pk consumer_env \<Rightarrow> bool \<Rightarrow> nat \<Rightarrow> ring_mem \<Rightarrow> 'pk delta_consumer \<Rightarrow>
     (delta_consumer_error, 'pk delta_consumer) result option" where
  "run_iteration fuel ev opened ring_len m c =
     (case process_updates fuel ev opened ring_len m c of
        None \<Rightarrow> None
      | Some (Ok n, c1) \<Rightarrow> Some (Ok c1)
      | Some (Err e, c1) \<Rightarrow> Some (Ok (c1 \<lparr> dc_total_errors := dc_total_errors c1 + 1 \<rparr>))
      | Some (Panic, c1) \<Rightarrow> Some Panic)"

record delta_consumer_stats =
  ds_running :: bool
  ds_total_processed :: u64
  ds_total_errors :: u64
  ds_current_segment_entries :: u64
  ds_pending_updates :: nat

definition delta_consumer_stats_of :: "'pk delta_consumer \<Rightarrow> delta_consumer_stats" where
  "delta_consumer_stats_of c =
     \<lparr> ds_running = dc_running c, ds_total_processed = dc_total_processed c,
       ds_total_errors = dc_total_errors c, ds_current_segment_entries = dc_current_segment_entries c,
       ds_pending_updates = pending_count (dc_update_reducer c) \<rparr>"


section \<open>Lemmas on the locator and the compactor\<close>

definition dl_wf :: "'pk::linorder delta_locator \<Rightarrow> bool" where
  "dl_wf l \<longleftrightarrow> bt_invar (dl_segments_by_slot l) \<and> bt_invar (dl_latest_locations l) \<and>
     (\<forall>(slot, m) \<in> set (dl_segments_by_slot l). dm_start_slot m = slot)"

lemma dl_wf_new: "dl_wf delta_locator_new"
  by (simp add: dl_wf_def delta_locator_new_def bt_invar_def)

lemma dl_wf_register_segment: "dl_wf l \<Longrightarrow> dl_wf (register_segment m l)"
  using set_bt_insert [of "dm_start_slot m" m "dl_segments_by_slot l"]
  by (fastforce simp: dl_wf_def register_segment_def bt.invar_ins)

lemma dl_wf_register_update: "dl_wf l \<Longrightarrow> dl_wf (register_update pk loc l)"
  by (simp add: dl_wf_def register_update_def bt.invar_ins)

lemma dl_wf_register_segments: "dl_wf l \<Longrightarrow> dl_wf (fold register_segment ms l)"
  by (induction ms arbitrary: l) (auto simp: dl_wf_register_segment)

lemma register_updates_eq:
  "fold (\<lambda>(k, v). register_update k v) us l =
     l \<lparr> dl_latest_locations := fold (\<lambda>(k, v). bt_insert k v) us (dl_latest_locations l),
         dl_total_entries := dl_total_entries l + of_nat (length us) \<rparr>"
  by (induction us arbitrary: l) (auto simp: register_update_def algebra_simps)

lemma register_segments_eq:
  "dl_segments_by_slot (fold register_segment ms l) =
     fold (\<lambda>(k, v). bt_insert k v) (map (\<lambda>m. (dm_start_slot m, m)) ms) (dl_segments_by_slot l)"
  by (induction ms arbitrary: l) (auto simp: register_segment_def)

lemma range_segments:
  assumes "dl_wf l" "a \<le> b"
  obtains ms where "get_segments_for_range l a b = Ok ms" "sorted_wrt (<) (map dm_start_slot ms)"
    "set ms = {m. bt_get (dl_segments_by_slot l) (dm_start_slot m) = Some m \<and> a \<le> dm_start_slot m \<and> dm_start_slot m \<le> b}"
proof -
  let ?segs = "dl_segments_by_slot l"
  let ?f = "filter (\<lambda>p. a \<le> fst p \<and> fst p \<le> b) ?segs"
  have wf: "bt_invar ?segs" "\<And>slot m. (slot, m) \<in> set ?segs \<Longrightarrow> dm_start_slot m = slot"
    using assms(1) by (auto simp: dl_wf_def)
  have keys: "map dm_start_slot (map snd ?f) = map fst ?f"
    using wf(2) by (auto intro!: map_cong)
  have "sorted_wrt (<) (map fst ?f)"
    using wf(1) unfolding bt_invar_def sorted_wrt_map by (rule sorted_wrt_filter)
  then have "sorted_wrt (<) (map dm_start_slot (map snd ?f))" by (simp only: keys)
  moreover have "set (map snd ?f) = {m. bt_get ?segs (dm_start_slot m) = Some m \<and> a \<le> dm_start_slot m \<and> dm_start_slot m \<le> b}"
    unfolding bt_get_eq_Some [OF wf(1)] set_map set_filter
  proof (intro set_eqI iffI)
    fix m assume "m \<in> {m. (dm_start_slot m, m) \<in> set ?segs \<and> a \<le> dm_start_slot m \<and> dm_start_slot m \<le> b}"
    then show "m \<in> snd ` {p \<in> set ?segs. a \<le> fst p \<and> fst p \<le> b}"
      by (intro image_eqI [of _ _ "(dm_start_slot m, m)"]) auto
  qed (auto simp: wf(2))
  moreover have "get_segments_for_range l a b = Ok (map snd ?f)"
    using assms(2) by (simp add: get_segments_for_range_def)
  ultimately show thesis by (rule that [rotated])
qed

lemma bt_remove_all: "fold bt_remove (map fst m) m = []"
proof -
  have "fold bt_remove ks m = filter (\<lambda>p. fst p \<notin> set ks) m" for ks and m :: "('a, 'b) btree"
    by (induction ks arbitrary: m) (auto simp: bt_remove_def intro: filter_cong)
  then show ?thesis by (simp add: filter_empty_conv)
qed

lemma compact_clears:
  assumes "dl_wf l" "get_all_segments l \<noteq> []"
  shows "compact now1 now2 c l =
    (\<lparr> cr_segments_compacted = of_nat (length (get_all_segments l)), cr_accounts_merged = 0,
       cr_new_base_locations = 0, cr_bytes_freed = 0 \<rparr>,
     c \<lparr> cp_compaction_count := cp_compaction_count c + 2, cp_last_compaction := Some now2 \<rparr>,
     l \<lparr> dl_segments_by_slot := [] \<rparr>)"
proof -
  have "map dm_start_slot (get_all_segments l) = map fst (dl_segments_by_slot l)"
    using assms(1) by (auto simp: get_all_segments_def bt_vals_def dl_wf_def intro!: map_cong)
  then have "remove_segments (map dm_start_slot (get_all_segments l)) l = l \<lparr> dl_segments_by_slot := [] \<rparr>"
    by (simp add: remove_segments_def bt_remove_all)
  then show ?thesis using assms(2) by (simp add: compact_def Let_def add.assoc)
qed


section \<open>Lemmas on the reducer\<close>

type_synonym 'pk raw_update = "'pk \<times> u64 \<times> u64 \<times> account_location"

definition add_raw :: "nat \<Rightarrow> 'pk raw_update \<Rightarrow> 'pk update_reducer \<Rightarrow> 'pk update_reducer" where
  "add_raw now u r = (case u of (pk, slot, v, loc) \<Rightarrow> snd (add_update now pk slot v loc r))"

definition reducer_holds :: "'pk update_reducer \<Rightarrow> 'pk raw_update list \<Rightarrow> bool" where
  "reducer_holds r us \<longleftrightarrow>
     hm_invar (ur_pending_updates r) \<and>
     (\<forall>pk. hm_get (ur_pending_updates r) pk = None \<longleftrightarrow> pk \<notin> fst ` set us) \<and>
     (\<forall>pk p. hm_get (ur_pending_updates r) pk = Some p \<longrightarrow>
        (pk, pu_slot p, pu_write_version p, pu_location p) \<in> set us \<and>
        (\<forall>slot v loc. (pk, slot, v, loc) \<in> set us \<longrightarrow> v \<le> pu_write_version p)) \<and>
     of_nat (length (ur_pending_updates r)) + ur_dedup_count r = of_nat (length us)"

lemma add_update_pending:
  assumes "hm_invar (ur_pending_updates r)"
  shows "hm_get (ur_pending_updates (snd (add_update now pk slot v loc r))) k =
    (if k = pk \<and> (\<forall>e. hm_get (ur_pending_updates r) pk = Some e \<longrightarrow> v > pu_write_version e)
     then Some \<lparr> pu_slot = slot, pu_write_version = v, pu_location = loc, pu_timestamp = now \<rparr>
     else hm_get (ur_pending_updates r) k)"
  using assms by (auto simp: add_update_def Let_def hm.get_ins split: option.splits)

lemma add_update_counts:
  "hm_invar (ur_pending_updates r) \<Longrightarrow> hm_invar (ur_pending_updates (snd (add_update now pk slot v loc r)))"
  "of_nat (length (ur_pending_updates (snd (add_update now pk slot v loc r)))) + ur_dedup_count (snd (add_update now pk slot v loc r))
     = of_nat (length (ur_pending_updates r)) + ur_dedup_count r + (1 :: u64)"
  by (auto simp: add_update_def Let_def hm.invar_ins length_hm_insert split: option.splits)

lemma reducer_holds_add:
  assumes "reducer_holds r us"
  shows "reducer_holds (add_raw now (pk, slot, v, loc) r) (us @ [(pk, slot, v, loc)])"
proof -
  have inv: "hm_invar (ur_pending_updates r)" using assms by (simp add: reducer_holds_def)
  let ?r = "snd (add_update now pk slot v loc r)"
  have "hm_invar (ur_pending_updates ?r)" using add_update_counts(1) [OF inv] .
  moreover have "of_nat (length (ur_pending_updates ?r)) + ur_dedup_count ?r = of_nat (length (us @ [(pk, slot, v, loc)]))"
    using assms by (simp add: add_update_counts(2) reducer_holds_def)
  moreover have "hm_get (ur_pending_updates ?r) k = None \<longleftrightarrow> k \<notin> fst ` set (us @ [(pk, slot, v, loc)])" for k
  proof -
    have "hm_get (ur_pending_updates r) k = None \<longleftrightarrow> k \<notin> fst ` set us"
      using assms by (simp add: reducer_holds_def)
    then show ?thesis by (cases "k = pk") (auto simp: add_update_pending [OF inv])
  qed
  moreover have "(k, pu_slot p, pu_write_version p, pu_location p) \<in> set (us @ [(pk, slot, v, loc)]) \<and>
      (\<forall>s w l. (k, s, w, l) \<in> set (us @ [(pk, slot, v, loc)]) \<longrightarrow> w \<le> pu_write_version p)"
    if g: "hm_get (ur_pending_updates ?r) k = Some p" for k p
  proof (cases "hm_get (ur_pending_updates r) k")
    case None
    then have "k \<notin> fst ` set us" using assms by (simp add: reducer_holds_def)
    moreover have "k = pk" "p = \<lparr> pu_slot = slot, pu_write_version = v, pu_location = loc, pu_timestamp = now \<rparr>"
      using g None by (auto simp: add_update_pending [OF inv] split: if_splits)
    ultimately show ?thesis by (auto simp: image_iff)
  next
    case (Some e)
    then have e: "(k, pu_slot e, pu_write_version e, pu_location e) \<in> set us"
      "\<forall>s w l. (k, s, w, l) \<in> set us \<longrightarrow> w \<le> pu_write_version e"
      using assms by (auto simp: reducer_holds_def)
    show ?thesis using g Some e
      by (auto simp: add_update_pending [OF inv] not_less split: if_splits) (meson order_less_imp_le order_trans)+
  qed
  ultimately show ?thesis by (simp add: reducer_holds_def add_raw_def)
qed

lemma reducer_holds_all: "reducer_holds (fold (add_raw now) us (update_reducer_with_threshold t)) us"
proof (induction us rule: rev_induct)
  case Nil
  show ?case by (simp add: reducer_holds_def update_reducer_with_threshold_def hm_invar_def hm_get_def)
next
  case (snoc u us)
  then show ?case using reducer_holds_add by (cases u) simp
qed

lemma reducer_holds_pending_count:
  assumes "reducer_holds r us"
  shows "pending_count r = card (fst ` set us)"
proof -
  have "fst ` set (ur_pending_updates r) = fst ` set us"
    using assms hm_get_None [of "ur_pending_updates r"] by (simp add: reducer_holds_def set_eq_iff)
  moreover have "distinct (map fst (ur_pending_updates r))"
    using assms by (simp add: reducer_holds_def hm_invar_def)
  ultimately show ?thesis
    using distinct_card [of "map fst (ur_pending_updates r)"] by (simp add: pending_count_def)
qed


section \<open>Lemmas on the consumer\<close>

text \<open>
  \<open>dc_seg c vs\<close>: the open segment of the consumer holds exactly the entries \<open>vs\<close>, started at
  the slot of the first one, and its file is up to date; no segment is open for \<open>[]\<close>.
\<close>

definition dc_seg :: "'pk delta_consumer \<Rightarrow> padded list \<Rightarrow> bool" where
  "dc_seg c vs \<longleftrightarrow>
     (case dc_current_segment c of
        None \<Rightarrow> vs = []
      | Some w \<Rightarrow> vs \<noteq> [] \<and> segment_holds (up_slot (snd (hd vs))) w vs \<and>
          dc_current_segment_start_slot c = Some (up_slot (snd (hd vs))) \<and>
          dc_current_segment_entries c = of_nat (length vs) \<and>
          hm_get (dc_files c) (up_slot (snd (hd vs))) = Some (sw_file w)) \<and>
     hm_invar (dc_files c)"

definition env_ok :: "'pk consumer_env \<Rightarrow> bool" where
  "env_ok ev \<longleftrightarrow> ev_io ev \<and> length (ev_pad ev) = 4 \<and>
     (\<forall>bs. length bs = 32 \<longrightarrow> ev_try_from ev bs \<noteq> None)"

text \<open>What the segment stage leaves alone.\<close>

definition dc_rest :: "'pk delta_consumer \<Rightarrow> nat \<times> bool \<times> u64 \<times> u64 \<times> 'pk delta_locator \<times> 'pk update_reducer" where
  "dc_rest c = (dc_flush_batch_size c, dc_running c, dc_total_processed c, dc_total_errors c,
                dc_delta_locator c, dc_update_reducer c)"

lemma store_file_simps [simp]:
  "dc_current_segment (store_file s b c) = dc_current_segment c"
  "dc_current_segment_start_slot (store_file s b c) = dc_current_segment_start_slot c"
  "dc_current_segment_entries (store_file s b c) = dc_current_segment_entries c"
  "dc_rest (store_file s b c) = dc_rest c"
  "dc_files (store_file (Some x) b c) = hm_insert x b (dc_files c)"
  "dc_flush_batch_size (store_file s b c) = dc_flush_batch_size c"
  "dc_total_processed (store_file s b c) = dc_total_processed c"
  "dc_running (store_file s b c) = dc_running c"
  "dc_total_errors (store_file s b c) = dc_total_errors c"
  "dc_delta_locator (store_file s b c) = dc_delta_locator c"
  "dc_update_reducer (store_file s b c) = dc_update_reducer c"
  by (simp_all add: store_file_def dc_rest_def split: option.split)

lemma hm_invar_store_file: "hm_invar (dc_files c) \<Longrightarrow> hm_invar (dc_files (store_file s b c))"
  by (simp add: store_file_def hm.invar_ins split: option.split)

lemma write_open_segment:
  assumes "env_ok ev" "update_fits u" "dc_current_segment c = Some w" "segment_holds s w vs"
    "dc_current_segment_start_slot c = Some s"
  shows "write_to_segment ev (up_slot u) (up_write_version u) (up_pubkey u) (up_data u) c =
    (Ok (), store_file (Some s) (sw_file (segment_extend (ev_pad ev, u) w))
       (c \<lparr> dc_current_segment := Some (segment_extend (ev_pad ev, u) w),
            dc_current_segment_entries := dc_current_segment_entries c + 1 \<rparr>))"
proof -
  have "padded_ok (ev_pad ev, u)" using assms(1,2) by (simp add: env_ok_def padded_ok_def)
  from segment_append_Ok [OF assms(4) this] show ?thesis
    using assms(1,3,5)
    by (simp add: write_to_segment_def env_ok_def segment_append_entry_def segment_extend_def)
qed

lemma write_new_segment:
  assumes "env_ok ev" "update_fits u" "dc_current_segment c = None"
  obtains w where "segment_create (ev_crc ev) (ev_pad ev) True True (up_slot u) = Ok w"
    "write_to_segment ev (up_slot u) (up_write_version u) (up_pubkey u) (up_data u) c =
     write_to_segment ev (up_slot u) (up_write_version u) (up_pubkey u) (up_data u)
       (store_file (Some (up_slot u)) (sw_file w)
          (c \<lparr> dc_current_segment := Some w, dc_current_segment_start_slot := Some (up_slot u),
               dc_current_segment_entries := 0 \<rparr>))"
proof -
  obtain w where w: "segment_create (ev_crc ev) (ev_pad ev) True True (up_slot u) = Ok w"
    by (simp add: segment_create_def write_header_def Let_def)
  then show thesis using that [OF w] assms by (simp add: write_to_segment_def env_ok_def)
qed

lemma write_to_segment_seg:
  assumes "env_ok ev" "update_fits u" "dc_seg c vs"
  obtains c' where "write_to_segment ev (up_slot u) (up_write_version u) (up_pubkey u) (up_data u) c = (Ok (), c')"
    "dc_seg c' (vs @ [(ev_pad ev, u)])" "dc_rest c' = dc_rest c"
proof (cases "dc_current_segment c")
  case (Some w)
  then have h: "segment_holds (up_slot (snd (hd vs))) w vs" "vs \<noteq> []"
    "dc_current_segment_start_slot c = Some (up_slot (snd (hd vs)))"
    using assms(3) by (simp_all add: dc_seg_def)
  have "segment_holds (up_slot (snd (hd vs))) (segment_extend (ev_pad ev, u) w) (vs @ [(ev_pad ev, u)])"
    using segment_extend_holds [OF h(1)] assms(1,2) by (simp add: env_ok_def padded_ok_def)
  then show thesis
    using that [OF write_open_segment [OF assms(1,2) Some h(1,3)]] Some assms(3) h(2)
    by (simp add: dc_seg_def dc_rest_def hm.get_ins hm.invar_ins)
next
  case None
  then have vs: "vs = []" using assms(3) by (simp add: dc_seg_def)
  obtain w where w: "segment_create (ev_crc ev) (ev_pad ev) True True (up_slot u) = Ok w"
    "write_to_segment ev (up_slot u) (up_write_version u) (up_pubkey u) (up_data u) c =
     write_to_segment ev (up_slot u) (up_write_version u) (up_pubkey u) (up_data u)
       (store_file (Some (up_slot u)) (sw_file w)
          (c \<lparr> dc_current_segment := Some w, dc_current_segment_start_slot := Some (up_slot u),
               dc_current_segment_entries := 0 \<rparr>))" (is "_ = write_to_segment _ _ _ _ _ ?c")
    using write_new_segment [OF assms(1,2) None] by blast
  have h: "segment_holds (up_slot u) w []" using segment_create_holds [OF w(1)] assms(1) by (simp add: env_ok_def)
  have "segment_holds (up_slot u) (segment_extend (ev_pad ev, u) w) [(ev_pad ev, u)]"
    using segment_extend_holds [OF h, of "(ev_pad ev, u)"] assms(1,2) by (simp add: env_ok_def padded_ok_def)
  then show thesis
    using that write_open_segment [OF assms(1,2), of ?c w "up_slot u" "[]"] h w(2) assms(3) vs
    by (simp add: dc_seg_def dc_rest_def hm.get_ins hm.invar_ins)
qed

definition add_view :: "'pk consumer_env \<Rightarrow> update \<Rightarrow> 'pk update_reducer \<Rightarrow> 'pk update_reducer" where
  "add_view ev u r = snd (add_update (ev_now ev) (the (ev_try_from ev (up_pubkey u))) (up_slot u)
     (up_write_version u) (view_location (view_of u)) r)"

lemma consume_loop_drains:
  assumes "env_ok ev" "ring_holds m (xs @ ys)" "rr_read_pos rd = of_nat (entries_size xs)"
    "dc_seg c vs" "length ys < fuel"
  shows "\<exists>c'. consume_loop fuel ev m rd n c = Some (Ok (n + of_nat (length ys)), c') \<and>
    dc_seg c' (vs @ map (\<lambda>e. (ev_pad ev, snd e)) ys) \<and>
    dc_rest c' = (dc_flush_batch_size c, dc_running c, dc_total_processed c, dc_total_errors c,
      dc_delta_locator c, fold (add_view ev) (map snd ys) (dc_update_reducer c))"
  using assms(2-)
proof (induction ys arbitrary: xs rd c vs n fuel)
  case Nil
  then show ?case by (cases fuel) (simp_all add: ring_read_end dc_rest_def)
next
  case (Cons e ys)
  obtain pad u where e: "e = (pad, u)" by (cases e)
  obtain k where fuel: "fuel = Suc k" using Cons.prems(4) by (cases fuel) auto
  have fits: "update_fits u" using Cons.prems(1) by (simp add: ring_holds_def padded_ok_def e)
  let ?c1 = "c \<lparr> dc_update_reducer := add_view ev u (dc_update_reducer c) \<rparr>"
  let ?rd = "rd \<lparr> rr_read_pos := of_nat (entries_size (xs @ [e])) \<rparr>"
  have "dc_seg ?c1 vs" using Cons.prems(3) by (cases "dc_current_segment c") (simp_all add: dc_seg_def)
  then obtain c2 where c2: "write_to_segment ev (up_slot u) (up_write_version u) (up_pubkey u) (up_data u) ?c1 = (Ok (), c2)"
    "dc_seg c2 (vs @ [(ev_pad ev, u)])" "dc_rest c2 = dc_rest ?c1"
    using write_to_segment_seg [OF assms(1) fits] by blast
  obtain pk where pk: "ev_try_from ev (up_pubkey u) = Some pk"
    using assms(1) fits by (auto simp: env_ok_def update_fits_def)
  have step: "consume_loop fuel ev m rd n c = consume_loop k ev m ?rd (n + 1) c2"
    using ring_read_entry [of m xs pad u ys rd] Cons.prems(1,2) c2(1) pk
    by (simp add: fuel e view_of_def add_view_def)
  show ?case
    using Cons.IH [of "xs @ [e]" ?rd c2 "vs @ [(ev_pad ev, u)]" k "n + 1"] Cons.prems c2(2,3) fuel
    unfolding step by (auto simp: e dc_rest_def algebra_simps)
qed

lemma ring_reader_open_zero: "ring_reader_open True len = Ok rd \<Longrightarrow> rr_read_pos rd = of_nat (entries_size [])"
  by (auto simp: ring_reader_open_def split: if_splits)

text \<open>A call that stays below the flush threshold appends the whole ring to the open segment.\<close>

lemma process_updates_appends:
  assumes "env_ok ev" "ring_holds m us" "RING_HEADER_SIZE \<le> len" "length us < fuel" "dc_seg c vs"
    and "length vs + length us < dc_flush_batch_size c" "dc_flush_batch_size c < 2 ^ 64"
    and "vs \<noteq> [] \<or> us \<noteq> []"
  shows "\<exists>c'. process_updates fuel ev True len m c = Some (Ok (of_nat (length us)), c') \<and>
    dc_seg c' (vs @ map (\<lambda>e. (ev_pad ev, snd e)) us) \<and>
    dc_rest c' = (dc_flush_batch_size c, dc_running c, dc_total_processed c + of_nat (length us), dc_total_errors c,
      dc_delta_locator c, fold (add_view ev) (map snd us) (dc_update_reducer c))"
proof -
  obtain rd where rd: "ring_reader_open True len = Ok rd" using assms(3) by (simp add: ring_reader_open_def)
  obtain c1 where c1: "consume_loop fuel ev m rd 0 c = Some (Ok (of_nat (length us)), c1)"
    "dc_seg c1 (vs @ map (\<lambda>e. (ev_pad ev, snd e)) us)"
    "dc_rest c1 = (dc_flush_batch_size c, dc_running c, dc_total_processed c, dc_total_errors c,
      dc_delta_locator c, fold (add_view ev) (map snd us) (dc_update_reducer c))"
    using consume_loop_drains [OF assms(1), of m "[]" us rd c vs fuel 0] ring_reader_open_zero [OF rd] assms by auto
  have "dc_current_segment_entries c1 = of_nat (length vs + length us)"
    using c1(2) assms(8) by (auto simp: dc_seg_def split: option.splits)
  then have small: "\<not> dc_current_segment_entries c1 \<ge> of_nat (dc_flush_batch_size c)"
    using assms(6,7) by (simp add: word_le_nat_alt unat_of_nat_eq del: of_nat_add)
  let ?c2 = "c1 \<lparr> dc_total_processed := dc_total_processed c1 + of_nat (length us) \<rparr>"
  have "process_updates fuel ev True len m c = Some (Ok (of_nat (length us)), ?c2)"
    using c1(3) small by (simp add: process_updates_def rd c1(1) maybe_flush_segment_def dc_rest_def)
  moreover have "dc_seg ?c2 (vs @ map (\<lambda>e. (ev_pad ev, snd e)) us)"
    using c1(2) by (cases "dc_current_segment c1") (simp_all add: dc_seg_def)
  ultimately show ?thesis using c1(3) by (auto simp: dc_rest_def)
qed

text \<open>A call that reaches the threshold finalizes the segment and registers it.\<close>

lemma process_updates_flushes:
  assumes "env_ok ev" "ring_holds m us" "RING_HEADER_SIZE \<le> len" "length us < fuel"
    and "dc_current_segment c = None" "hm_invar (dc_files c)"
    and "dc_flush_batch_size c \<le> length us" "length us < 2 ^ 64" "us \<noteq> []"
  shows "\<exists>c' info bytes. process_updates fuel ev True len m c = Some (Ok (of_nat (length us)), c') \<and>
    info = segment_stats (up_slot (snd (hd us))) (map (\<lambda>e. (ev_pad ev, snd e)) us) \<and>
    dc_current_segment c' = None \<and> dc_current_segment_entries c' = 0 \<and>
    dc_delta_locator c' = register_segment (meta_of (ev_now ev) (Some (up_slot (snd (hd us)))) info) (dc_delta_locator c) \<and>
    hm_get (dc_files c') (up_slot (snd (hd us))) = Some bytes \<and>
    (\<exists>hb. length hb = SEGMENT_HEADER_SIZE \<and> bytes = hb @ entries_bytes (map (\<lambda>e. (ev_pad ev, snd e)) us)) \<and>
    (\<exists>r. segment_open True bytes = Ok r \<and> segment_reader_info r = info)"
proof -
  let ?vs = "map (\<lambda>e. (ev_pad ev, snd e)) us" and ?s = "up_slot (snd (hd us))"
  obtain rd where rd: "ring_reader_open True len = Ok rd" using assms(3) by (simp add: ring_reader_open_def)
  have "dc_seg c []" using assms(5,6) by (simp add: dc_seg_def)
  then obtain c1 where c1: "consume_loop fuel ev m rd 0 c = Some (Ok (of_nat (length us)), c1)" "dc_seg c1 ?vs"
    "dc_flush_batch_size c1 = dc_flush_batch_size c" "dc_delta_locator c1 = dc_delta_locator c"
    using consume_loop_drains [OF assms(1), of m "[]" us rd c "[]" fuel 0] ring_reader_open_zero [OF rd] assms
    by (auto simp: dc_rest_def)
  have hd: "up_slot (snd (hd ?vs)) = ?s" using assms(9) by (cases us) auto
  obtain w where w: "dc_current_segment c1 = Some w" "segment_holds ?s w ?vs"
    "dc_current_segment_start_slot c1 = Some ?s" "dc_current_segment_entries c1 = of_nat (length us)" "hm_invar (dc_files c1)"
    using c1(2) assms(9) hd by (auto simp: dc_seg_def split: option.splits)
  have big: "dc_current_segment_entries c1 \<ge> of_nat (dc_flush_batch_size c)"
    using assms(7,8) w(4) by (simp add: word_le_nat_alt unat_of_nat_eq)
  obtain bytes where b: "segment_finalize (ev_crc ev) (ev_pad ev) True w = (Ok (segment_stats ?s ?vs), bytes)"
    "\<exists>hb. length hb = SEGMENT_HEADER_SIZE \<and> bytes = hb @ entries_bytes ?vs"
    "\<exists>r. segment_open True bytes = Ok r \<and> segment_reader_info r = segment_stats ?s ?vs"
    using segment_finalize_open [OF w(2), of "ev_pad ev"] assms(1) unfolding env_ok_def by blast
  show ?thesis
    using b(2,3) w big c1(3,4) assms(1)
    by (auto simp: process_updates_def rd c1(1) maybe_flush_segment_def b(1) env_ok_def hm.get_ins)
qed


section \<open>Properties\<close>

text \<open>C9: draining a ring that holds a non-empty list of updates, of at least the batch size,
  into a consumer with no open segment returns their number, writes all of them in order to
  the segment file named after the first slot, registers that segment with its statistics in
  the delta locator, leaves no segment open and resets the entry count; the file reopens with
  these statistics.\<close>

theorem process_updates_flushes_ring:
  assumes "env_ok ev" "ring_holds m us" "RING_HEADER_SIZE \<le> len" "length us < fuel"
    and "dc_current_segment c = None" "hm_invar (dc_files c)"
    and "dc_flush_batch_size c \<le> length us" "length us < 2 ^ 64" "us \<noteq> []"
  shows "\<exists>c' info bytes. process_updates fuel ev True len m c = Some (Ok (of_nat (length us)), c') \<and>
    info = segment_stats (up_slot (snd (hd us))) (map (\<lambda>e. (ev_pad ev, snd e)) us) \<and>
    dc_current_segment c' = None \<and> dc_current_segment_entries c' = 0 \<and>
    dc_delta_locator c' = register_segment (meta_of (ev_now ev) (Some (up_slot (snd (hd us)))) info) (dc_delta_locator c) \<and>
    hm_get (dc_files c') (up_slot (snd (hd us))) = Some bytes \<and>
    (\<exists>hb. length hb = SEGMENT_HEADER_SIZE \<and> bytes = hb @ entries_bytes (map (\<lambda>e. (ev_pad ev, snd e)) us)) \<and>
    (\<exists>r. segment_open True bytes = Ok r \<and> segment_reader_info r = info)"
  by (rule process_updates_flushes [OF assms])

definition sample_env :: "nat consumer_env" where
  "sample_env = \<lparr> ev_crc = (\<lambda>_. 0), ev_pad = [0, 0, 0, 0], ev_now = 0, ev_try_from = (\<lambda>_. Some 0), ev_io = True \<rparr>"

definition sample_ring :: ring_mem where
  "sample_ring = ring_append \<lparr> rw_capacity = 400 \<rparr> ([0, 0, 0, 0], sample_update [9])
     \<lparr> rb_write_pos = 0, rb_read_pos = 0, rb_capacity = 400, rb_entry_count = 0, rb_state = 1,
       rb_bytes = replicate 272 0 \<rparr>"

lemma sample_ring_holds: "ring_holds sample_ring [([0, 0, 0, 0], sample_update [9])]"
  using ring_append_log [of "\<lparr> rw_capacity = 400 \<rparr>" "\<lparr> rb_write_pos = 0, rb_read_pos = 0, rb_capacity = 400,
      rb_entry_count = 0, rb_state = 1, rb_bytes = replicate 272 0 \<rparr>" "[]" "([0, 0, 0, 0], sample_update [9])"]
  by (simp add: sample_ring_def ring_log_def ring_holds_def padded_ok_def update_fits_def sample_update_def
      update_size_def ENTRY_SIZE_def)

lemma sample_env_ok: "env_ok sample_env"
  by (simp add: env_ok_def sample_env_def)

theorem process_updates_flushes_ring_witness:
  "\<exists>c'. process_updates 2 sample_env True 400 sample_ring (delta_consumer_new 1 delta_locator_new) = Some (Ok 1, c') \<and>
     dc_current_segment c' = None"
  using process_updates_flushes_ring [OF sample_env_ok sample_ring_holds, of 400 2
      "delta_consumer_new 1 delta_locator_new"]
  by (auto simp: RING_HEADER_SIZE_def delta_consumer_new_def hm_invar_def)

text \<open>The reader position is not kept between calls: a second \<open>process_updates\<close> over a ring
  to which nothing was added processes every update again, so that the open segment holds
  each of them twice and the statistics count them twice.\<close>

theorem process_updates_reprocesses_ring:
  assumes "env_ok ev" "ring_holds m us" "RING_HEADER_SIZE \<le> len" "length us < fuel" "us \<noteq> []"
    and "2 * length us < batch" "batch < 2 ^ 64"
  shows "\<exists>c1 c2. process_updates fuel ev True len m (delta_consumer_new batch l) = Some (Ok (of_nat (length us)), c1) \<and>
    process_updates fuel ev True len m c1 = Some (Ok (of_nat (length us)), c2) \<and>
    dc_total_processed c2 = of_nat (2 * length us) \<and>
    dc_seg c2 (map (\<lambda>e. (ev_pad ev, snd e)) us @ map (\<lambda>e. (ev_pad ev, snd e)) us)"
proof -
  let ?vs = "map (\<lambda>e. (ev_pad ev, snd e)) us" and ?c = "delta_consumer_new batch l"
  have c: "dc_seg ?c []" "dc_flush_batch_size ?c = batch" "dc_total_processed ?c = 0"
    by (simp_all add: dc_seg_def delta_consumer_new_def hm_invar_def)
  obtain c1 where c1: "process_updates fuel ev True len m ?c = Some (Ok (of_nat (length us)), c1)" "dc_seg c1 ?vs"
    "dc_flush_batch_size c1 = batch" "dc_total_processed c1 = of_nat (length us)"
    using process_updates_appends [OF assms(1-4) c(1)] assms(5-7) c(2,3) by (auto simp: dc_rest_def)
  obtain c2 where "process_updates fuel ev True len m c1 = Some (Ok (of_nat (length us)), c2)" "dc_seg c2 (?vs @ ?vs)"
    "dc_total_processed c2 = of_nat (length us) + of_nat (length us)"
    using process_updates_appends [OF assms(1-4) c1(2)] assms(5-7) c1(3,4) by (auto simp: dc_rest_def)
  then show ?thesis using c1(1) by auto
qed

theorem process_updates_reprocesses_ring_witness:
  "\<exists>c1 c2. process_updates 2 sample_env True 400 sample_ring (delta_consumer_new 9 delta_locator_new) = Some (Ok 1, c1) \<and>
     process_updates 2 sample_env True 400 sample_ring c1 = Some (Ok 1, c2) \<and> dc_total_processed c2 = 2"
  using process_updates_reprocesses_ring [OF sample_env_ok sample_ring_holds, of 400 2 9 delta_locator_new]
  by (auto simp: RING_HEADER_SIZE_def)

text \<open>C31: after any sequence of updates the reducer holds one pending update per pubkey seen, a
  genuine one with the highest write version for that pubkey, and pending plus deduplicated
  updates account for all of them.\<close>

theorem reducer_keeps_highest_write_version:
  "let r = fold (add_raw now) us (update_reducer_with_threshold t) in
    pending_count r = card (fst ` set us) \<and>
    (\<forall>pk. hm_get (ur_pending_updates r) pk = None \<longleftrightarrow> pk \<notin> fst ` set us) \<and>
    (\<forall>pk p. hm_get (ur_pending_updates r) pk = Some p \<longrightarrow>
       (pk, pu_slot p, pu_write_version p, pu_location p) \<in> set us \<and>
       (\<forall>slot v loc. (pk, slot, v, loc) \<in> set us \<longrightarrow> v \<le> pu_write_version p)) \<and>
    rd_pending_count (reducer_stats_of r) + rd_dedup_count (reducer_stats_of r) = of_nat (length us)"
proof -
  have h: "reducer_holds (fold (add_raw now) us (update_reducer_with_threshold t)) us"
    by (rule reducer_holds_all)
  show ?thesis
    using reducer_holds_pending_count [OF h] h
    unfolding Let_def reducer_stats_of_def reducer_holds_def by simp
qed

theorem reducer_keeps_highest_write_version_witness:
  "let r = fold (add_raw 0) [(1 :: nat, 5, 2, new_delta 0 0 0 5 2), (1, 6, 9, new_delta 0 0 0 6 9)]
             (update_reducer_with_threshold 4)
   in pending_count r = 1 \<and> (\<forall>p. hm_get (ur_pending_updates r) 1 = Some p \<longrightarrow> 9 \<le> pu_write_version p)"
  using reducer_keeps_highest_write_version [of 0
      "[(1 :: nat, 5, 2, new_delta 0 0 0 5 2), (1, 6, 9, new_delta 0 0 0 6 9)]" 4]
  unfolding Let_def by simp

text \<open>The reducer orders by write version alone, against the slot-first order of
  \<open>is_newer_than\<close>: of two updates to one pubkey, the one from the later slot is discarded
  when its write version is not higher.\<close>

theorem reducer_ignores_slots:
  assumes "slot1 < slot2" "v2 \<le> v1"
  shows "is_newer_than (new_delta 0 0 n2 slot2 v2) (new_delta 0 0 n1 slot1 v1) \<and>
    hm_get (ur_pending_updates (fold (add_raw now)
       [(pk, slot1, v1, new_delta 0 0 n1 slot1 v1), (pk, slot2, v2, new_delta 0 0 n2 slot2 v2)]
       (update_reducer_with_threshold t))) pk
     = Some \<lparr> pu_slot = slot1, pu_write_version = v1, pu_location = new_delta 0 0 n1 slot1 v1, pu_timestamp = now \<rparr>"
  using assms
  by (auto simp: is_newer_than_def new_delta_def add_raw_def add_update_def update_reducer_with_threshold_def
      hm_get_def hm_insert_def Let_def)

theorem reducer_ignores_slots_witness:
  "is_newer_than (new_delta 0 0 1 101 2) (new_delta 0 0 1 100 5)"
  using reducer_ignores_slots [of 100 101 2 5 1 1 0 "()" 1] by simp

text \<open>The delta locator returns the location registered last for a pubkey, and nothing for
  an unregistered one; segments of a slot range are those registered last for a start slot
  in the range, in ascending order, and an inverted range panics.\<close>

theorem delta_locator_lookups:
  fixes us :: "('pk::linorder \<times> account_location) list"
  shows "get_latest (fold (\<lambda>(k, v). register_update k v) us delta_locator_new) pk = map_of (rev us) pk \<and>
    (a \<le> b \<longrightarrow> (\<exists>ss. get_segments_for_range (fold register_segment ms (delta_locator_new :: 'pk delta_locator)) a b = Ok ss \<and>
        sorted_wrt (<) (map dm_start_slot ss) \<and>
        set ss = {m. map_of (rev (map (\<lambda>m. (dm_start_slot m, m)) ms)) (dm_start_slot m) = Some m \<and>
                     a \<le> dm_start_slot m \<and> dm_start_slot m \<le> b})) \<and>
    (b < a \<longrightarrow> get_segments_for_range (fold register_segment ms (delta_locator_new :: 'pk delta_locator)) a b = Panic)"
proof (intro conjI impI)
  show "get_latest (fold (\<lambda>(k, v). register_update k v) us delta_locator_new) pk = map_of (rev us) pk"
    by (simp add: get_latest_def register_updates_eq bt.get_ins_all bt.invar_empty bt.get_empty
        delta_locator_new_def split: option.splits)
  show "\<exists>ss. get_segments_for_range (fold register_segment ms (delta_locator_new :: 'pk delta_locator)) a b = Ok ss \<and>
        sorted_wrt (<) (map dm_start_slot ss) \<and>
        set ss = {m. map_of (rev (map (\<lambda>m. (dm_start_slot m, m)) ms)) (dm_start_slot m) = Some m \<and>
                     a \<le> dm_start_slot m \<and> dm_start_slot m \<le> b}" if ab: "a \<le> b"
  proof -
    let ?l = "fold register_segment ms (delta_locator_new :: 'pk delta_locator)"
    have get: "bt_get (dl_segments_by_slot ?l) k = map_of (rev (map (\<lambda>m. (dm_start_slot m, m)) ms)) k" for k
      using bt.get_ins_all [OF bt.invar_empty, of "map (\<lambda>m. (dm_start_slot m, m)) ms" k]
      by (simp add: register_segments_eq bt.get_empty delta_locator_new_def split: option.splits)
    obtain ss where "get_segments_for_range ?l a b = Ok ss" "sorted_wrt (<) (map dm_start_slot ss)"
      "set ss = {m. bt_get (dl_segments_by_slot ?l) (dm_start_slot m) = Some m \<and> a \<le> dm_start_slot m \<and> dm_start_slot m \<le> b}"
      by (rule range_segments [OF dl_wf_register_segments [OF dl_wf_new] ab])
    then show ?thesis unfolding get by blast
  qed
qed (simp add: get_segments_for_range_def)

theorem delta_locator_lookups_witness:
  "get_segments_for_range (fold register_segment [] (delta_locator_new :: nat delta_locator)) 5 4 = Panic"
  using delta_locator_lookups [of "[] :: (nat \<times> account_location) list" 0 5 4 "[]"] by simp

text \<open>A compaction of a non-empty delta layer merges nothing: it reports no merged account
  and no new base location, drops every segment from the locator, leaves the delta locations
  that point into them in place, and counts itself twice.\<close>

theorem compaction_drops_segments:
  fixes l :: "'pk::linorder delta_locator"
  assumes "ms \<noteq> []" "l = fold register_segment ms delta_locator_new"
  shows "\<exists>res c' l'. compact now1 now2 c l = (res, c', l') \<and>
    cr_accounts_merged res = 0 \<and> cr_new_base_locations res = 0 \<and>
    cr_segments_compacted res = of_nat (length (get_all_segments l)) \<and>
    get_all_segments l' = [] \<and> get_latest l' = get_latest l \<and>
    cp_compaction_count c' = cp_compaction_count c + 2 \<and> cp_total_merged c' = cp_total_merged c"
proof -
  obtain m ms' where ms: "ms = ms' @ [m]" using assms(1) by (metis append_butlast_last_id)
  have "dl_segments_by_slot l \<noteq> []"
    by (simp add: assms(2) ms register_segment_def) (metis bt_insert_keys image_is_empty insert_not_empty empty_set)
  then have "get_all_segments l \<noteq> []" by (simp add: get_all_segments_def bt_vals_def)
  moreover have "dl_wf l" unfolding assms(2) by (intro dl_wf_register_segments dl_wf_new)
  ultimately have "compact now1 now2 c l =
    (\<lparr> cr_segments_compacted = of_nat (length (get_all_segments l)), cr_accounts_merged = 0,
       cr_new_base_locations = 0, cr_bytes_freed = 0 \<rparr>,
     c \<lparr> cp_compaction_count := cp_compaction_count c + 2, cp_last_compaction := Some now2 \<rparr>,
     l \<lparr> dl_segments_by_slot := [] \<rparr>)" by (intro compact_clears)
  then show ?thesis by (simp add: get_all_segments_def [of "l \<lparr> dl_segments_by_slot := [] \<rparr>"] bt_vals_def
        get_latest_def fun_eq_iff)
qed

theorem compaction_drops_segments_witness:
  "\<exists>res c' l'. compact 0 0 compactor_new
      (fold register_segment [\<lparr> dm_path_slot = 1, dm_start_slot = 1, dm_end_slot = 2, dm_entry_count = 7,
          dm_data_size = 700, dm_created_at = 0 \<rparr>] (delta_locator_new :: nat delta_locator)) = (res, c', l') \<and>
     cr_accounts_merged res = 0 \<and> get_all_segments l' = []"
  using compaction_drops_segments [OF _ refl, of "[\<lparr> dm_path_slot = 1, dm_start_slot = 1, dm_end_slot = 2,
      dm_entry_count = 7, dm_data_size = 700, dm_created_at = 0 \<rparr>]" 0 0 compactor_new] by auto

end
