(* ===== verification/Merkle.thy ===== *)
theory Merkle
  imports Prelude
begin

text \<open>
  Checksums and Merkle roots (\<open>base-locator/src/checksum.rs\<close>).

  The hash functions come from other crates and are parameters: \<open>blake3\<close> and \<open>sha\<close> map the
  concatenation of everything fed to the hasher to a digest.  No property of them is assumed.
  The lemmas show that the level-by-level root is the root of the balanced tree that splits at
  the largest power of two, that every generated proof recomputes the root when each sibling
  is taken on its side, and what the verifier, which ignores sides, accepts.
\<close>

type_synonym digest = "byte list"

section \<open>Account checksums\<close>

definition hash_account_data :: "(byte list \<Rightarrow> digest) \<Rightarrow> byte list \<Rightarrow> digest" where
  "hash_account_data blake3 data = blake3 data"

definition hash_location_metadata ::
  "(byte list \<Rightarrow> digest) \<Rightarrow> ('pk \<Rightarrow> byte list) \<Rightarrow> 'pk \<Rightarrow> u64 \<Rightarrow> u64 \<Rightarrow> u32 \<Rightarrow> digest" where
  "hash_location_metadata blake3 to_bytes pubkey slot write_version data_len =
     blake3 (to_bytes pubkey @ le_bytes 8 slot @ le_bytes 8 write_version @ le_bytes 4 data_len)"

definition hash_account_data_with_pubkey ::
  "(byte list \<Rightarrow> digest) \<Rightarrow> ('pk \<Rightarrow> byte list) \<Rightarrow> 'pk \<Rightarrow> byte list \<Rightarrow> digest" where
  "hash_account_data_with_pubkey blake3 to_bytes pubkey data = blake3 (to_bytes pubkey @ data)"

definition verify_account_integrity ::
  "(byte list \<Rightarrow> digest) \<Rightarrow> ('pk \<Rightarrow> byte list) \<Rightarrow> 'pk \<Rightarrow> byte list \<Rightarrow> digest \<Rightarrow> bool" where
  "verify_account_integrity blake3 to_bytes pubkey data expected_hash =
     (let computed = hash_account_data_with_pubkey blake3 to_bytes pubkey data in computed = expected_hash)"

definition compute_batch_checksum ::
  "(byte list \<Rightarrow> digest) \<Rightarrow> ('pk \<Rightarrow> byte list) \<Rightarrow> ('pk \<times> byte list) list \<Rightarrow> digest" where
  "compute_batch_checksum blake3 to_bytes accounts =
     blake3 (fold (\<lambda>(pubkey, data) fed. fed @ to_bytes pubkey @ data) accounts [])"


section \<open>Merkle trees\<close>

definition leaf_hash :: "(byte list \<Rightarrow> digest) \<Rightarrow> byte list \<Rightarrow> digest" where
  "leaf_hash sha data = sha data"

definition node_hash :: "(byte list \<Rightarrow> digest) \<Rightarrow> digest \<Rightarrow> digest \<Rightarrow> digest" where
  "node_hash sha left right = sha (left @ right)"

text \<open>One pass over \<open>level.chunks(2)\<close>.\<close>

fun next_level :: "(byte list \<Rightarrow> digest) \<Rightarrow> digest list \<Rightarrow> digest list" where
  "next_level sha [] = []"
| "next_level sha [x] = [x]"
| "next_level sha (x # y # zs) = node_hash sha x y # next_level sha zs"

lemma length_next_level: "length (next_level sha xs) = (length xs + 1) div 2"
  by (induction sha xs rule: next_level.induct) auto

lemma length_next_level_less: "1 < length xs \<Longrightarrow> length (next_level sha xs) < length xs"
  by (simp add: length_next_level)

text \<open>The \<open>while\<close> loop of \<open>compute_root\<close>.\<close>

function root_loop :: "(byte list \<Rightarrow> digest) \<Rightarrow> digest list \<Rightarrow> digest list" where
  "root_loop sha level = (if length level > 1 then root_loop sha (next_level sha level) else level)"
  by auto
termination by (relation "measure (length \<circ> snd)") (auto simp: length_next_level_less)

declare root_loop.simps [simp del]

definition compute_root :: "(byte list \<Rightarrow> digest) \<Rightarrow> digest list \<Rightarrow> digest" where
  "compute_root sha leaves =
     (if leaves = [] then replicate 32 0
      else if length leaves = 1 then leaves ! 0
      else root_loop sha leaves ! 0)"

text \<open>The siblings pushed while one level is processed, with the chunk counter \<open>i\<close>.\<close>

fun level_siblings :: "digest list \<Rightarrow> nat \<Rightarrow> nat \<Rightarrow> digest list" where
  "level_siblings [] i idx = []"
| "level_siblings [x] i idx = []"
| "level_siblings (x # y # zs) i idx =
     (if i = idx div 2 then [if idx mod 2 = 0 then y else x] else []) @ level_siblings zs (i + 1) idx"

function proof_loop :: "(byte list \<Rightarrow> digest) \<Rightarrow> digest list \<Rightarrow> nat \<Rightarrow> digest list" where
  "proof_loop sha level idx =
     (if length level > 1
      then level_siblings level 0 idx @ proof_loop sha (next_level sha level) (idx div 2)
      else [])"
  by auto
termination by (relation "measure (length \<circ> fst \<circ> snd)") (auto simp: length_next_level_less)

declare proof_loop.simps [simp del]

definition generate_proof :: "(byte list \<Rightarrow> digest) \<Rightarrow> digest list \<Rightarrow> nat \<Rightarrow> digest list" where
  "generate_proof sha leaves index = proof_loop sha leaves index"

definition verify_proof :: "(byte list \<Rightarrow> digest) \<Rightarrow> digest \<Rightarrow> digest list \<Rightarrow> digest \<Rightarrow> bool" where
  "verify_proof sha leaf pf root \<longleftrightarrow> fold (\<lambda>sibling current. node_hash sha current sibling) pf leaf = root"


section \<open>The root\<close>

lemma next_level_append:
  "even (length xs) \<Longrightarrow> next_level sha (xs @ ys) = next_level sha xs @ next_level sha ys"
  by (induction sha xs rule: next_level.induct) auto

lemma compute_root_next_level: "xs \<noteq> [] \<Longrightarrow> compute_root sha (next_level sha xs) = compute_root sha xs"
proof (cases "length xs > 1")
  case True
  have loop: "root_loop sha xs = root_loop sha (next_level sha xs)"
    using True by (subst root_loop.simps) simp
  have "next_level sha xs \<noteq> []" using True length_next_level [of sha xs] by (cases "next_level sha xs") auto
  moreover have "root_loop sha [z] = [z]" for z by (simp add: root_loop.simps)
  ultimately show ?thesis
    using True loop by (cases "next_level sha xs") (auto simp: compute_root_def)
next
  case False
  assume "xs \<noteq> []"
  then obtain x where "xs = [x]" using False by (cases xs) auto
  then show ?thesis by simp
qed

lemma compute_root_split:
  "2 ^ k < length xs \<Longrightarrow> length xs \<le> 2 ^ Suc k \<Longrightarrow>
     compute_root sha xs = node_hash sha (compute_root sha (take (2 ^ k) xs)) (compute_root sha (drop (2 ^ k) xs))"
proof (induction k arbitrary: xs)
  case 0
  then have "length xs = 2" by simp
  then obtain x y where "xs = [x, y]" by (auto simp: numeral_2_eq_2 length_Suc_conv)
  then show ?case by (simp add: compute_root_def root_loop.simps)
next
  case (Suc k)
  let ?a = "take (2 ^ Suc k) xs" and ?b = "drop (2 ^ Suc k) xs"
  have la: "length ?a = 2 * 2 ^ k" using Suc.prems(1) by simp
  have split: "next_level sha xs = next_level sha ?a @ next_level sha ?b"
    using next_level_append [of ?a sha ?b] la by simp
  have na: "length (next_level sha ?a) = 2 ^ k" unfolding length_next_level la by simp
  have ne: "xs \<noteq> []" "?a \<noteq> []" "?b \<noteq> []" using Suc.prems(1) by auto
  have "length (next_level sha xs) = (length xs + 1) div 2" by (rule length_next_level)
  then have "2 ^ k < length (next_level sha xs)" "length (next_level sha xs) \<le> 2 ^ Suc k"
    using Suc.prems by (auto simp: div_le_dividend) 
  from Suc.IH [OF this] show ?case
    using ne compute_root_next_level [of xs sha] compute_root_next_level [of ?a sha]
      compute_root_next_level [of ?b sha] na by (simp add: split)
qed


section \<open>Proofs\<close>

text \<open>
  Recomputing the root from a leaf: at a level of \<open>n\<close> nodes the node at \<open>idx\<close> is promoted when
  it is the odd one at the end, and otherwise joined with the next sibling on its side.
\<close>

function climb :: "(byte list \<Rightarrow> digest) \<Rightarrow> nat \<Rightarrow> nat \<Rightarrow> digest \<Rightarrow> digest list \<Rightarrow> digest" where
  "climb sha n idx cur pf =
     (if n \<le> 1 then cur
      else if even idx \<and> idx + 1 = n then climb sha ((n + 1) div 2) (idx div 2) cur pf
      else case pf of [] \<Rightarrow> cur
        | s # ss \<Rightarrow> climb sha ((n + 1) div 2) (idx div 2)
            (if even idx then node_hash sha cur s else node_hash sha s cur) ss)"
  by auto
termination by (relation "measure (\<lambda>(sha, n, idx, cur, pf). n)") auto

declare climb.simps [simp del]

lemma level_siblings_eq:
  "level_siblings xs i idx =
     (if i \<le> idx div 2 \<and> 2 * (idx div 2 - i) + 1 < length xs
      then [xs ! (2 * (idx div 2 - i) + (if even idx then 1 else 0))] else [])"
proof (induction xs i idx rule: level_siblings.induct)
  case (3 x y zs i idx)
  have c: "idx div 2 - i = Suc (idx div 2 - Suc i)" if "i < idx div 2" using that by simp
  show ?case
    using 3 c by (auto simp: nth_Cons' even_iff_mod_2_eq_zero less_Suc_eq_le split: if_splits) 
qed auto

lemma next_level_nth:
  "j < length xs \<Longrightarrow> next_level sha xs ! (j div 2) =
     (if even j \<and> j + 1 = length xs then xs ! j
      else if even j then node_hash sha (xs ! j) (xs ! (j + 1)) else node_hash sha (xs ! (j - 1)) (xs ! j))"
proof (induction sha xs arbitrary: j rule: next_level.induct)
  case (3 sha x y zs)
  consider "j = 0" | "j = 1" | k where "j = k + 2"
    by (metis One_nat_def Suc_1 add.commute add_2_eq_Suc' not0_implies_Suc numeral_2_eq_2)
  then show ?case
  proof cases
    case (3 k)
    have d: "(k + 2) div 2 = Suc (k div 2)" by simp
    show ?thesis
      using "3.IH" [of k] "3.prems" unfolding 3 d by (cases k) (auto simp: nth_Cons' dest!: sym [of "Suc (Suc _)" "length zs"])
  qed auto
qed auto

lemma proof_climbs:
  "idx < length xs \<Longrightarrow> climb sha (length xs) idx (xs ! idx) (proof_loop sha xs idx) = compute_root sha xs"
proof (induction "length xs" arbitrary: xs idx rule: less_induct)
  case less
  show ?case
  proof (cases "length xs \<le> 1")
    case True
    then obtain x where "xs = [x]" using less.prems by (cases xs) auto
    then show ?thesis using less.prems by (simp add: climb.simps compute_root_def)
  next
    case False
    let ?ys = "next_level sha xs"
    have len: "length ?ys = (length xs + 1) div 2" by (rule length_next_level)
    have i: "idx div 2 < length ?ys" using less.prems len by auto
    have root: "compute_root sha ?ys = compute_root sha xs"
      using False by (intro compute_root_next_level) auto
    have IH: "climb sha (length ?ys) (idx div 2) (?ys ! (idx div 2)) (proof_loop sha ?ys (idx div 2)) = compute_root sha xs"
      using less.hyps [of ?ys "idx div 2"] False i root length_next_level_less [of xs sha] by simp
    have pf: "proof_loop sha xs idx = level_siblings xs 0 idx @ proof_loop sha ?ys (idx div 2)"
      using False by (subst proof_loop.simps) simp
    have sib: "level_siblings xs 0 idx =
        (if even idx \<and> idx + 1 = length xs then []
         else [xs ! (if even idx then idx + 1 else idx - 1)])"
      using less.prems by (auto simp: level_siblings_eq elim!: evenE oddE)
    have nth: "?ys ! (idx div 2) = (if even idx \<and> idx + 1 = length xs then xs ! idx
      else if even idx then node_hash sha (xs ! idx) (xs ! (idx + 1)) else node_hash sha (xs ! (idx - 1)) (xs ! idx))"
      by (rule next_level_nth [OF less.prems])
    show ?thesis
      using IH False unfolding pf by (subst climb.simps) (auto simp: sib nth len split: if_splits)
  qed
qed

text \<open>The leftmost path has every sibling on the right, which is the side the verifier assumes.\<close>

lemma climb_left: "climb sha n 0 cur pf = fold (\<lambda>sibling current. node_hash sha current sibling) pf cur"
  if "length pf = length (proof_loop sha xs 0)" "n = length xs" for xs
  using that
proof (induction "length xs" arbitrary: xs n cur pf rule: less_induct)
  case less
  show ?case
  proof (cases "n \<le> 1")
    case True
    then have "pf = []" using less.prems by (simp add: proof_loop.simps)
    then show ?thesis using True by (simp add: climb.simps)
  next
    case False
    let ?ys = "next_level sha xs"
    have two: "1 < length xs" using False less.prems(2) by simp
    have "length (proof_loop sha xs 0) = Suc (length (proof_loop sha ?ys 0))"
      using two by (subst proof_loop.simps) (simp add: level_siblings_eq)
    then obtain s ss where pf: "pf = s # ss" "length ss = length (proof_loop sha ?ys 0)"
      using less.prems(1) by (cases pf) auto
    have "climb sha (length ?ys) 0 (node_hash sha cur s) ss
        = fold (\<lambda>sibling current. node_hash sha current sibling) ss (node_hash sha cur s)"
      using less.hyps [of ?ys ss "length ?ys"] pf(2) length_next_level_less [OF two, of sha] by blast
    moreover have "climb sha n 0 cur pf = climb sha (length ?ys) 0 (node_hash sha cur s) ss"
      using False less.prems(2) pf(1) by (subst climb.simps) (simp add: length_next_level)
    ultimately show ?thesis by (simp add: pf(1))
  qed
qed

lemma batch_checksum_feed:
  "fold (\<lambda>(pubkey, data) fed. fed @ to_bytes pubkey @ data) accounts fed =
     fed @ concat (map (\<lambda>(pubkey, data). to_bytes pubkey @ data) accounts)"
  by (induction accounts arbitrary: fed) auto


section \<open>Properties\<close>

text \<open>C26: the Merkle root of more than \<open>2^k\<close> and at most \<open>2^(k+1)\<close> leaves is the node hash of the
  root of the first \<open>2^k\<close> leaves and the root of the others: the iterative computation builds
  the balanced tree that splits at the largest power of two.\<close>

theorem merkle_root_balanced_tree:
  assumes "2 ^ k < length leaves" "length leaves \<le> 2 ^ Suc k"
  shows "compute_root sha leaves =
    node_hash sha (compute_root sha (take (2 ^ k) leaves)) (compute_root sha (drop (2 ^ k) leaves))"
  by (rule compute_root_split [OF assms])

theorem merkle_root_balanced_tree_witness:
  "compute_root id [[1], [2], [3]] = node_hash id (compute_root id [[1], [2]]) (compute_root id [[3]])"
  using merkle_root_balanced_tree [of 1 "[[1], [2], [3]]" id] by simp



text \<open>Because it ignores sides, the verifier accepts the genuine proof of the right one of two
  leaves only if hashing the two in either order collides.\<close>

theorem merkle_verify_rejects_right_leaf:
  "verify_proof sha y (generate_proof sha [x, y] 1) (compute_root sha [x, y]) \<longleftrightarrow>
     node_hash sha y x = node_hash sha x y"
  by (simp add: verify_proof_def generate_proof_def compute_root_def root_loop.simps proof_loop.simps)

text \<open>The batch checksum does not delimit its entries: moving the bytes of the next pubkey and
  its data to the end of the previous entry's data gives the same checksum.\<close>

theorem batch_checksum_not_delimited:
  "compute_batch_checksum blake3 to_bytes [(p, d @ to_bytes q @ e)] = compute_batch_checksum blake3 to_bytes [(p, d), (q, e)]"
  by (simp add: compute_batch_checksum_def batch_checksum_feed)

end
