(* ===== verification/Std_Text.thy ===== *)
theory Std_Text
  imports Prelude "HOL-Library.Sublist"
begin

text \<open>
  What the components use of the standard library's text functions.  A character is one byte
  of UTF-8; white space is the ASCII white space.
\<close>

section \<open>Splitting and trimming\<close>

fun split_on :: "char \<Rightarrow> string \<Rightarrow> string list" where
  "split_on c [] = [[]]"
| "split_on c (x # xs) =
     (if x = c then [] # split_on c xs
      else case split_on c xs of [] \<Rightarrow> [[x]] | p # ps \<Rightarrow> (x # p) # ps)"

lemma split_on_nonempty: "split_on c xs \<noteq> []"
  by (cases xs) (auto split: list.splits)

lemma split_on_part: "c \<notin> set l \<Longrightarrow> split_on c (l @ c # rest) = l # split_on c rest"
  by (induction l) auto

text \<open>\<open>str::lines\<close>: a line ends with a newline, optionally preceded by a carriage return.\<close>

definition strip_cr :: "string \<Rightarrow> string" where
  "strip_cr l = (if l \<noteq> [] \<and> last l = CHR 13 then butlast l else l)"

definition text_lines :: "string \<Rightarrow> string list" where
  "text_lines xs =
     (let parts = split_on (CHR 10) xs
      in map strip_cr (butlast parts) @ (if last parts = [] then [] else [last parts]))"

lemma text_lines_Nil: "text_lines [] = []"
  by (simp add: text_lines_def)

lemma text_lines_Cons: "CHR 10 \<notin> set l \<Longrightarrow> text_lines (l @ CHR 13 # CHR 10 # rest) = l # text_lines rest"
  using split_on_part [of "CHR 10" "l @ [CHR 13]" rest] split_on_nonempty [of "CHR 10" rest]
  by (simp add: text_lines_def Let_def strip_cr_def)

definition split_once :: "char \<Rightarrow> string \<Rightarrow> (string \<times> string) option" where
  "split_once x xs = (if x \<in> set xs then Some (takeWhile (\<lambda>y. y \<noteq> x) xs, tl (dropWhile (\<lambda>y. y \<noteq> x) xs)) else None)"

definition is_space :: "char \<Rightarrow> bool" where
  "is_space x \<longleftrightarrow> x \<in> {CHR 9, CHR 10, CHR 11, CHR 12, CHR 13, CHR 32}"

definition trim_text :: "string \<Rightarrow> string" where
  "trim_text xs = rev (dropWhile is_space (rev (dropWhile is_space xs)))"

function split_whitespace :: "string \<Rightarrow> string list" where
  "split_whitespace [] = []"
| "split_whitespace (x # xs) =
     (if is_space x then split_whitespace xs
      else (x # takeWhile (\<lambda>y. \<not> is_space y) xs) # split_whitespace (dropWhile (\<lambda>y. \<not> is_space y) xs))"
  by pat_completeness auto
termination
  by (relation "measure length") (simp_all add: less_Suc_eq_le length_dropWhile_le)

definition trim_start_char :: "char \<Rightarrow> string \<Rightarrow> string" where
  "trim_start_char x xs = dropWhile (\<lambda>y. y = x) xs"

definition trim_end_char :: "char \<Rightarrow> string \<Rightarrow> string" where
  "trim_end_char x xs = rev (dropWhile (\<lambda>y. y = x) (rev xs))"

text \<open>\<open>str::contains\<close>, and the text before the first occurrence of a pattern and behind it.\<close>

definition contains :: "string \<Rightarrow> string \<Rightarrow> bool" where
  "contains pat xs = sublist pat xs"

fun before_sub :: "string \<Rightarrow> string \<Rightarrow> string" where
  "before_sub pat [] = []"
| "before_sub pat (x # xs) = (if prefix pat (x # xs) then [] else x # before_sub pat xs)"

fun after_sub :: "string \<Rightarrow> string \<Rightarrow> string option" where
  "after_sub pat [] = (if pat = [] then Some [] else None)"
| "after_sub pat (x # xs) = (if prefix pat (x # xs) then Some (drop (length pat) (x # xs)) else after_sub pat xs)"


section \<open>Numbers\<close>

text \<open>\<open>str::parse::<u64>\<close>: an optional \<open>+\<close>, then at least one digit, without overflow.\<close>

definition digit_value :: "char \<Rightarrow> nat option" where
  "digit_value c =
     (let n = of_char c :: nat in if 48 \<le> n \<and> n \<le> 57 then Some (n - 48) else None)"

primrec parse_digits :: "nat \<Rightarrow> string \<Rightarrow> nat option" where
  "parse_digits acc [] = Some acc"
| "parse_digits acc (c # cs) =
     (case digit_value c of None \<Rightarrow> None
      | Some d \<Rightarrow> (let acc' = 10 * acc + d in if acc' < 2 ^ 64 then parse_digits acc' cs else None))"

definition parse_u64 :: "string \<Rightarrow> u64 option" where
  "parse_u64 s =
     (let digits = (case s of c # cs \<Rightarrow> if c = CHR ''+'' then cs else s | [] \<Rightarrow> []) in
      if digits = [] then None else map_option of_nat (parse_digits 0 digits))"

text \<open>The decimal text of a number.\<close>

fun decimal :: "nat \<Rightarrow> string" where
  "decimal n = (if n < 10 then [char_of (48 + n)] else decimal (n div 10) @ [char_of (48 + n mod 10)])"

declare decimal.simps [simp del]

lemma digit_value_digit: "d < 10 \<Longrightarrow> digit_value (char_of (48 + d)) = Some d"
  by (simp add: digit_value_def Let_def of_char_of)

lemma parse_digits_append:
  "parse_digits acc (xs @ ys) = (case parse_digits acc xs of None \<Rightarrow> None | Some a \<Rightarrow> parse_digits a ys)"
  by (induction xs arbitrary: acc) (auto simp: Let_def split: option.splits)

lemma decimal_digits: "decimal n \<noteq> [] \<and> (\<forall>x\<in>set (decimal n). digit_value x \<noteq> None)"
proof (induction n rule: decimal.induct)
  case (1 n)
  have "digit_value (char_of (48 + n mod 10)) = Some (n mod 10)" by (rule digit_value_digit) simp
  then show ?case using 1 by (subst (1 2) decimal.simps) (auto simp: digit_value_digit)
qed

lemma parse_digits_decimal: "n < 2 ^ 64 \<Longrightarrow> parse_digits 0 (decimal n) = Some n"
proof (induction n rule: decimal.induct)
  case (1 n)
  have d: "digit_value (char_of (48 + n mod 10)) = Some (n mod 10)" by (rule digit_value_digit) simp
  show ?case
  proof (cases "n < 10")
    case True
    then show ?thesis using 1 digit_value_digit [of n] by (simp add: decimal.simps [of n] Let_def)
  next
    case False
    then have "parse_digits 0 (decimal (n div 10)) = Some (n div 10)" using 1 by auto
    then show ?thesis using False 1 d by (subst decimal.simps) (simp add: parse_digits_append Let_def)
  qed
qed

lemma decimal_chars: "x \<in> set (decimal n) \<Longrightarrow> x \<noteq> CHR 10 \<and> x \<noteq> CHR 43 \<and> x \<noteq> CHR 58"
  using decimal_digits [of n] by (auto simp: digit_value_def Let_def)

lemma parse_decimal: "n < 2 ^ 64 \<Longrightarrow> parse_u64 (decimal n) = Some (of_nat n)"
proof -
  assume n: "n < 2 ^ 64"
  obtain x xs where d: "decimal n = x # xs" using decimal_digits [of n] by (cases "decimal n") auto
  then have "x \<noteq> CHR 43" using decimal_chars [of x n] by simp
  then show ?thesis using parse_digits_decimal [OF n] d by (simp add: parse_u64_def Let_def del: parse_digits.simps)
qed

end
