(* ===== verification/Account_File.thy ===== *)
theory Account_File
  imports Location Bitmap Std_Text "HOL-Library.Char_ord"
begin

text \<open>
  Reading Agave account files (crate \<open>account-file-mapper\<close>): the record parser, the scanner of
  a file, the memory-mapped reader and the directory scanner.

  A mapped file is its byte list.  Offsets and sizes are 64-bit words, so the wrap-around of
  the unchecked additions is visible.  \<open>Pubkey\<close> comes from the Solana SDK: the code uses
  \<open>Pubkey::try_from\<close> on byte slices and \<open>to_bytes\<close>, whose contract is the locale
  \<open>pubkey_codec\<close>.  Floating-point rates and durations of the statistics are left out.
\<close>

section \<open>Pubkeys as 32 bytes\<close>

locale pubkey_codec =
  fixes try_from :: "byte list \<Rightarrow> 'pk option"
    and to_bytes :: "'pk \<Rightarrow> byte list"
  assumes length_to_bytes: "length (to_bytes k) = 32"
    and try_from_to_bytes: "try_from (to_bytes k) = Some k"
    and try_from_dom: "try_from bs \<noteq> None \<longleftrightarrow> length bs = 32"
    and to_bytes_try_from: "try_from bs = Some k \<Longrightarrow> to_bytes k = bs"

text \<open>Pubkeys as 256-bit numbers satisfy the contract.\<close>

type_synonym pubkey256 = "256 word"

definition pubkey256_to_bytes :: "pubkey256 \<Rightarrow> byte list" where
  "pubkey256_to_bytes k = le_bytes 32 k"

definition pubkey256_try_from :: "byte list \<Rightarrow> pubkey256 option" where
  "pubkey256_try_from bs = (if length bs = 32 then Some (of_le_bytes bs) else None)"

interpretation pk256: pubkey_codec pubkey256_try_from pubkey256_to_bytes
proof
  fix k :: pubkey256
  show "pubkey256_try_from (pubkey256_to_bytes k) = Some k"
    by (simp add: pubkey256_try_from_def pubkey256_to_bytes_def of_le_bytes_le_bytes)
next
  fix k :: pubkey256 and bs
  assume "pubkey256_try_from bs = Some k"
  then show "pubkey256_to_bytes k = bs"
    using le_bytes_of_le_bytes [where 'a = 256 and bs = bs]
    by (auto simp: pubkey256_try_from_def pubkey256_to_bytes_def split: if_splits)
qed (simp_all add: pubkey256_try_from_def pubkey256_to_bytes_def)


section \<open>The record parser\<close>

datatype parse_error =
    InvalidStoredSize u64
  | MetadataOverflow
  | InvalidPubkey
  | DataLengthMismatch nat nat
  | AlignmentError u64 nat

record 'pk parsed_account =
  pa_pubkey :: 'pk
  pa_owner :: 'pk
  pa_lamports :: u64
  pa_executable :: bool
  pa_rent_epoch :: u64
  pa_slot :: u64
  pa_write_version :: u64
  pa_data :: "byte list"
  pa_location :: account_location

record 'pk solana_account =
  sa_lamports :: u64
  sa_data :: "byte list"
  sa_owner :: 'pk
  sa_executable :: bool
  sa_rent_epoch :: u64

definition to_account :: "'pk parsed_account \<Rightarrow> 'pk solana_account" where
  "to_account a = \<lparr> sa_lamports = pa_lamports a, sa_data = pa_data a, sa_owner = pa_owner a,
                    sa_executable = pa_executable a, sa_rent_epoch = pa_rent_epoch a \<rparr>"

text \<open>\<open>Pubkey::try_from(&bytes[i..j]).map_err(..)\<close>.\<close>

definition pubkey_at :: "(byte list \<Rightarrow> 'pk option) \<Rightarrow> byte list \<Rightarrow> nat \<Rightarrow> nat \<Rightarrow> (parse_error, 'pk) result" where
  "pubkey_at try_from bytes i j =
     rbind (or_panic (slice bytes i j))
       (\<lambda>bs. case try_from bs of None \<Rightarrow> Err InvalidPubkey | Some k \<Rightarrow> Ok k)"

text \<open>\<open>stored_size as usize > bytes.len()\<close>: \<open>usize\<close> has 64 bits, lengths are exact.\<close>

definition parse_account_record ::
  "(byte list \<Rightarrow> 'pk option) \<Rightarrow> u64 \<Rightarrow> u64 \<Rightarrow> byte list \<Rightarrow> (parse_error, 'pk parsed_account) result" where
  "parse_account_record try_from file_id offset bytes =
     rbind (ensure (\<not> length bytes < 8) MetadataOverflow) (\<lambda>_.
     rbind (le_at bytes 0 8) (\<lambda>stored_size.
     rbind (ensure (\<not> unat (stored_size :: u64) > length bytes) (InvalidStoredSize stored_size)) (\<lambda>_.
     rbind (ensure (\<not> length bytes < 97) MetadataOverflow) (\<lambda>_.
     rbind (pubkey_at try_from bytes 8 40) (\<lambda>pubkey.
     rbind (pubkey_at try_from bytes 40 72) (\<lambda>owner.
     rbind (byte_at bytes 72) (\<lambda>executable.
     rbind (le_at bytes 73 81) (\<lambda>rent_epoch.
     rbind (le_at bytes 81 89) (\<lambda>lamports.
     rbind (le_at bytes 89 97) (\<lambda>slot.
     rbind (or_panic (slice bytes 97 (length bytes))) (\<lambda>data.
     Ok \<lparr> pa_pubkey = pubkey, pa_owner = owner, pa_lamports = lamports, pa_executable = executable \<noteq> 0,
          pa_rent_epoch = rent_epoch, pa_slot = slot, pa_write_version = 0, pa_data = data,
          pa_location = \<lparr> loc_file_id = file_id, loc_offset = offset, loc_stored_size = ucast stored_size,
            loc_data_offset = 97, loc_data_len = of_nat (length data), loc_slot = slot,
            loc_write_version = 0, loc_storage_type = Base \<rparr> \<rparr>)))))))))))"

definition get_account_data_size :: "byte list \<Rightarrow> (parse_error, u64) result" where
  "get_account_data_size bytes =
     rbind (ensure (\<not> length bytes < 97) MetadataOverflow) (\<lambda>_.
     rbind (le_at bytes 0 8) (\<lambda>stored_size.
     rbind (ensure (\<not> unat (stored_size :: u64) > length bytes) (InvalidStoredSize stored_size)) (\<lambda>_.
     Ok (stored_size - 97))))"

definition get_account_owner :: "(byte list \<Rightarrow> 'pk option) \<Rightarrow> byte list \<Rightarrow> (parse_error, 'pk) result" where
  "get_account_owner try_from bytes =
     rbind (ensure (\<not> length bytes < 72) MetadataOverflow) (\<lambda>_. pubkey_at try_from bytes 40 72)"

definition get_account_pubkey :: "(byte list \<Rightarrow> 'pk option) \<Rightarrow> byte list \<Rightarrow> (parse_error, 'pk) result" where
  "get_account_pubkey try_from bytes =
     rbind (ensure (\<not> length bytes < 40) MetadataOverflow) (\<lambda>_. pubkey_at try_from bytes 8 40)"

definition validate_account_record :: "byte list \<Rightarrow> (parse_error, unit) result" where
  "validate_account_record bytes =
     rbind (ensure (\<not> length bytes < 8) MetadataOverflow) (\<lambda>_.
     rbind (le_at bytes 0 8) (\<lambda>stored_size.
     ensure (\<not> unat (stored_size :: u64) > length bytes) (InvalidStoredSize stored_size)))"

definition align_to_8 :: "u64 \<Rightarrow> u64" where
  "align_to_8 offset = (offset + 7) AND NOT 7"

definition padding_needed :: "nat \<Rightarrow> nat \<Rightarrow> nat" where
  "padding_needed sz alignment =
     (let remainder = sz mod alignment in if remainder = 0 then 0 else alignment - remainder)"


section \<open>The file scanner\<close>

definition APPENDVEC_MAGIC :: u32 where
  "APPENDVEC_MAGIC = 0xC0000000"

definition APPENDVEC_HEADER_SIZE :: nat where
  "APPENDVEC_HEADER_SIZE = 8"

record appendvec_scanner =
  av_has_header :: bool
  av_header_size :: nat

definition appendvec_new :: appendvec_scanner where
  "appendvec_new = \<lparr> av_has_header = False, av_header_size = 0 \<rparr>"

definition with_header :: "appendvec_scanner \<Rightarrow> appendvec_scanner" where
  "with_header s = s \<lparr> av_has_header := True, av_header_size := APPENDVEC_HEADER_SIZE \<rparr>"

definition detect_header :: "byte list \<Rightarrow> bool" where
  "detect_header bytes =
     (if length bytes < APPENDVEC_HEADER_SIZE then False
      else (of_le_bytes (take 4 bytes) :: u32) = APPENDVEC_MAGIC \<and>
           (of_le_bytes (take 4 (drop 4 bytes)) :: u32) = 0)"

text \<open>
  The \<open>while\<close> loop of \<open>scan_file\<close>, with fuel: \<open>None\<close> when the fuel runs out, \<open>Some Panic\<close> for a
  slice out of range.  Unparsable records are skipped.  One unit of fuel per byte of the file
  and one more suffice (shown below).
\<close>

fun scan_loop ::
  "nat \<Rightarrow> (byte list \<Rightarrow> 'pk option) \<Rightarrow> u64 \<Rightarrow> byte list \<Rightarrow> u64 \<Rightarrow>
     (unit, 'pk parsed_account list) result option" where
  "scan_loop 0 try_from file_id bytes offset = None"
| "scan_loop (Suc fuel) try_from file_id bytes offset =
     (let len = (of_nat (length bytes) :: u64) in
      if \<not> offset < len then Some (Ok [])
      else if offset + 8 > len then Some (Ok [])
      else case le_at bytes (unat offset) (unat (offset + 8)) of
        Err e \<Rightarrow> Some (Err e)
      | Panic \<Rightarrow> Some Panic
      | Ok stored_size \<Rightarrow>
          if stored_size = 0 \<or> stored_size > len - offset then Some (Ok [])
          else case slice bytes (unat offset) (unat (offset + stored_size)) of
            None \<Rightarrow> Some Panic
          | Some record_bytes \<Rightarrow>
              (case parse_account_record try_from file_id offset record_bytes of
                 Panic \<Rightarrow> Some Panic
               | Err e \<Rightarrow> scan_loop fuel try_from file_id bytes (offset + align_to_8 stored_size)
               | Ok account \<Rightarrow>
                   map_option (\<lambda>r. rbind r (\<lambda>accounts. Ok (account # accounts)))
                     (scan_loop fuel try_from file_id bytes (offset + align_to_8 stored_size))))"

definition scan_file ::
  "nat \<Rightarrow> appendvec_scanner \<Rightarrow> (byte list \<Rightarrow> 'pk option) \<Rightarrow> u64 \<Rightarrow> byte list \<Rightarrow>
     (unit, 'pk parsed_account list) result option" where
  "scan_file fuel s try_from file_id bytes =
     scan_loop fuel try_from file_id bytes (if av_has_header s then of_nat (av_header_size s) else 0)"

definition get_account_at_offset ::
  "appendvec_scanner \<Rightarrow> (byte list \<Rightarrow> 'pk option) \<Rightarrow> u64 \<Rightarrow> u64 \<Rightarrow> byte list \<Rightarrow> (parse_error, 'pk parsed_account) result" where
  "get_account_at_offset s try_from file_id offset bytes =
     (let actual_offset = (if av_has_header s then offset + of_nat (av_header_size s) else offset) in
      rbind (ensure (\<not> actual_offset + 8 > of_nat (length bytes)) MetadataOverflow) (\<lambda>_.
      rbind (le_at bytes (unat actual_offset) (unat (actual_offset + 8))) (\<lambda>stored_size.
      rbind (or_panic (slice bytes (unat actual_offset) (unat (actual_offset + stored_size)))) (\<lambda>record_bytes.
      parse_account_record try_from file_id actual_offset record_bytes))))"

definition locate_account ::
  "nat \<Rightarrow> (byte list \<Rightarrow> 'pk option) \<Rightarrow> u64 \<Rightarrow> byte list \<Rightarrow> 'pk \<Rightarrow> (unit, account_location option) result option" where
  "locate_account fuel try_from file_id bytes target_pubkey =
     map_option (\<lambda>r. rbind r (\<lambda>accounts.
         Ok (map_option pa_location (List.find (\<lambda>a. pa_pubkey a = target_pubkey) accounts))))
       (scan_file fuel appendvec_new try_from file_id bytes)"


section \<open>The memory-mapped reader\<close>

record mmap_account_file =
  mf_file_id :: u64
  mf_mmap :: "byte list"
  mf_file_size :: nat

datatype mmap_error = MmapIo | FileTooSmall nat nat | InvalidHeader u64 | OutOfBounds u64 nat nat

text \<open>\<open>contents\<close> is what the file system has, \<open>None\<close> when opening or mapping fails.\<close>

definition mmap_open :: "u64 \<Rightarrow> byte list option \<Rightarrow> (mmap_error, mmap_account_file) result" where
  "mmap_open file_id contents =
     (case contents of None \<Rightarrow> Err MmapIo
      | Some bs \<Rightarrow> Ok \<lparr> mf_file_id = file_id, mf_mmap = bs, mf_file_size = length bs \<rparr>)"

definition read_bytes :: "mmap_account_file \<Rightarrow> account_location \<Rightarrow> (mmap_error, byte list) result" where
  "read_bytes f l =
     (let start = loc_offset l; stop = start + ucast (loc_stored_size l) in
      rbind (ensure (\<not> unat stop > mf_file_size f)
               (OutOfBounds (loc_offset l) (unat (loc_stored_size l)) (mf_file_size f))) (\<lambda>_.
      or_panic (slice (mf_mmap f) (unat start) (unat stop))))"

definition get_slice :: "mmap_account_file \<Rightarrow> account_location \<Rightarrow> (mmap_error, byte list) result" where
  "get_slice f l =
     (let start = loc_offset l; stop = start + ucast (loc_stored_size l) in
      rbind (ensure (\<not> unat stop > mf_file_size f)
               (OutOfBounds (loc_offset l) (unat (loc_stored_size l)) (mf_file_size f))) (\<lambda>_.
      or_panic (slice (mf_mmap f) (unat start) (unat stop))))"

definition get_account_data :: "mmap_account_file \<Rightarrow> account_location \<Rightarrow> (mmap_error, byte list) result" where
  "get_account_data f l =
     (let start = loc_offset l + ucast (loc_data_offset l); stop = start + ucast (loc_data_len l) in
      rbind (ensure (\<not> unat stop > mf_file_size f)
               (OutOfBounds (loc_offset l + ucast (loc_data_offset l)) (unat (loc_data_len l)) (mf_file_size f))) (\<lambda>_.
      or_panic (slice (mf_mmap f) (unat start) (unat stop))))"

definition is_valid_location :: "mmap_account_file \<Rightarrow> account_location \<Rightarrow> bool" where
  "is_valid_location f l \<longleftrightarrow> unat (loc_offset l + ucast (loc_stored_size l)) \<le> mf_file_size f"

definition read_batch ::
  "mmap_account_file list \<Rightarrow> (u64 \<times> account_location) list \<Rightarrow> (mmap_error, byte list) result list" where
  "read_batch files locations =
     map (\<lambda>(file_id, location).
       case List.find (\<lambda>f. mf_file_id f = file_id) files of
         Some f \<Rightarrow> read_bytes f location
       | None \<Rightarrow> Err MmapIo) locations"


section \<open>The directory scanner\<close>

definition parse_file_id :: "string \<Rightarrow> u64 option" where
  "parse_file_id filename =
     (let parts = split_on CHR ''.'' filename in
      if length parts \<ge> 2 then parse_u64 (hd parts) else None)"

datatype scanner_error =
    ScanIo
  | ScanMmap mmap_error
  | DirectoryNotFound
  | NoAccountFiles

text \<open>
  A directory is its entries, each a file name, whether it is a file, and the contents (\<open>None\<close>
  when it cannot be opened).
\<close>

record dir_entry =
  de_name :: string
  de_is_file :: bool
  de_contents :: "byte list option"

definition discover_account_files :: "dir_entry list option \<Rightarrow> (scanner_error, (u64 \<times> dir_entry) list) result" where
  "discover_account_files dir =
     (case dir of None \<Rightarrow> Err DirectoryNotFound
      | Some entries \<Rightarrow>
          Ok (sort_key fst (concat (map (\<lambda>e.
            if de_is_file e
            then (case parse_file_id (de_name e) of Some file_id \<Rightarrow> [(file_id, e)] | None \<Rightarrow> [])
            else []) entries))))"

record 'pk file_scan_result =
  fr_file_id :: u64
  fr_accounts :: "'pk parsed_account list"
  fr_file_size :: nat

record 'pk scan_result =
  sc_accounts :: "'pk parsed_account list"
  sc_file_results :: "'pk file_scan_result list"
  sc_files_scanned :: nat
  sc_total_accounts :: nat
  sc_total_bytes :: u64

record scanner_config =
  scf_accounts_path :: string
  scf_num_threads :: nat
  scf_detect_appendvec :: bool
  scf_validate_accounts :: bool
  scf_progress_interval :: nat

definition scanner_config_default :: "nat \<Rightarrow> scanner_config" where
  "scanner_config_default num_cpus =
     \<lparr> scf_accounts_path = ''/mnt/accounts'', scf_num_threads = num_cpus, scf_detect_appendvec = False,
       scf_validate_accounts = True, scf_progress_interval = 10 \<rparr>"

text \<open>The cache of mapped files of the scanner.\<close>

type_synonym mmap_files = "(u64, mmap_account_file) hmap"

definition scanner_scan_file ::
  "(byte list \<Rightarrow> 'pk option) \<Rightarrow> u64 \<Rightarrow> dir_entry \<Rightarrow> mmap_files \<Rightarrow>
     (scanner_error, 'pk file_scan_result) result \<times> mmap_files" where
  "scanner_scan_file try_from file_id entry cache =
     (case mmap_open file_id (de_contents entry) of
        Err e \<Rightarrow> (Err (ScanMmap e), cache)
      | Panic \<Rightarrow> (Panic, cache)
      | Ok f \<Rightarrow>
          (case scan_file (length (mf_mmap f) + 1) appendvec_new try_from file_id (mf_mmap f) of
             Some (Ok accounts) \<Rightarrow>
               (Ok \<lparr> fr_file_id = file_id, fr_accounts = accounts, fr_file_size = mf_file_size f \<rparr>,
                hm_insert file_id f cache)
           | _ \<Rightarrow> (Panic, hm_insert file_id f cache)))"

primrec scan_files ::
  "(byte list \<Rightarrow> 'pk option) \<Rightarrow> (u64 \<times> dir_entry) list \<Rightarrow> mmap_files \<Rightarrow>
     (scanner_error, 'pk file_scan_result list) result \<times> mmap_files" where
  "scan_files try_from [] cache = (Ok [], cache)"
| "scan_files try_from (p # ps) cache =
     (case scanner_scan_file try_from (fst p) (snd p) cache of
        (Panic, cache1) \<Rightarrow> (Panic, cache1)
      | (Err e, cache1) \<Rightarrow> scan_files try_from ps cache1
      | (Ok r, cache1) \<Rightarrow>
          (case scan_files try_from ps cache1 of
             (Ok rs, cache2) \<Rightarrow> (Ok (r # rs), cache2)
           | (other, cache2) \<Rightarrow> (other, cache2)))"

text \<open>
  The files are scanned in parallel and collected in their order.  The progress report takes the
  index modulo the configured interval, which panics for an interval of zero.
\<close>

definition scanner_scan ::
  "scanner_config \<Rightarrow> (byte list \<Rightarrow> 'pk option) \<Rightarrow> dir_entry list option \<Rightarrow> mmap_files \<Rightarrow>
     (scanner_error, 'pk scan_result) result \<times> mmap_files" where
  "scanner_scan config try_from dir cache =
     (case discover_account_files dir of
        Err e \<Rightarrow> (Err e, cache)
      | Panic \<Rightarrow> (Panic, cache)
      | Ok files \<Rightarrow>
          if files = [] then (Err NoAccountFiles, cache)
          else if scf_progress_interval config = 0 then (Panic, cache)
          else case scan_files try_from files cache of
            (Err e, cache1) \<Rightarrow> (Err e, cache1)
          | (Panic, cache1) \<Rightarrow> (Panic, cache1)
          | (Ok file_results, cache1) \<Rightarrow>
              let accounts = concat (map fr_accounts file_results) in
              (Ok \<lparr> sc_accounts = accounts, sc_file_results = file_results,
                    sc_files_scanned = length file_results, sc_total_accounts = length accounts,
                    sc_total_bytes = sum_list (map (\<lambda>r. of_nat (fr_file_size r)) file_results) \<rparr>, cache1))"

definition get_mmap_file :: "mmap_files \<Rightarrow> u64 \<Rightarrow> mmap_account_file option" where
  "get_mmap_file cache file_id = hm_get cache file_id"

definition clear_mmap_cache :: "mmap_files \<Rightarrow> mmap_files" where
  "clear_mmap_cache cache = []"

text \<open>Scanning one file without a scanner; an error keeps only the kind of I/O error.\<close>

datatype io_error = Io_Failed | Unexpected_Eof | Invalid_Data

fun mmap_to_io_error :: "mmap_error \<Rightarrow> io_error" where
  "mmap_to_io_error MmapIo = Io_Failed"
| "mmap_to_io_error (FileTooSmall expected actual) = Unexpected_Eof"
| "mmap_to_io_error (InvalidHeader offset) = Invalid_Data"
| "mmap_to_io_error (OutOfBounds offset len file_size) = Unexpected_Eof"

definition scan_account_file ::
  "(byte list \<Rightarrow> 'pk option) \<Rightarrow> u64 \<Rightarrow> byte list option \<Rightarrow> (io_error, 'pk parsed_account list) result" where
  "scan_account_file try_from file_id contents =
     (case mmap_open file_id contents of
        Err e \<Rightarrow> Err (mmap_to_io_error e)
      | Panic \<Rightarrow> Panic
      | Ok mmap_file \<Rightarrow>
          (case scan_file (length (mf_mmap mmap_file) + 1) appendvec_new try_from file_id (mf_mmap mmap_file) of
             Some (Ok accounts) \<Rightarrow> Ok accounts
           | _ \<Rightarrow> Panic))"

definition build_pubkey_dictionary :: "'pk parsed_account list \<Rightarrow> 'pk pubkey_dictionary" where
  "build_pubkey_dictionary accounts = fold (\<lambda>a d. snd (pd_insert (pa_pubkey a) d)) accounts pd_new"

definition build_base_locator :: "'pk parsed_account list \<Rightarrow> ('pk, account_location) hmap" where
  "build_base_locator accounts = fold (\<lambda>a m. hm_insert (pa_pubkey a) (pa_location a) m) accounts []"


section \<open>Lemmas on parsing\<close>


lemma and_not_7: "(y :: u64) AND NOT 7 = push_bit 3 (drop_bit 3 y)"
proof -
  have "(7 :: u64) = mask 3" by (simp add: mask_numeral)
  then show ?thesis by (simp add: bit_eq_iff bit_simps) (auto simp: bit_simps)
qed

lemma unat_align_to_8:
  assumes "unat s + 7 < 2 ^ 64"
  shows "unat (align_to_8 s) = (unat s + 7) div 8 * 8"
proof -
  have 7: "unat (s + 7) = unat s + 7" using assms by (subst unat_word_add_exact) simp_all
  have "unat (drop_bit 3 (s + 7)) = (unat s + 7) div 8"
    by (simp add: drop_bit_eq_div unat_div 7)
  moreover have "push_bit 3 (drop_bit 3 (s + 7)) = drop_bit 3 (s + 7) * 8"
    by (simp add: push_bit_eq_mult)
  moreover have "(unat s + 7) div 8 * 8 < 2 ^ 64" using assms by simp
  ultimately show ?thesis
    unfolding align_to_8_def and_not_7 by (simp add: unat_word_ariths)
qed

lemma padding_aligns: "n + padding_needed n 8 = (n + 7) div 8 * 8"
  unfolding padding_needed_def Let_def by presburger

lemma align_padding:
  assumes "unat s + 7 < 2 ^ 64"
  shows "unat (align_to_8 s) = unat s + padding_needed (unat s) 8"
  using unat_align_to_8 [OF assms] padding_aligns by simp

lemma pubkey_at_Panic: "pubkey_at tf bs i j = Panic \<longleftrightarrow> slice bs i j = None"
  by (auto simp: pubkey_at_def res_simps split: option.splits)

lemma parse_not_Panic: "parse_account_record tf fid off bs \<noteq> Panic"
proof (cases "length bs < 97")
  case True
  then show ?thesis
    by (cases "length bs < 8") (auto simp: parse_account_record_def rbind_eq_Panic ensure_eq le_at_eq_Ok)
next
  case False
  then show ?thesis
    by (auto simp: parse_account_record_def rbind_eq_Panic ensure_eq le_at_eq_Ok pubkey_at_Panic
        byte_at_def slice_eq_None or_panic_eq)
qed


section \<open>The documented record layout\<close>

record 'pk stored_account =
  ra_pubkey :: 'pk
  ra_owner :: 'pk
  ra_executable :: bool
  ra_rent_epoch :: u64
  ra_lamports :: u64
  ra_slot :: u64
  ra_data :: "byte list"

definition record_bytes :: "('pk \<Rightarrow> byte list) \<Rightarrow> 'pk stored_account \<Rightarrow> byte list" where
  "record_bytes to_bytes a =
     le_bytes 8 (of_nat (97 + length (ra_data a)) :: u64) @ to_bytes (ra_pubkey a) @ to_bytes (ra_owner a) @
     [of_bool (ra_executable a)] @ le_bytes 8 (ra_rent_epoch a) @ le_bytes 8 (ra_lamports a) @
     le_bytes 8 (ra_slot a) @ ra_data a"

definition record_size :: "'pk stored_account \<Rightarrow> nat" where
  "record_size a = 97 + length (ra_data a)"

definition padded_size :: "'pk stored_account \<Rightarrow> nat" where
  "padded_size a = record_size a + padding_needed (record_size a) 8"

definition padded_record :: "('pk \<Rightarrow> byte list) \<Rightarrow> 'pk stored_account \<Rightarrow> byte list" where
  "padded_record to_bytes a = record_bytes to_bytes a @ replicate (padding_needed (record_size a) 8) 0"

definition parsed_of :: "u64 \<Rightarrow> u64 \<Rightarrow> 'pk stored_account \<Rightarrow> 'pk parsed_account" where
  "parsed_of file_id offset a =
     \<lparr> pa_pubkey = ra_pubkey a, pa_owner = ra_owner a, pa_lamports = ra_lamports a,
       pa_executable = ra_executable a, pa_rent_epoch = ra_rent_epoch a, pa_slot = ra_slot a,
       pa_write_version = 0, pa_data = ra_data a,
       pa_location = new_base file_id offset (of_nat (record_size a)) 97 (of_nat (length (ra_data a))) (ra_slot a) 0 \<rparr>"

primrec parsed_list :: "u64 \<Rightarrow> nat \<Rightarrow> 'pk stored_account list \<Rightarrow> 'pk parsed_account list" where
  "parsed_list file_id off [] = []"
| "parsed_list file_id off (a # as) = parsed_of file_id (of_nat off) a # parsed_list file_id (off + padded_size a) as"

lemma le_at_start: "LENGTH('w::len) = 8 * n \<Longrightarrow> le_at (le_bytes n w @ ys) 0 n = Ok (w :: 'w word)"
  using le_at_append [of 0 "[]" n n w ys] by simp

context pubkey_codec
begin

lemma length_record_bytes: "length (record_bytes to_bytes a) = record_size a"
  by (simp add: record_bytes_def record_size_def length_to_bytes)

lemma length_padded_record: "length (padded_record to_bytes a) = padded_size a"
  by (simp add: padded_record_def padded_size_def length_record_bytes)

lemma pubkey_at_append:
  assumes "i = length xs" "j = i + 32"
  shows "pubkey_at try_from (xs @ to_bytes k @ ys) i j = Ok k"
  using slice_exactI [of i xs j "to_bytes k" ys] assms
  by (simp add: pubkey_at_def length_to_bytes try_from_to_bytes)

lemma parse_record_bytes:
  assumes "record_size a < 2 ^ 64"
  shows "parse_account_record try_from fid off (record_bytes to_bytes a) = Ok (parsed_of fid off a)"
proof -
  define sz where "sz = (of_nat (record_size a) :: u64)"
  define p q r s t u where parts: "p = le_bytes 8 sz" "q = to_bytes (ra_pubkey a)" "r = to_bytes (ra_owner a)"
    "s = le_bytes 8 (ra_rent_epoch a)" "t = le_bytes 8 (ra_lamports a)" "u = le_bytes 8 (ra_slot a)"
  define x where "x = (of_bool (ra_executable a) :: byte)"
  have x: "x \<noteq> 0 \<longleftrightarrow> ra_executable a" by (simp add: x_def)
  have bs: "record_bytes to_bytes a = p @ q @ r @ [x] @ s @ t @ u @ ra_data a"
    by (simp add: record_bytes_def parts sz_def record_size_def x_def)
  have sz: "unat sz = record_size a" using assms by (simp add: sz_def unat_of_nat_eq)
  have len: "length (record_bytes to_bytes a) = record_size a" by (rule length_record_bytes)
  have big: "\<not> record_size a < 97" "\<not> record_size a < 8" by (simp_all add: record_size_def)
  have l: "length p = 8" "length q = 32" "length r = 32" "length s = 8" "length t = 8" "length u = 8"
    by (simp_all add: parts length_to_bytes)
  have "le_at (record_bytes to_bytes a) 0 8 = (Ok sz :: (parse_error, u64) result)"
    unfolding bs parts by (rule le_at_start) simp
  moreover have "pubkey_at try_from (record_bytes to_bytes a) 8 40 = Ok (ra_pubkey a)"
    unfolding bs parts(2) by (rule pubkey_at_append) (simp_all add: l)
  moreover have "pubkey_at try_from (record_bytes to_bytes a) 40 72 = Ok (ra_owner a)"
    using pubkey_at_append [of 40 "p @ q" 72 "ra_owner a"] unfolding bs parts(3) by (simp add: l)
  moreover have "byte_at (record_bytes to_bytes a) 72 = (Ok x :: (parse_error, byte) result)"
    by (simp add: byte_at_def bs l nth_append)
  moreover have "le_at (record_bytes to_bytes a) 73 81 = (Ok (ra_rent_epoch a) :: (parse_error, u64) result)"
    using le_at_append [of 73 "p @ q @ r @ [x]" 81 8 "ra_rent_epoch a"] unfolding bs parts(4) by (simp add: l)
  moreover have "le_at (record_bytes to_bytes a) 81 89 = (Ok (ra_lamports a) :: (parse_error, u64) result)"
    using le_at_append [of 81 "p @ q @ r @ [x] @ s" 89 8 "ra_lamports a"] unfolding bs parts(5) by (simp add: l)
  moreover have "le_at (record_bytes to_bytes a) 89 97 = (Ok (ra_slot a) :: (parse_error, u64) result)"
    using le_at_append [of 89 "p @ q @ r @ [x] @ s @ t" 97 8 "ra_slot a"] unfolding bs parts(6) by (simp add: l)
  moreover have "slice (record_bytes to_bytes a) 97 (length (record_bytes to_bytes a)) = Some (ra_data a)"
    unfolding bs using slice_exactI [of 97 "p @ q @ r @ [x] @ s @ t @ u" _ "ra_data a" "[]"] by (simp add: l)
  moreover have "(ucast sz :: u32) = of_nat (record_size a)"
    by (simp add: sz_def)
  ultimately show ?thesis
    by (simp add: parse_account_record_def len sz big x parsed_of_def new_base_def)
qed

end


section \<open>Scanning\<close>

declare scan_loop.simps(2) [simp del]

text \<open>One iteration of the loop, in natural numbers.\<close>

lemma scan_loop_step:
  assumes len: "length bytes < 2 ^ 63" and off: "unat off < length bytes"
  shows "scan_loop (Suc fuel) tf fid bytes off =
    (if unat off + 8 > length bytes then Some (Ok [])
     else let sz = of_le_bytes (take 8 (drop (unat off) bytes)) :: u64 in
       if sz = 0 \<or> unat sz > length bytes - unat off then Some (Ok [])
       else let nxt = scan_loop fuel tf fid bytes (off + align_to_8 sz) in
         case parse_account_record tf fid off (take (unat sz) (drop (unat off) bytes)) of
           Panic \<Rightarrow> Some Panic
         | Err e \<Rightarrow> nxt
         | Ok account \<Rightarrow> map_option (\<lambda>r. rbind r (\<lambda>accounts. Ok (account # accounts))) nxt)"
proof -
  let ?len = "of_nat (length bytes) :: u64"
  have ulen: "unat ?len = length bytes" using len by (simp add: unat_of_nat_eq)
  have u8: "unat (off + 8) = unat off + 8" using len off by (subst unat_word_add_exact) simp_all
  have lt: "off < ?len" using off ulen by (simp add: word_less_nat_alt)
  have sub: "unat (?len - off) = length bytes - unat off"
    using lt ulen by (simp add: unat_sub word_le_nat_alt word_less_nat_alt)
  define sz where "sz = (of_le_bytes (take 8 (drop (unat off) bytes)) :: u64)"
  have gt: "off + 8 > ?len \<longleftrightarrow> unat off + 8 > length bytes" by (simp add: word_less_nat_alt ulen u8)
  have ge: "sz > ?len - off \<longleftrightarrow> unat sz > length bytes - unat off" by (simp add: word_less_nat_alt sub)
  show ?thesis
  proof (cases "unat off + 8 > length bytes \<or> sz = 0 \<or> unat sz > length bytes - unat off")
    case True
    then show ?thesis
      using lt gt ge by (auto simp: scan_loop.simps(2) Let_def le_at_eq_Ok u8 sz_def [symmetric])
  next
    case False
    have "length bytes < 9223372036854775808" using len by simp
    then have "unat off + unat sz < 18446744073709551616" using False off by linarith
    then have usz: "unat (off + sz) = unat off + unat sz"
      by (subst unat_word_add_exact) simp_all
    have "unat off + unat sz \<le> length bytes" using False off by linarith
    then have "slice bytes (unat off) (unat (off + sz)) = Some (take (unat sz) (drop (unat off) bytes))"
      by (subst slice_in_range) (simp_all add: usz)
    then show ?thesis
      using False lt gt ge by (simp add: scan_loop.simps(2) Let_def le_at_eq_Ok u8 sz_def [symmetric])
  qed
qed

lemma scan_loop_done: "length bytes < 2 ^ 63 \<Longrightarrow> length bytes \<le> unat off \<Longrightarrow> scan_loop (Suc fuel) tf fid bytes off = Some (Ok [])"
  by (simp add: scan_loop.simps(2) word_less_nat_alt unat_of_nat_eq)

lemma unat_next_offset:
  assumes "length bytes < 2 ^ 63" "unat off < length bytes" "unat sz \<le> length bytes - unat off"
  shows "unat (off + align_to_8 sz) = unat off + (unat sz + padding_needed (unat sz) 8)"
proof -
  have "padding_needed (unat sz) 8 \<le> 8" by (auto simp: padding_needed_def Let_def)
  moreover have "unat (align_to_8 sz) = unat sz + padding_needed (unat sz) 8"
    using assms by (intro align_padding) simp
  ultimately show ?thesis using assms by (subst unat_word_add_exact) simp_all
qed

text \<open>One unit of fuel per remaining byte and one more: the loop ends, without a panic.\<close>

lemma scan_loop_total:
  assumes "length bytes < 2 ^ 63" "length bytes - unat off < fuel"
  shows "\<exists>as. scan_loop fuel tf fid bytes off = Some (Ok as)"
  using assms(2)
proof (induction fuel arbitrary: off)
  case (Suc fuel)
  show ?case
  proof (cases "unat off < length bytes")
    case True
    let ?sz = "of_le_bytes (take 8 (drop (unat off) bytes)) :: u64"
    show ?thesis
    proof (cases "unat off + 8 > length bytes \<or> ?sz = 0 \<or> unat ?sz > length bytes - unat off")
      case False
      have "unat ?sz \<noteq> 0" using False unat_eq_zero by blast
      then have "length bytes - unat (off + align_to_8 ?sz) < fuel"
        using unat_next_offset [OF assms(1) True, of ?sz] False Suc.prems True by linarith
      then obtain as where "scan_loop fuel tf fid bytes (off + align_to_8 ?sz) = Some (Ok as)"
        using Suc.IH by blast
      then show ?thesis
        using False parse_not_Panic [of tf fid off]
        unfolding scan_loop_step [OF assms(1) True] by (auto simp: Let_def split: result.split)
    next
      case stop: True
      then show ?thesis unfolding scan_loop_step [OF assms(1) True] by (auto simp: Let_def)
    qed
  next
    case False
    then show ?thesis using scan_loop_done [OF assms(1), of off fuel tf fid] by simp
  qed
qed simp

context pubkey_codec
begin

lemma record_prefix:
  shows "(of_le_bytes (take 8 (padded_record to_bytes a @ rest)) :: u64) = of_nat (record_size a)"
    and "take (record_size a) (padded_record to_bytes a @ rest) = record_bytes to_bytes a"
proof -
  show "(of_le_bytes (take 8 (padded_record to_bytes a @ rest)) :: u64) = of_nat (record_size a)"
    by (simp add: padded_record_def record_bytes_def record_size_def codec_simps del: of_nat_add)
  show "take (record_size a) (padded_record to_bytes a @ rest) = record_bytes to_bytes a"
    by (simp add: padded_record_def length_record_bytes)
qed

lemma scan_loop_records:
  assumes "length (pre @ concat (map (padded_record to_bytes) as) @ replicate z 0) < 2 ^ 63" "length as < fuel"
  shows "scan_loop fuel try_from fid (pre @ concat (map (padded_record to_bytes) as) @ replicate z 0) (of_nat (length pre))
    = Some (Ok (parsed_list fid (length pre) as))"
  using assms
proof (induction as arbitrary: pre fuel)
  case Nil
  then obtain k where fuel: "fuel = Suc k" by (cases fuel) auto
  let ?b = "pre @ replicate z 0 :: byte list"
  have pre: "unat (of_nat (length pre) :: u64) = length pre" using Nil.prems by (simp add: unat_of_nat_eq)
  have zero: "of_le_bytes (replicate n 0) = (0 :: u64)" for n by (induction n) simp_all
  show ?case
  proof (cases "z = 0")
    case True
    then show ?thesis using scan_loop_done [of ?b "of_nat (length pre)"] Nil.prems pre by (simp add: fuel)
  next
    case False
    then have "unat (of_nat (length pre) :: u64) < length ?b" using pre by simp
    then show ?thesis
      using scan_loop_step [of ?b "of_nat (length pre)" k try_from fid] Nil.prems pre
      by (simp add: fuel Let_def take_replicate zero)
  qed
next
  case (Cons a as)
  then obtain k where fuel: "fuel = Suc k" by (cases fuel) auto
  let ?rest = "concat (map (padded_record to_bytes) as) @ replicate z 0"
  let ?b = "pre @ padded_record to_bytes a @ ?rest" and ?sz = "of_nat (record_size a) :: u64"
  have len: "length ?b < 2 ^ 63" using Cons.prems by simp
  have pre: "unat (of_nat (length pre) :: u64) = length pre" using len by (simp add: unat_of_nat_eq)
  have lp: "length (padded_record to_bytes a) = record_size a + padding_needed (record_size a) 8"
    using length_padded_record [of a] by (simp add: padded_size_def)
  have sz: "unat ?sz = record_size a" using len lp by (simp add: unat_of_nat_eq)
  have pos: "97 \<le> record_size a" by (simp add: record_size_def)
  have lt: "unat (of_nat (length pre) :: u64) < length ?b" using pre lp pos by simp
  have parse: "parse_account_record try_from fid (of_nat (length pre)) (record_bytes to_bytes a)
      = Ok (parsed_of fid (of_nat (length pre)) a)"
    using len lp by (intro parse_record_bytes) simp
  have "unat (of_nat (length pre) + align_to_8 ?sz) = length pre + padded_size a"
    using unat_next_offset [OF len lt, of ?sz] pre sz lp by (simp add: padded_size_def)
  then have nxt: "of_nat (length pre) + align_to_8 ?sz = of_nat (length (pre @ padded_record to_bytes a))"
    using len lp unat_eq_of_nat [of "length pre + padded_size a" "of_nat (length pre) + align_to_8 ?sz"]
    by (simp add: length_padded_record padded_size_def del: of_nat_add)
  have IH: "scan_loop k try_from fid ((pre @ padded_record to_bytes a) @ ?rest) (of_nat (length (pre @ padded_record to_bytes a)))
      = Some (Ok (parsed_list fid (length (pre @ padded_record to_bytes a)) as))"
    using Cons.prems fuel by (intro Cons.IH) simp_all
  show ?case
    using scan_loop_step [OF len lt, of k try_from fid] record_prefix [of a ?rest] pre sz pos lp IH parse nxt
    by (simp add: fuel Let_def length_padded_record word_unat_eq_iff [of _ 0] del: of_nat_add)
qed

end



section \<open>Lemmas on the mapped reader\<close>

definition mmap_wf :: "mmap_account_file \<Rightarrow> bool" where
  "mmap_wf f \<longleftrightarrow> mf_file_size f = length (mf_mmap f) \<and> length (mf_mmap f) < 2 ^ 63"

lemma mmap_open_wf: "mmap_open fid (Some bs) = Ok f \<Longrightarrow> length bs < 2 ^ 63 \<Longrightarrow> mmap_wf f"
  by (auto simp: mmap_open_def mmap_wf_def)

lemma read_bytes_no_wrap:
  assumes "mmap_wf f" "unat (loc_offset l) + unat (loc_stored_size l) < 2 ^ 64"
  shows "read_bytes f l =
    (if unat (loc_offset l) + unat (loc_stored_size l) \<le> mf_file_size f
     then Ok (take (unat (loc_stored_size l)) (drop (unat (loc_offset l)) (mf_mmap f)))
     else Err (OutOfBounds (loc_offset l) (unat (loc_stored_size l)) (mf_file_size f)))"
proof -
  have "unat (loc_offset l + ucast (loc_stored_size l)) = unat (loc_offset l) + unat (loc_stored_size l)"
    using assms(2) by (subst unat_word_add_exact) simp_all
  then show ?thesis
    using assms(1) by (simp add: read_bytes_def Let_def mmap_wf_def slice_in_range)
qed

lemma get_account_data_no_wrap:
  assumes "mmap_wf f"
    and "unat (loc_offset l) + unat (loc_data_offset l) + unat (loc_data_len l) \<le> mf_file_size f"
  shows "get_account_data f l =
    Ok (take (unat (loc_data_len l)) (drop (unat (loc_offset l) + unat (loc_data_offset l)) (mf_mmap f)))"
proof -
  have "mf_file_size f < 2 ^ 64" using assms(1) by (simp add: mmap_wf_def)
  then have b: "unat (loc_offset l) + unat (loc_data_offset l) + unat (loc_data_len l) < 2 ^ 64"
    using assms(2) by simp
  have 1: "unat (loc_offset l + ucast (loc_data_offset l)) = unat (loc_offset l) + unat (loc_data_offset l)"
    using b by (subst unat_word_add_exact) simp_all
  have "unat (loc_offset l + ucast (loc_data_offset l) + ucast (loc_data_len l))
      = unat (loc_offset l) + unat (loc_data_offset l) + unat (loc_data_len l)"
    using b 1 by (subst unat_word_add_exact) simp_all
  then show ?thesis
    using assms 1 by (simp add: get_account_data_def Let_def mmap_wf_def slice_in_range)
qed

lemma read_bytes_wrap:
  assumes "mmap_wf f" "2 ^ 64 \<le> unat (loc_offset l) + unat (loc_stored_size l)"
    and "unat (loc_offset l) + unat (loc_stored_size l) - 2 ^ 64 \<le> mf_file_size f"
  shows "is_valid_location f l \<and> read_bytes f l = Panic"
proof -
  have "unat (ucast (loc_stored_size l) :: u64) < 2 ^ 64" using unsigned_less [of "ucast (loc_stored_size l) :: u64", where 'a = nat] by simp
  then have u: "unat (loc_offset l + ucast (loc_stored_size l)) = unat (loc_offset l) + unat (loc_stored_size l) - 2 ^ 64"
    using assms(2) by (simp add: unat_plus_if_size word_size)
  have "unat (loc_stored_size l) < 2 ^ 32" using unsigned_less [of "loc_stored_size l", where 'a = nat] by simp
  then have "unat (loc_offset l) + unat (loc_stored_size l) - 2 ^ 64 < unat (loc_offset l)"
    using assms(2) by simp
  then show ?thesis
    using assms(3) by (simp add: read_bytes_def is_valid_location_def Let_def u res_simps)
qed

lemma parsed_list_nth: "parsed_list fid off (xs @ a # ys) ! length xs = parsed_of fid (of_nat (off + sum_list (map padded_size xs))) a"
  by (induction xs arbitrary: off) (simp_all add: add.assoc del: of_nat_add)

lemma length_parsed_list [simp]: "length (parsed_list fid off as) = length as"
  by (induction as arbitrary: off) auto

definition file_bytes :: "('pk \<Rightarrow> byte list) \<Rightarrow> 'pk stored_account list \<Rightarrow> nat \<Rightarrow> byte list" where
  "file_bytes to_bytes as z = concat (map (padded_record to_bytes) as) @ replicate z 0"

context pubkey_codec
begin

lemma length_concat_padded: "length (concat (map (padded_record to_bytes) as)) = sum_list (map padded_size as)"
  by (induction as) (simp_all add: length_padded_record)

lemma scan_file_records:
  assumes "length (file_bytes to_bytes as z) < 2 ^ 63"
  shows "scan_file (length (file_bytes to_bytes as z) + 1) appendvec_new try_from fid (file_bytes to_bytes as z)
    = Some (Ok (parsed_list fid 0 as))"
proof -
  have "length as \<le> length (concat (map (padded_record to_bytes) as))"
    by (induction as) (simp_all add: length_padded_record padded_size_def record_size_def)
  then show ?thesis
    using scan_loop_records [of "[]" as z "length (file_bytes to_bytes as z) + 1" fid] assms
    by (simp add: file_bytes_def scan_file_def appendvec_new_def)
qed

lemma read_back_record:
  assumes len: "length (file_bytes to_bytes (xs @ a # ys) z) < 2 ^ 63" and small: "record_size a < 2 ^ 32"
    and f: "mmap_wf f" "mf_mmap f = file_bytes to_bytes (xs @ a # ys) z"
    and l: "l = pa_location (parsed_list fid 0 (xs @ a # ys) ! length xs)"
  shows "read_bytes f l = Ok (record_bytes to_bytes a)" "get_account_data f l = Ok (ra_data a)"
proof -
  define pre where "pre = concat (map (padded_record to_bytes) xs)"
  define rest where "rest = replicate (padding_needed (record_size a) 8) 0 @
    concat (map (padded_record to_bytes) ys) @ replicate z (0 :: byte)"
  have bytes: "mf_mmap f = pre @ record_bytes to_bytes a @ rest"
    by (simp add: f(2) file_bytes_def pre_def rest_def padded_record_def)
  have ll: "l = new_base fid (of_nat (length pre)) (of_nat (record_size a)) 97 (of_nat (length (ra_data a))) (ra_slot a) 0"
    by (simp add: l parsed_list_nth parsed_of_def pre_def length_concat_padded)
  have lens: "length pre + record_size a \<le> mf_file_size f" "length pre < 2 ^ 64"
    using f(1) bytes by (simp_all add: mmap_wf_def length_record_bytes)
  have u: "unat (loc_offset l) = length pre" "unat (loc_stored_size l) = record_size a"
    "unat (loc_data_offset l) = 97" "unat (loc_data_len l) = length (ra_data a)"
    using lens small by (simp_all add: ll new_base_def unat_of_nat_eq record_size_def del: of_nat_add)
  have lt: "unat (loc_offset l) + unat (loc_stored_size l) < 2 ^ 64"
    using lens f(1) u by (simp add: mmap_wf_def)
  show "read_bytes f l = Ok (record_bytes to_bytes a)"
    using read_bytes_no_wrap [OF f(1) lt] lens by (simp add: u bytes length_record_bytes)
  have "drop 97 (record_bytes to_bytes a) = ra_data a"
    by (simp add: record_bytes_def length_to_bytes)
  then have "drop (length pre + 97) (mf_mmap f) = ra_data a @ rest"
    by (simp add: bytes length_record_bytes record_size_def)
  moreover have "length pre + 97 + length (ra_data a) \<le> mf_file_size f"
    using lens(1) by (simp add: record_size_def)
  ultimately show "get_account_data f l = Ok (ra_data a)"
    using get_account_data_no_wrap [OF f(1), of l] by (simp add: u)
qed

end

text \<open>The locator built from a scan holds the location scanned last for each pubkey.\<close>

lemma build_base_locator_get:
  "hm_get (build_base_locator as) pk = map_of (rev (map (\<lambda>a. (pa_pubkey a, pa_location a)) as)) pk"
proof -
  have "build_base_locator as = fold (\<lambda>(k, v). hm_insert k v) (map (\<lambda>a. (pa_pubkey a, pa_location a)) as) []"
    by (simp add: build_base_locator_def fold_map comp_def)
  then show ?thesis
    using hm.get_ins_all [OF hm.invar_empty, of "map (\<lambda>a. (pa_pubkey a, pa_location a)) as" pk]
    by (simp add: hm.get_empty split: option.splits)
qed

lemma build_pubkey_dictionary_from_iter: "build_pubkey_dictionary as = pd_from_iter (map pa_pubkey as)"
  by (simp add: build_pubkey_dictionary_def pd_from_iter_def fold_map comp_def)


section \<open>Properties\<close>

text \<open>C4: Scanning a file of 8-byte aligned account records in the documented layout, with any
  number of trailing zero bytes, returns exactly the stored accounts, in order, each with the
  location of its record; fuel of one unit per byte and one more is enough.\<close>

theorem scan_file_complete:
  assumes "pubkey_codec try_from to_bytes"
    and "bytes = concat (map (padded_record to_bytes) as) @ replicate z 0" "length bytes < 2 ^ 63"
  shows "scan_file (length bytes + 1) appendvec_new try_from fid bytes = Some (Ok (parsed_list fid 0 as))"
  using pubkey_codec.scan_file_records [OF assms(1), of as z fid] assms(2,3) by (simp add: file_bytes_def)

definition sample_account :: "pubkey256 \<Rightarrow> byte list \<Rightarrow> pubkey256 stored_account" where
  "sample_account k d = \<lparr> ra_pubkey = k, ra_owner = 5, ra_executable = True, ra_rent_epoch = 3,
                          ra_lamports = 1000, ra_slot = 42, ra_data = d \<rparr>"

theorem scan_file_complete_witness:
  "\<exists>bytes. length bytes = 208 \<and>
     scan_file 209 appendvec_new pubkey256_try_from 1 bytes
       = Some (Ok (parsed_list 1 0 [sample_account 7 [1, 2], sample_account 8 [3]]))"
proof -
  let ?as = "[sample_account 7 [1, 2], sample_account 8 [3]]"
  let ?b = "concat (map (padded_record pubkey256_to_bytes) ?as) @ replicate 0 0"
  have "length ?b = 208"
    by (simp add: padded_record_def record_bytes_def record_size_def padding_needed_def sample_account_def
        pubkey256_to_bytes_def)
  then show ?thesis
    using scan_file_complete [OF pk256.pubkey_codec_axioms refl, of ?as 0 1] by (intro exI [of _ ?b]) simp
qed

text \<open>C24: on any file of fewer than \<open>2^63\<close> bytes, whatever its contents and with or without
  header, the scan loop terminates within one iteration per byte and one more, and neither
  it nor the record parser panics.\<close>

theorem scan_file_total:
  assumes "length bytes < 2 ^ 63"
  shows "(\<exists>accounts. scan_file (length bytes + 1) s try_from fid bytes = Some (Ok accounts)) \<and>
    parse_account_record try_from fid off bytes \<noteq> Panic"
  using scan_loop_total [OF assms, of _ "length bytes + 1" try_from fid] parse_not_Panic
  by (simp add: scan_file_def)

theorem scan_file_total_witness:
  "\<exists>accounts. scan_file 11 (with_header appendvec_new) pubkey256_try_from 0 (replicate 10 255) = Some (Ok accounts)"
  using scan_file_total [of "replicate 10 255" "with_header appendvec_new" pubkey256_try_from 0] by simp

text \<open>The base layer is readable end to end: the location the scanner assigns to an account
  of a file lets the mapped reader return exactly that account's record and its data.\<close>

theorem scanned_location_reads_back:
  assumes "pubkey_codec try_from to_bytes"
    and "bytes = concat (map (padded_record to_bytes) (xs @ a # ys)) @ replicate z 0" "length bytes < 2 ^ 63"
    and "record_size a < 2 ^ 32" "mmap_open fid (Some bytes) = Ok f"
    and "scan_file (length bytes + 1) appendvec_new try_from fid bytes = Some (Ok accounts)"
  shows "read_bytes f (pa_location (accounts ! length xs)) = Ok (record_bytes to_bytes a) \<and>
    get_account_data f (pa_location (accounts ! length xs)) = Ok (ra_data a)"
proof -
  have b: "bytes = file_bytes to_bytes (xs @ a # ys) z" by (simp add: file_bytes_def assms(2))
  have acc: "accounts = parsed_list fid 0 (xs @ a # ys)"
    using pubkey_codec.scan_file_records [OF assms(1), of "xs @ a # ys" z fid] assms(3,6) by (simp add: b)
  have f: "mmap_wf f" "mf_mmap f = file_bytes to_bytes (xs @ a # ys) z"
    using assms(3,5) mmap_open_wf by (auto simp: b mmap_open_def)
  show ?thesis
    using pubkey_codec.read_back_record [OF assms(1) _ assms(4) f refl] assms(3) by (simp add: b acc)
qed

theorem scanned_location_reads_back_witness:
  "\<exists>f accounts. get_account_data f (pa_location (accounts ! 1)) = Ok [3] \<and>
     scan_file 209 appendvec_new pubkey256_try_from 1 (mf_mmap f) = Some (Ok accounts)"
proof -
  let ?xs = "[sample_account 7 [1, 2]]" and ?a = "sample_account 8 [3]"
  let ?b = "concat (map (padded_record pubkey256_to_bytes) (?xs @ ?a # [])) @ replicate 0 0"
  let ?f = "\<lparr> mf_file_id = 1, mf_mmap = ?b, mf_file_size = length ?b \<rparr>"
  have len: "length ?b = 208"
    by (simp add: padded_record_def record_bytes_def record_size_def padding_needed_def sample_account_def
        pubkey256_to_bytes_def)
  obtain accounts where scan: "scan_file (length ?b + 1) appendvec_new pubkey256_try_from 1 ?b = Some (Ok accounts)"
    using scan_loop_total [of ?b 0 "length ?b + 1" pubkey256_try_from 1] len
    by (auto simp: scan_file_def appendvec_new_def)
  have small: "record_size ?a < 2 ^ 32" by (simp add: record_size_def sample_account_def)
  have "get_account_data ?f (pa_location (accounts ! length ?xs)) = Ok (ra_data ?a)"
    using scanned_location_reads_back [OF pk256.pubkey_codec_axioms refl _ small _ scan, of ?f] len
    by (simp add: mmap_open_def)
  then show ?thesis
    using scan len by (intro exI [of _ ?f] exI [of _ accounts]) (simp add: sample_account_def)
qed

text \<open>C38: a read at a location whose end does not overflow 64 bits returns exactly the bytes of
  that location when they lie in the file and \<open>OutOfBounds\<close> otherwise; at a location whose
  end wraps around into the file, \<open>is_valid_location\<close> answers yes and the read panics.\<close>

theorem read_bytes_bounds:
  assumes "mmap_wf f"
  shows "(unat (loc_offset l) + unat (loc_stored_size l) < 2 ^ 64 \<longrightarrow>
      read_bytes f l =
        (if unat (loc_offset l) + unat (loc_stored_size l) \<le> mf_file_size f
         then Ok (take (unat (loc_stored_size l)) (drop (unat (loc_offset l)) (mf_mmap f)))
         else Err (OutOfBounds (loc_offset l) (unat (loc_stored_size l)) (mf_file_size f)))) \<and>
    (2 ^ 64 \<le> unat (loc_offset l) + unat (loc_stored_size l) \<and>
     unat (loc_offset l) + unat (loc_stored_size l) - 2 ^ 64 \<le> mf_file_size f \<longrightarrow>
       is_valid_location f l \<and> read_bytes f l = Panic)"
  using read_bytes_no_wrap [OF assms] read_bytes_wrap [OF assms] by blast

theorem read_bytes_bounds_witness:
  "read_bytes \<lparr> mf_file_id = 0, mf_mmap = [1, 2, 3], mf_file_size = 3 \<rparr> (new_base 0 1 2 0 0 0 0) = Ok [2, 3] \<and>
   read_bytes \<lparr> mf_file_id = 0, mf_mmap = [1, 2, 3], mf_file_size = 3 \<rparr> (new_base 0 18446744073709551615 2 0 0 0 0) = Panic"
  using read_bytes_bounds [of "\<lparr> mf_file_id = 0, mf_mmap = [1, 2, 3], mf_file_size = 3 \<rparr>" "new_base 0 1 2 0 0 0 0"]
    read_bytes_bounds [of "\<lparr> mf_file_id = 0, mf_mmap = [1, 2, 3], mf_file_size = 3 \<rparr>" "new_base 0 18446744073709551615 2 0 0 0 0"]
  by (simp add: mmap_wf_def new_base_def)

end
