(* ===== verification/Base_Locator.thy ===== *)
theory Base_Locator
  imports Account_File
begin

text \<open>
  The persistent base layer (crate \<open>base-locator\<close> with the redb backend): the locator from
  pubkeys to account locations (\<open>redb_impl.rs\<close>) and the persistent pubkey dictionary
  (\<open>pubkey_dict_redb.rs\<close>).

  The redb table is a parameter: a record \<open>kv_ops\<close> of the operations the code calls, with the
  laws of an ordered key-value table as the locale \<open>kv_store\<close>, which \<open>sublocale\<close> turns into the
  map interface of the prelude.  The argument \<open>ok\<close> tells whether the transaction of a call
  succeeds; a failed one leaves the table unchanged.  Insertions and removals whose result the
  code discards are given by a predicate on keys, since they can fail silently.
\<close>

section \<open>The table as a parameter\<close>

record ('t, 'k, 'v) kv_ops =
  kv_empty :: 't
  kv_get :: "'t \<Rightarrow> 'k \<Rightarrow> 'v option"
  kv_insert :: "'k \<Rightarrow> 'v \<Rightarrow> 't \<Rightarrow> 't"
  kv_remove :: "'k \<Rightarrow> 't \<Rightarrow> 't"
  kv_keys :: "'t \<Rightarrow> 'k list"

locale kv_store =
  fixes K :: "('t, 'k, 'v) kv_ops"
  assumes kv_get_empty: "kv_get K (kv_empty K) k = None"
    and kv_get_insert: "kv_get K (kv_insert K k v t) k' = (if k' = k then Some v else kv_get K t k')"
    and kv_get_remove: "kv_get K (kv_remove K k t) k' = (if k' = k then None else kv_get K t k')"
    and kv_keys_distinct: "distinct (kv_keys K t)"
    and kv_keys_dom: "set (kv_keys K t) = dom (kv_get K t)"

sublocale kv_store \<subseteq> kv: map_impl "kv_empty K" "kv_insert K" "kv_remove K" "kv_get K" "\<lambda>_. True"
  by unfold_locales (simp_all add: kv_get_empty kv_get_insert kv_get_remove)

text \<open>Association lists are such a table.\<close>

definition list_kv :: "(('k \<times> 'v) list, 'k, 'v) kv_ops" where
  "list_kv = \<lparr> kv_empty = [], kv_get = map_of, kv_insert = (\<lambda>k v t. AList.update k v t),
               kv_remove = (\<lambda>k t. AList.delete k t), kv_keys = (\<lambda>t. remdups (map fst t)) \<rparr>"

interpretation lkv: kv_store list_kv
  by unfold_locales (auto simp: list_kv_def update_conv' delete_conv' dom_map_of_conv_image_fst)


section \<open>\<open>RocksLocator\<close>\<close>

record locator_stats =
  ls_total_keys :: u64
  ls_reads :: u64
  ls_writes :: u64
  ls_batch_writes :: u64

record 't rocks_locator =
  lo_db :: 't
  lo_stats :: locator_stats

definition locator_open :: "bool \<Rightarrow> 't \<Rightarrow> (locator_error, 't rocks_locator) result" where
  "locator_open ok db =
     (if ok then Ok \<lparr> lo_db = db, lo_stats = \<lparr> ls_total_keys = 0, ls_reads = 0, ls_writes = 0, ls_batch_writes = 0 \<rparr> \<rparr>
      else Err BackendError)"

definition locator_get ::
  "('t, byte list, byte list) kv_ops \<Rightarrow> ('pk \<Rightarrow> byte list) \<Rightarrow> bool \<Rightarrow> 'pk \<Rightarrow> 't rocks_locator \<Rightarrow>
     (locator_error, account_location option) result \<times> 't rocks_locator" where
  "locator_get K to_bytes ok pubkey l =
     (if \<not> ok then (Err BackendError, l)
      else case kv_get K (lo_db l) (to_bytes pubkey) of
        None \<Rightarrow> (Ok None, l)
      | Some bytes \<Rightarrow>
          (case deserialize_location bytes of
             Err e \<Rightarrow> (Err e, l)
           | Panic \<Rightarrow> (Panic, l)
           | Ok location \<Rightarrow>
               (Ok (Some location), l \<lparr> lo_stats := (lo_stats l) \<lparr> ls_reads := ls_reads (lo_stats l) + 1 \<rparr> \<rparr>)))"

primrec get_batch_loop ::
  "('t, byte list, byte list) kv_ops \<Rightarrow> ('pk \<Rightarrow> byte list) \<Rightarrow> 't \<Rightarrow> 'pk list \<Rightarrow>
     (locator_error, account_location option list) result" where
  "get_batch_loop K to_bytes db [] = Ok []"
| "get_batch_loop K to_bytes db (pk # pks) =
     (case kv_get K db (to_bytes pk) of
        Some bytes \<Rightarrow>
          rbind (deserialize_location bytes) (\<lambda>location.
          rbind (get_batch_loop K to_bytes db pks) (\<lambda>results. Ok (Some location # results)))
      | None \<Rightarrow> rbind (get_batch_loop K to_bytes db pks) (\<lambda>results. Ok (None # results)))"

definition locator_get_batch ::
  "('t, byte list, byte list) kv_ops \<Rightarrow> ('pk \<Rightarrow> byte list) \<Rightarrow> bool \<Rightarrow> 'pk list \<Rightarrow> 't rocks_locator \<Rightarrow>
     (locator_error, account_location option list) result \<times> 't rocks_locator" where
  "locator_get_batch K to_bytes ok pubkeys l =
     (if \<not> ok then (Err BackendError, l)
      else case get_batch_loop K to_bytes (lo_db l) pubkeys of
        Err e \<Rightarrow> (Err e, l)
      | Panic \<Rightarrow> (Panic, l)
      | Ok results \<Rightarrow>
          (Ok results, l \<lparr> lo_stats := (lo_stats l) \<lparr> ls_reads := ls_reads (lo_stats l) + of_nat (length pubkeys) \<rparr> \<rparr>))"

definition locator_insert ::
  "('t, byte list, byte list) kv_ops \<Rightarrow> ('pk \<Rightarrow> byte list) \<Rightarrow> bool \<Rightarrow> 'pk \<Rightarrow> account_location \<Rightarrow> 't rocks_locator \<Rightarrow>
     (locator_error, unit) result \<times> 't rocks_locator" where
  "locator_insert K to_bytes ok pubkey location l =
     (case serialize_location location of
        Err e \<Rightarrow> (Err e, l)
      | Panic \<Rightarrow> (Panic, l)
      | Ok bytes \<Rightarrow>
          if \<not> ok then (Err BackendError, l)
          else (Ok (), l \<lparr> lo_db := kv_insert K (to_bytes pubkey) bytes (lo_db l),
                          lo_stats := (lo_stats l) \<lparr> ls_writes := ls_writes (lo_stats l) + 1 \<rparr> \<rparr>))"

text \<open>\<open>let _ = table.insert(..)\<close>: keys in \<open>fails\<close> are not written, and nothing is reported.\<close>

primrec insert_batch_loop ::
  "('t, byte list, byte list) kv_ops \<Rightarrow> ('pk \<Rightarrow> byte list) \<Rightarrow> (byte list \<Rightarrow> bool) \<Rightarrow> ('pk \<times> account_location) list \<Rightarrow> 't \<Rightarrow>
     (locator_error, 't) result" where
  "insert_batch_loop K to_bytes fails [] db = Ok db"
| "insert_batch_loop K to_bytes fails (p # ps) db =
     rbind (serialize_location (snd p)) (\<lambda>bytes.
     insert_batch_loop K to_bytes fails ps
       (if fails (to_bytes (fst p)) then db else kv_insert K (to_bytes (fst p)) bytes db))"

definition locator_insert_batch ::
  "('t, byte list, byte list) kv_ops \<Rightarrow> ('pk \<Rightarrow> byte list) \<Rightarrow> bool \<Rightarrow> (byte list \<Rightarrow> bool) \<Rightarrow>
     ('pk \<times> account_location) list \<Rightarrow> 't rocks_locator \<Rightarrow> (locator_error, unit) result \<times> 't rocks_locator" where
  "locator_insert_batch K to_bytes ok fails locations l =
     (case insert_batch_loop K to_bytes fails locations (lo_db l) of
        Err e \<Rightarrow> (Err e, l)
      | Panic \<Rightarrow> (Panic, l)
      | Ok db \<Rightarrow>
          if \<not> ok then (Err BackendError, l)
          else (Ok (), l \<lparr> lo_db := db,
                  lo_stats := (lo_stats l) \<lparr> ls_writes := ls_writes (lo_stats l) + of_nat (length locations),
                                             ls_batch_writes := ls_batch_writes (lo_stats l) + 1 \<rparr> \<rparr>))"

definition locator_delete ::
  "('t, byte list, byte list) kv_ops \<Rightarrow> ('pk \<Rightarrow> byte list) \<Rightarrow> bool \<Rightarrow> (byte list \<Rightarrow> bool) \<Rightarrow> 'pk \<Rightarrow> 't rocks_locator \<Rightarrow>
     (locator_error, unit) result \<times> 't rocks_locator" where
  "locator_delete K to_bytes ok fails pubkey l =
     (if \<not> ok then (Err BackendError, l)
      else (Ok (), if fails (to_bytes pubkey) then l else l \<lparr> lo_db := kv_remove K (to_bytes pubkey) (lo_db l) \<rparr>))"

definition locator_count ::
  "('t, byte list, byte list) kv_ops \<Rightarrow> bool \<Rightarrow> 't rocks_locator \<Rightarrow> (locator_error, u64) result \<times> 't rocks_locator" where
  "locator_count K ok l =
     (if \<not> ok then (Err BackendError, l)
      else let count = fold (\<lambda>_ n. n + 1) (kv_keys K (lo_db l)) 0
           in (Ok count, l \<lparr> lo_stats := (lo_stats l) \<lparr> ls_total_keys := count \<rparr> \<rparr>))"

definition locator_stats_of :: "'t rocks_locator \<Rightarrow> locator_stats" where
  "locator_stats_of l = lo_stats l"

definition locator_compact :: "'t rocks_locator \<Rightarrow> (locator_error, unit) result" where
  "locator_compact l = Ok ()"


section \<open>\<open>PersistentPubkeyDictionary\<close>\<close>

record ('t, 'pk) persistent_dict =
  pp_db :: 't
  pp_memory_cache :: "'pk pubkey_dictionary"
  pp_next_id :: u64

datatype dictionary_error = DictBackend | DictIo

text \<open>Opening starts with an empty cache and \<open>next_id\<close> at zero, whatever the table holds.\<close>

definition pp_open :: "bool \<Rightarrow> 't \<Rightarrow> (dictionary_error, ('t, 'pk) persistent_dict) result" where
  "pp_open ok db =
     (if ok then Ok \<lparr> pp_db = db, pp_memory_cache = pd_new, pp_next_id = 0 \<rparr> else Err DictBackend)"

definition pp_get_or_create_id ::
  "('t, byte list, u64) kv_ops \<Rightarrow> ('pk \<Rightarrow> byte list) \<Rightarrow> bool \<Rightarrow> bool \<Rightarrow> (byte list \<Rightarrow> bool) \<Rightarrow> 'pk \<Rightarrow> ('t, 'pk) persistent_dict \<Rightarrow>
     (dictionary_error, u64) result \<times> ('t, 'pk) persistent_dict" where
  "pp_get_or_create_id K to_bytes read_ok write_ok fails pubkey d =
     (case pd_get_id (pp_memory_cache d) pubkey of
        Some i \<Rightarrow> (Ok i, d)
      | None \<Rightarrow>
          if \<not> read_ok then (Err DictBackend, d)
          else case kv_get K (pp_db d) (to_bytes pubkey) of
            Some i \<Rightarrow> (Ok i, d)
          | None \<Rightarrow>
              let new_id = pp_next_id d; d1 = d \<lparr> pp_next_id := pp_next_id d + 1 \<rparr> in
              if \<not> write_ok then (Err DictBackend, d1)
              else (Ok new_id,
                    d1 \<lparr> pp_db := (if fails (to_bytes pubkey) then pp_db d1
                                   else kv_insert K (to_bytes pubkey) new_id (pp_db d1)),
                         pp_memory_cache := snd (pd_insert pubkey (pp_memory_cache d1)) \<rparr>))"

definition pp_get_id ::
  "('t, byte list, u64) kv_ops \<Rightarrow> ('pk \<Rightarrow> byte list) \<Rightarrow> bool \<Rightarrow> bool \<Rightarrow> 'pk \<Rightarrow> ('t, 'pk) persistent_dict \<Rightarrow>
     (dictionary_error, u64 option) result" where
  "pp_get_id K to_bytes txn_ok get_ok pubkey d =
     (case pd_get_id (pp_memory_cache d) pubkey of
        Some i \<Rightarrow> Ok (Some i)
      | None \<Rightarrow> if \<not> txn_ok then Err DictBackend
                else if get_ok then Ok (kv_get K (pp_db d) (to_bytes pubkey)) else Ok None)"

definition pp_get_pubkey :: "('t, 'pk) persistent_dict \<Rightarrow> u64 \<Rightarrow> 'pk option" where
  "pp_get_pubkey d pubkey_id = pd_get_pubkey (pp_memory_cache d) pubkey_id"

definition pp_insert_one ::
  "('t, byte list, u64) kv_ops \<Rightarrow> ('pk \<Rightarrow> byte list) \<Rightarrow> (byte list \<Rightarrow> bool) \<Rightarrow> 'pk \<Rightarrow> ('t, 'pk) persistent_dict \<Rightarrow>
     ('t, 'pk) persistent_dict" where
  "pp_insert_one K to_bytes fails pk d =
     (if pd_get_id (pp_memory_cache d) pk = None
      then d \<lparr> pp_db := (if fails (to_bytes pk) then pp_db d else kv_insert K (to_bytes pk) (pp_next_id d) (pp_db d)),
               pp_memory_cache := snd (pd_insert pk (pp_memory_cache d)), pp_next_id := pp_next_id d + 1 \<rparr>
      else d)"

text \<open>A failed commit drops the table writes; the cache and the counter keep theirs.\<close>

definition pp_insert_batch ::
  "('t, byte list, u64) kv_ops \<Rightarrow> ('pk \<Rightarrow> byte list) \<Rightarrow> bool \<Rightarrow> bool \<Rightarrow> (byte list \<Rightarrow> bool) \<Rightarrow> 'pk list \<Rightarrow> ('t, 'pk) persistent_dict \<Rightarrow>
     (dictionary_error, u64 list) result \<times> ('t, 'pk) persistent_dict" where
  "pp_insert_batch K to_bytes begin_ok commit_ok fails pubkeys d =
     (if \<not> begin_ok then (Err DictBackend, d)
      else let d1 = fold (pp_insert_one K to_bytes fails) pubkeys d in
        if \<not> commit_ok then (Err DictBackend, d1 \<lparr> pp_db := pp_db d \<rparr>)
        else (Ok (concat (map (\<lambda>pk. case pd_get_id (pp_memory_cache d1) pk of Some i \<Rightarrow> [i] | None \<Rightarrow> []) pubkeys)), d1))"

definition pp_len :: "('t, 'pk) persistent_dict \<Rightarrow> nat" where
  "pp_len d = pd_len (pp_memory_cache d)"

definition pp_is_empty :: "('t, 'pk) persistent_dict \<Rightarrow> bool" where
  "pp_is_empty d = pd_is_empty (pp_memory_cache d)"


section \<open>Histories and their abstract meaning\<close>

datatype 'pk locator_op =
    LInsert 'pk account_location
  | LInsertBatch "('pk \<times> account_location) list"
  | LDelete 'pk

text \<open>Every transaction succeeds and no single write fails.\<close>

definition locator_apply ::
  "('t, byte list, byte list) kv_ops \<Rightarrow> ('pk \<Rightarrow> byte list) \<Rightarrow> 'pk locator_op \<Rightarrow> 't rocks_locator \<Rightarrow> 't rocks_locator" where
  "locator_apply K to_bytes oper l =
     (case oper of
        LInsert pk loc \<Rightarrow> snd (locator_insert K to_bytes True pk loc l)
      | LInsertBatch ps \<Rightarrow> snd (locator_insert_batch K to_bytes True (\<lambda>_. False) ps l)
      | LDelete pk \<Rightarrow> snd (locator_delete K to_bytes True (\<lambda>_. False) pk l))"

definition map_apply :: "'pk locator_op \<Rightarrow> ('pk \<rightharpoonup> account_location) \<Rightarrow> ('pk \<rightharpoonup> account_location)" where
  "map_apply oper m =
     (case oper of
        LInsert pk loc \<Rightarrow> m(pk \<mapsto> loc)
      | LInsertBatch ps \<Rightarrow> m ++ map_of (rev ps)
      | LDelete pk \<Rightarrow> m(pk := None))"

definition location_bytes :: "account_location \<Rightarrow> byte list" where
  "location_bytes loc = (case serialize_location loc of Ok bs \<Rightarrow> bs | _ \<Rightarrow> [])"

lemma serialize_location_bytes: "serialize_location loc = Ok (location_bytes loc)"
  by (simp add: location_bytes_def serialize_location_def)

lemma deserialize_location_bytes: "deserialize_location (location_bytes loc) = Ok loc"
  using deserialize_serialize_append [OF serialize_location_bytes, of loc "[]"] by simp

text \<open>A table and the pubkeys it is indexed with.\<close>

locale pubkey_table = pubkey_codec try_from to_bytes + kv_store K
  for try_from :: "byte list \<Rightarrow> 'pk option" and to_bytes :: "'pk \<Rightarrow> byte list"
    and K :: "('t, byte list, 'v) kv_ops"
begin

lemma to_bytes_inj [simp]: "to_bytes a = to_bytes b \<longleftrightarrow> a = b"
  using try_from_to_bytes by (metis option.inject)

definition represents :: "('v0 \<Rightarrow> 'v) \<Rightarrow> 't \<Rightarrow> ('pk \<rightharpoonup> 'v0) \<Rightarrow> bool" where
  "represents enc t m \<longleftrightarrow> (\<forall>pk. kv_get K t (to_bytes pk) = map_option enc (m pk)) \<and>
                         (\<forall>k. kv_get K t k \<noteq> None \<longrightarrow> (\<exists>pk. k = to_bytes pk))"

lemma represents_empty: "represents enc (kv_empty K) Map.empty"
  by (simp add: represents_def kv_get_empty)

lemma represents_get: "represents enc t m \<Longrightarrow> kv_get K t (to_bytes pk) = map_option enc (m pk)"
  by (simp add: represents_def)

lemma represents_insert: "represents enc t m \<Longrightarrow> represents enc (kv_insert K (to_bytes pk) (enc v) t) (m(pk \<mapsto> v))"
  by (auto simp: represents_def kv_get_insert)

lemma represents_remove: "represents enc t m \<Longrightarrow> represents enc (kv_remove K (to_bytes pk) t) (m(pk := None))"
  by (auto simp: represents_def kv_get_remove)

lemma represents_keys:
  assumes "represents enc t m"
  shows "length (kv_keys K t) = card (dom m)"
proof -
  have "set (kv_keys K t) = to_bytes ` dom m"
  proof (intro set_eqI iffI)
    fix k assume "k \<in> set (kv_keys K t)"
    then have k: "kv_get K t k \<noteq> None" by (simp add: kv_keys_dom dom_def)
    then obtain pk where "k = to_bytes pk" using assms by (auto simp: represents_def)
    then show "k \<in> to_bytes ` dom m" using k represents_get [OF assms, of pk] by auto
  next
    fix k assume "k \<in> to_bytes ` dom m"
    then obtain pk where "k = to_bytes pk" "m pk \<noteq> None" by auto
    then show "k \<in> set (kv_keys K t)" using represents_get [OF assms, of pk] by (auto simp: kv_keys_dom)
  qed
  moreover have "card (to_bytes ` dom m) = card (dom m)" by (simp add: card_image inj_on_def)
  ultimately show ?thesis using distinct_card [OF kv_keys_distinct, of t] by simp
qed

end

text \<open>The locator is the case of encoded locations.\<close>

locale location_table = pubkey_table try_from to_bytes K
  for try_from :: "byte list \<Rightarrow> 'pk option" and to_bytes :: "'pk \<Rightarrow> byte list"
    and K :: "('t, byte list, byte list) kv_ops"
begin

lemma insert_batch_loop_represents:
  "represents location_bytes db m \<Longrightarrow>
     \<exists>db'. insert_batch_loop K to_bytes (\<lambda>_. False) ps db = Ok db' \<and> represents location_bytes db' (m ++ map_of (rev ps))"
proof (induction ps arbitrary: db m)
  case (Cons p ps)
  obtain pk loc where p: "p = (pk, loc)" by (cases p)
  have "represents location_bytes (kv_insert K (to_bytes pk) (location_bytes loc) db) (m(pk \<mapsto> loc))"
    using Cons.prems by (rule represents_insert)
  note IH = Cons.IH [OF this]
  have m: "m ++ map_of (rev (p # ps)) = m(pk \<mapsto> loc) ++ map_of (rev ps)"
    by (auto simp: fun_eq_iff p map_add_def split: option.split)
  show ?case unfolding m using IH by (simp only: insert_batch_loop.simps p fst_conv snd_conv serialize_location_bytes rbind.simps if_False)
qed simp

lemma locator_apply_represents:
  assumes "represents location_bytes (lo_db l) m"
  shows "represents location_bytes (lo_db (locator_apply K to_bytes oper l)) (map_apply oper m)"
proof (cases oper)
  case (LInsert pk loc)
  then show ?thesis
    using represents_insert [OF assms]
    by (simp add: locator_apply_def locator_insert_def serialize_location_bytes map_apply_def)
next
  case (LInsertBatch ps)
  then show ?thesis
    using insert_batch_loop_represents [OF assms, of ps]
    by (auto simp: locator_apply_def locator_insert_batch_def map_apply_def)
next
  case (LDelete pk)
  then show ?thesis
    using represents_remove [OF assms] by (simp add: locator_apply_def locator_delete_def map_apply_def)
qed

lemma locator_run_represents:
  "represents location_bytes (lo_db l) m \<Longrightarrow>
     represents location_bytes (lo_db (fold (locator_apply K to_bytes) opers l)) (fold map_apply opers m)"
  by (induction opers arbitrary: l m) (auto simp: locator_apply_represents)

lemma locator_get_represents:
  "represents location_bytes (lo_db l) m \<Longrightarrow> fst (locator_get K to_bytes True pk l) = Ok (m pk)"
  by (cases "m pk") (simp_all add: locator_get_def represents_get deserialize_location_bytes)

lemma get_batch_loop_represents:
  "represents location_bytes db m \<Longrightarrow> get_batch_loop K to_bytes db pks = Ok (map m pks)"
proof (induction pks)
  case (Cons pk pks)
  then show ?case by (cases "m pk") (simp_all add: represents_get deserialize_location_bytes)
qed simp

lemma locator_count_represents:
  assumes "represents location_bytes (lo_db l) m"
  shows "fst (locator_count K True l) = Ok (of_nat (card (dom m)))"
proof -
  have "fold (\<lambda>_ n. n + 1) xs a = a + (of_nat (length xs) :: u64)" for xs :: "byte list list" and a
    by (induction xs arbitrary: a) simp_all
  then show ?thesis using represents_keys [OF assms] by (simp add: locator_count_def Let_def)
qed

lemma locator_history:
  fixes l0 :: "'t rocks_locator" and opers :: "'pk locator_op list"
  assumes "locator_open True (kv_empty K) = Ok l0"
  defines "l \<equiv> fold (locator_apply K to_bytes) opers l0" and "m \<equiv> fold map_apply opers Map.empty"
  shows "fst (locator_get K to_bytes True pk l) = Ok (m pk) \<and>
    fst (locator_get_batch K to_bytes True pks l) = Ok (map m pks) \<and>
    fst (locator_count K True l) = Ok (of_nat (card (dom m)))"
proof -
  have "lo_db l0 = kv_empty K" using assms(1) by (auto simp: locator_open_def)
  then have r: "represents location_bytes (lo_db l) m"
    unfolding l_def m_def by (intro locator_run_represents) (simp add: represents_empty)
  show ?thesis
    using locator_get_represents [OF r] locator_count_represents [OF r] get_batch_loop_represents [OF r, of pks]
    by (simp add: locator_get_batch_def)
qed

end

interpretation lt256: location_table pubkey256_try_from pubkey256_to_bytes list_kv
  by unfold_locales

text \<open>The dictionary is the case of ids.\<close>

locale dict_table = pubkey_table try_from to_bytes K
  for try_from :: "byte list \<Rightarrow> 'pk option" and to_bytes :: "'pk \<Rightarrow> byte list"
    and K :: "('t, byte list, u64) kv_ops"
begin

text \<open>In a session that started on an empty table, cache, table and counter agree.\<close>

definition in_step :: "('t, 'pk) persistent_dict \<Rightarrow> bool" where
  "in_step d \<longleftrightarrow> represents (\<lambda>i. i) (pp_db d) (pd_get_id (pp_memory_cache d)) \<and>
     pp_next_id d = pd_next_id (pp_memory_cache d) \<and> hm_invar (pd_pubkey_to_id (pp_memory_cache d))"

lemma in_step_open: "in_step \<lparr> pp_db = kv_empty K, pp_memory_cache = pd_new, pp_next_id = 0 \<rparr>"
proof -
  have "pd_get_id (pd_new :: 'pk pubkey_dictionary) = Map.empty"
    by (simp add: fun_eq_iff pd_get_id_def pd_new_def hm_get_def)
  then show ?thesis by (simp add: in_step_def represents_empty) (simp add: pd_new_def hm_invar_def)
qed

lemma pd_insert_get_id:
  assumes "hm_invar (pd_pubkey_to_id c)" "pd_get_id c pk = None"
  shows "pd_get_id (snd (pd_insert pk c)) = (pd_get_id c)(pk \<mapsto> pd_next_id c)"
  using assms by (auto simp: fun_eq_iff pd_get_id_def pd_insert_def Let_def hm.get_ins)

lemma get_or_create_in_step:
  assumes "in_step d"
  shows "fst (pp_get_or_create_id K to_bytes True True (\<lambda>_. False) pk d) = Ok (fst (pd_insert pk (pp_memory_cache d))) \<and>
    pp_memory_cache (snd (pp_get_or_create_id K to_bytes True True (\<lambda>_. False) pk d)) = snd (pd_insert pk (pp_memory_cache d)) \<and>
    in_step (snd (pp_get_or_create_id K to_bytes True True (\<lambda>_. False) pk d))"
proof (cases "pd_get_id (pp_memory_cache d) pk")
  case (Some i)
  then show ?thesis
    using assms by (simp add: pp_get_or_create_id_def) (simp add: pd_insert_def pd_get_id_def)
next
  case None
  let ?c = "pp_memory_cache d"
  have r: "represents (\<lambda>i. i) (pp_db d) (pd_get_id ?c)" and nx: "pp_next_id d = pd_next_id ?c"
    and inv: "hm_invar (pd_pubkey_to_id ?c)"
    using assms by (simp_all add: in_step_def)
  have "kv_get K (pp_db d) (to_bytes pk) = None" using represents_get [OF r, of pk] None by simp
  moreover have "represents (\<lambda>i. i) (kv_insert K (to_bytes pk) (pd_next_id ?c) (pp_db d)) (pd_get_id (snd (pd_insert pk ?c)))"
    using represents_insert [OF r, of pk "pd_next_id ?c"] pd_insert_get_id [OF inv None] by simp
  moreover have "fst (pd_insert pk ?c) = pd_next_id ?c" "pd_next_id (snd (pd_insert pk ?c)) = pd_next_id ?c + 1"
    "hm_invar (pd_pubkey_to_id (snd (pd_insert pk ?c)))"
    using None inv by (simp_all add: pd_insert_def pd_get_id_def Let_def hm.invar_ins)
  ultimately show ?thesis
    using None by (simp add: pp_get_or_create_id_def Let_def nx in_step_def)
qed

end

interpretation dt256: dict_table pubkey256_try_from pubkey256_to_bytes list_kv
  by unfold_locales

primrec pp_create_all ::
  "('t, byte list, u64) kv_ops \<Rightarrow> ('pk \<Rightarrow> byte list) \<Rightarrow> 'pk list \<Rightarrow> ('t, 'pk) persistent_dict \<Rightarrow>
     (dictionary_error, u64) result list \<times> ('t, 'pk) persistent_dict" where
  "pp_create_all K to_bytes [] d = ([], d)"
| "pp_create_all K to_bytes (pk # pks) d =
     (let (r, d1) = pp_get_or_create_id K to_bytes True True (\<lambda>_. False) pk d;
          (rs, d2) = pp_create_all K to_bytes pks d1 in (r # rs, d2))"

context dict_table
begin

lemma create_all_in_step:
  "in_step d \<Longrightarrow> fst (pp_create_all K to_bytes pks d) = map Ok (fst (pd_batch_insert pks (pp_memory_cache d))) \<and>
     pp_memory_cache (snd (pp_create_all K to_bytes pks d)) = snd (pd_batch_insert pks (pp_memory_cache d))"
proof (induction pks arbitrary: d)
  case (Cons pk pks)
  note g = get_or_create_in_step [OF Cons.prems, of pk]
  show ?case
    using g Cons.IH [of "snd (pp_get_or_create_id K to_bytes True True (\<lambda>_. False) pk d)"]
    by (auto simp: Let_def split: prod.splits)
qed simp

end


section \<open>Properties\<close>

text \<open>C10: After any history of inserts, batch inserts and deletes on an empty table, with every
  transaction succeeding, lookups, batch lookups and the count of the locator are those of
  the finite map the history describes (the last write of a pubkey wins); nothing is lost in
  the encoding.\<close>

theorem base_locator_refines_map:
  fixes K :: "('t, byte list, byte list) kv_ops"
  assumes "pubkey_codec try_from to_bytes" "kv_store K" "locator_open True (kv_empty K) = Ok l0"
  shows "fst (locator_get K to_bytes True pk (fold (locator_apply K to_bytes) opers l0)) = Ok (fold map_apply opers Map.empty pk) \<and>
    fst (locator_get_batch K to_bytes True pks (fold (locator_apply K to_bytes) opers l0)) = Ok (map (fold map_apply opers Map.empty) pks) \<and>
    fst (locator_count K True (fold (locator_apply K to_bytes) opers l0)) = Ok (of_nat (card (dom (fold map_apply opers Map.empty))))"
proof -
  have "location_table try_from to_bytes K"
    by (intro location_table.intro pubkey_table.intro assms)
  from location_table.locator_history [OF this assms(3)] show ?thesis .
qed

theorem base_locator_refines_map_witness:
  "\<exists>l0 :: (byte list \<times> byte list) list rocks_locator. locator_open True (kv_empty list_kv) = Ok l0 \<and>
     fst (locator_get list_kv pubkey256_to_bytes True 7
        (fold (locator_apply list_kv pubkey256_to_bytes)
           [LInsert 7 (new_base 1 0 0 0 0 3 0), LInsertBatch [(8, new_base 2 0 0 0 0 3 0), (7, new_base 3 0 0 0 0 4 0)], LDelete 8] l0))
     = Ok (Some (new_base 3 0 0 0 0 4 0))"
proof -
  obtain l0 :: "(byte list \<times> byte list) list rocks_locator" where l0: "locator_open True (kv_empty list_kv) = Ok l0"
    by (simp add: locator_open_def)
  show ?thesis
    using base_locator_refines_map [OF pk256.pubkey_codec_axioms lkv.kv_store_axioms l0, of 7
        "[LInsert 7 (new_base 1 0 0 0 0 3 0), LInsertBatch [(8, new_base 2 0 0 0 0 3 0), (7, new_base 3 0 0 0 0 4 0)], LDelete 8]" "[]"] l0
    by (simp add: map_apply_def)
qed

text \<open>In a session opened on an empty table, with every transaction succeeding, the persistent
  dictionary hands out exactly the ids of the in-memory dictionary.\<close>

theorem persistent_dictionary_refines_dictionary:
  fixes K :: "('t, byte list, u64) kv_ops"
  assumes "pubkey_codec try_from to_bytes" "kv_store K" "pp_open True (kv_empty K) = Ok d"
  shows "fst (pp_create_all K to_bytes pks d) = map Ok (fst (pd_batch_insert pks pd_new)) \<and>
    pp_memory_cache (snd (pp_create_all K to_bytes pks d)) = snd (pd_batch_insert pks pd_new)"
proof -
  have t: "dict_table try_from to_bytes K" by (intro dict_table.intro pubkey_table.intro assms)
  have d: "d = \<lparr> pp_db = kv_empty K, pp_memory_cache = pd_new, pp_next_id = 0 \<rparr>"
    using assms(3) by (auto simp: pp_open_def)
  show ?thesis
    using dict_table.create_all_in_step [OF t dict_table.in_step_open [OF t], of pks] by (simp add: d)
qed

theorem persistent_dictionary_refines_dictionary_witness:
  "\<exists>d. pp_open True (kv_empty list_kv) = Ok d \<and>
     fst (pp_create_all list_kv pubkey256_to_bytes [7, 9, 7] d) = [Ok 0, Ok 1, Ok 0]"
proof -
  obtain d :: "((byte list \<times> u64) list, pubkey256) persistent_dict" where d: "pp_open True (kv_empty list_kv) = Ok d"
    by (simp add: pp_open_def)
  show ?thesis
    using persistent_dictionary_refines_dictionary [OF pk256.pubkey_codec_axioms lkv.kv_store_axioms d, of "[7, 9, 7]"] d
    by (auto simp: pd_insert_def pd_new_def hm_get_def hm_insert_def)
qed

text \<open>Reopening a table that already holds pubkeys starts the counter at zero again: the first
  new pubkey is given id 0 even when a stored pubkey has it, and the two share the id.\<close>

theorem persistent_dictionary_reuses_ids:
  fixes K :: "('t, byte list, u64) kv_ops"
  assumes "pubkey_codec try_from to_bytes" "kv_store K"
    and "kv_get K db (to_bytes p) = Some 0" "kv_get K db (to_bytes q) = None" "pp_open True db = Ok d"
    and "d' = snd (pp_get_or_create_id K to_bytes True True (\<lambda>_. False) q d)"
  shows "fst (pp_get_or_create_id K to_bytes True True (\<lambda>_. False) q d) = Ok 0 \<and>
    pp_get_id K to_bytes True True p d' = Ok (Some 0) \<and> pp_get_id K to_bytes True True q d' = Ok (Some 0)"
proof -
  have ne: "p \<noteq> q" "to_bytes p \<noteq> to_bytes q" using assms(3,4) by auto
  have d: "d = \<lparr> pp_db = db, pp_memory_cache = pd_new, pp_next_id = 0 \<rparr>"
    using assms(5) by (auto simp: pp_open_def)
  show ?thesis
    using assms(3,4) ne kv_store.kv_get_insert [OF assms(2)]
    by (simp add: assms(6) d pp_get_or_create_id_def pp_get_id_def pd_get_id_def pd_insert_def pd_new_def
        hm_get_def hm_insert_def Let_def)
qed

theorem persistent_dictionary_reuses_ids_witness:
  "\<exists>d :: ((byte list \<times> u64) list, pubkey256) persistent_dict.
     pp_open True [(pubkey256_to_bytes 7, 0)] = Ok d \<and>
     fst (pp_get_or_create_id list_kv pubkey256_to_bytes True True (\<lambda>_. False) 9 d) = Ok 0"
proof -
  obtain d :: "((byte list \<times> u64) list, pubkey256) persistent_dict" where d: "pp_open True [(pubkey256_to_bytes 7, 0)] = Ok d"
    by (simp add: pp_open_def)
  show ?thesis
    using persistent_dictionary_reuses_ids [OF pk256.pubkey_codec_axioms lkv.kv_store_axioms _ _ d refl, of 7 9] d
    by (auto simp: list_kv_def)
qed

end
