(* ===== verification/Secondary_Index.thy ===== *)
theory Secondary_Index
  imports Bitmap "HOL-Library.Char_ord" "HOL-Library.List_Lexorder" "HOL-Library.Product_Lexorder"
begin

text \<open>
  The secondary indexes (\<open>index-fabric/src\<close>): program, token owner, token mint, data size,
  discriminator and memcmp index, and the bitmap store.

  Each index is a record with the fields of its \<open>*IndexState\<close> struct, guarded by one lock, so
  that every operation is one atomic step.  The locale \<open>bitmap_index\<close> states what all six
  share (how an account is added and how a key is looked up), \<open>reverse_index\<close> extends it by
  the reverse map and removal of the five that have it.  Both are proved once to refine an
  abstract index, a relation between keys and accounts, and interpreted for each index over
  any lawful treemap.
\<close>

section \<open>The steps every index repeats\<close>

text \<open>Get or assign the id of an account in \<open>pubkey_dict\<close>.\<close>

definition assign_id :: "'pk::linorder \<Rightarrow> ('pk, u64) btree \<Rightarrow> u64 \<Rightarrow> u64 \<times> ('pk, u64) btree \<times> u64" where
  "assign_id account dict next_id =
     (case bt_get dict account of
        Some i \<Rightarrow> (i, dict, next_id)
      | None \<Rightarrow> (next_id, bt_insert account next_id dict, next_id + 1))"

text \<open>\<open>get_mut\<close> and insert the id, or store a new bitmap that holds it.\<close>

definition set_bit_for ::
  "'b treemap_ops \<Rightarrow> 'k::linorder \<Rightarrow> u64 \<Rightarrow> ('k, 'b pubkey_bitmap) btree \<Rightarrow> ('k, 'b pubkey_bitmap) btree" where
  "set_bit_for R key account_id bitmaps =
     (case bt_get bitmaps key of
        Some bitmap \<Rightarrow> bt_insert key (snd (pb_insert R account_id bitmap)) bitmaps
      | None \<Rightarrow> bt_insert key (snd (pb_insert R account_id (pb_new R))) bitmaps)"

definition clear_bit_for ::
  "'b treemap_ops \<Rightarrow> 'k::linorder \<Rightarrow> u64 option \<Rightarrow> ('k, 'b pubkey_bitmap) btree \<Rightarrow> ('k, 'b pubkey_bitmap) btree" where
  "clear_bit_for R key account_id bitmaps =
     (case bt_get bitmaps key of
        None \<Rightarrow> bitmaps
      | Some bitmap \<Rightarrow>
          (case account_id of
             None \<Rightarrow> bitmaps
           | Some i \<Rightarrow> bt_insert key (snd (pb_remove R i bitmap)) bitmaps))"

text \<open>Build the map from ids to pubkeys and resolve the ids of a bitmap through it.\<close>

definition id_to_pubkey :: "('pk, u64) btree \<Rightarrow> (u64, 'pk) btree" where
  "id_to_pubkey dict = fold (\<lambda>(i, k). bt_insert i k) (map (\<lambda>(k, i). (i, k)) dict) []"

definition resolve_ids :: "'b treemap_ops \<Rightarrow> ('pk, u64) btree \<Rightarrow> 'b pubkey_bitmap \<Rightarrow> 'pk list" where
  "resolve_ids R dict bitmap = List.map_filter (bt_get (id_to_pubkey dict)) (pb_iter R bitmap)"


section \<open>Program index\<close>

record ('pk, 'b) program_index =
  prog_bitmaps :: "('pk, 'b pubkey_bitmap) btree"
  prog_account_to_program :: "('pk, 'pk) btree"
  prog_pubkey_dict :: "('pk, u64) btree"
  prog_next_pubkey_id :: u64
  prog_total_accounts :: u64

definition prog_new :: "('pk, 'b) program_index" where
  "prog_new = \<lparr> prog_bitmaps = [], prog_account_to_program = [], prog_pubkey_dict = [],
     prog_next_pubkey_id = 0, prog_total_accounts = 0 \<rparr>"

definition prog_add_account ::
  "'b treemap_ops \<Rightarrow> 'pk::linorder \<Rightarrow> 'pk \<Rightarrow> u64 \<Rightarrow> ('pk, 'b) program_index \<Rightarrow> ('pk, 'b) program_index" where
  "prog_add_account R account program slot s =
     (let (account_id, dict, next_id) = assign_id account (prog_pubkey_dict s) (prog_next_pubkey_id s) in
      s \<lparr> prog_pubkey_dict := dict, prog_next_pubkey_id := next_id,
          prog_bitmaps := set_bit_for R program account_id (prog_bitmaps s),
          prog_account_to_program := bt_insert account program (prog_account_to_program s),
          prog_total_accounts := prog_total_accounts s + 1 \<rparr>)"

definition prog_remove_account ::
  "'b treemap_ops \<Rightarrow> 'pk::linorder \<Rightarrow> ('pk, 'b) program_index \<Rightarrow> ('pk, 'b) program_index" where
  "prog_remove_account R account s =
     (case bt_get (prog_account_to_program s) account of
        None \<Rightarrow> s
      | Some program \<Rightarrow>
          s \<lparr> prog_account_to_program := bt_remove account (prog_account_to_program s),
              prog_bitmaps := clear_bit_for R program (bt_get (prog_pubkey_dict s) account) (prog_bitmaps s),
              prog_total_accounts := saturating_sub (prog_total_accounts s) 1 \<rparr>)"

definition get_program_accounts :: "'b treemap_ops \<Rightarrow> ('pk::linorder, 'b) program_index \<Rightarrow> 'pk \<Rightarrow> 'pk list option" where
  "get_program_accounts R s program =
     (case bt_get (prog_bitmaps s) program of
        None \<Rightarrow> None
      | Some bitmap \<Rightarrow> Some (resolve_ids R (prog_pubkey_dict s) bitmap))"

definition get_program_for_account :: "('pk::linorder, 'b) program_index \<Rightarrow> 'pk \<Rightarrow> 'pk option" where
  "get_program_for_account s account = bt_get (prog_account_to_program s) account"

definition get_all_programs :: "('pk, 'b) program_index \<Rightarrow> 'pk list" where
  "get_all_programs s = bt_keys (prog_bitmaps s)"

definition prog_stats :: "('pk, 'b) program_index \<Rightarrow> u64 \<times> u64" where
  "prog_stats s = (of_nat (length (prog_bitmaps s)), prog_total_accounts s)"

section \<open>Token owner index\<close>

record ('pk, 'b) token_owner_index =
  own_bitmaps :: "('pk, 'b pubkey_bitmap) btree"
  own_account_to_owner :: "('pk, 'pk) btree"
  own_pubkey_dict :: "('pk, u64) btree"
  own_next_pubkey_id :: u64
  own_total_accounts :: u64

definition own_new :: "('pk, 'b) token_owner_index" where
  "own_new = \<lparr> own_bitmaps = [], own_account_to_owner = [], own_pubkey_dict = [],
     own_next_pubkey_id = 0, own_total_accounts = 0 \<rparr>"

definition own_add_token_account ::
  "'b treemap_ops \<Rightarrow> 'pk::linorder \<Rightarrow> 'pk \<Rightarrow> u64 \<Rightarrow> ('pk, 'b) token_owner_index \<Rightarrow> ('pk, 'b) token_owner_index" where
  "own_add_token_account R account owner slot s =
     (let (account_id, dict, next_id) = assign_id account (own_pubkey_dict s) (own_next_pubkey_id s) in
      s \<lparr> own_pubkey_dict := dict, own_next_pubkey_id := next_id,
          own_bitmaps := set_bit_for R owner account_id (own_bitmaps s),
          own_account_to_owner := bt_insert account owner (own_account_to_owner s),
          own_total_accounts := own_total_accounts s + 1 \<rparr>)"

definition own_remove_token_account ::
  "'b treemap_ops \<Rightarrow> 'pk::linorder \<Rightarrow> ('pk, 'b) token_owner_index \<Rightarrow> ('pk, 'b) token_owner_index" where
  "own_remove_token_account R account s =
     (case bt_get (own_account_to_owner s) account of
        None \<Rightarrow> s
      | Some owner \<Rightarrow>
          s \<lparr> own_account_to_owner := bt_remove account (own_account_to_owner s),
              own_bitmaps := clear_bit_for R owner (bt_get (own_pubkey_dict s) account) (own_bitmaps s),
              own_total_accounts := saturating_sub (own_total_accounts s) 1 \<rparr>)"

definition get_token_accounts_by_owner :: "'b treemap_ops \<Rightarrow> ('pk::linorder, 'b) token_owner_index \<Rightarrow> 'pk \<Rightarrow> 'pk list option" where
  "get_token_accounts_by_owner R s owner =
     (case bt_get (own_bitmaps s) owner of
        None \<Rightarrow> None
      | Some bitmap \<Rightarrow> Some (resolve_ids R (own_pubkey_dict s) bitmap))"

definition get_owner_for_token_account :: "('pk::linorder, 'b) token_owner_index \<Rightarrow> 'pk \<Rightarrow> 'pk option" where
  "get_owner_for_token_account s account = bt_get (own_account_to_owner s) account"

definition own_stats :: "('pk, 'b) token_owner_index \<Rightarrow> u64 \<times> u64" where
  "own_stats s = (of_nat (length (own_bitmaps s)), own_total_accounts s)"

section \<open>Token mint index\<close>

record ('pk, 'b) token_mint_index =
  mint_bitmaps :: "('pk, 'b pubkey_bitmap) btree"
  mint_account_to_mint :: "('pk, 'pk) btree"
  mint_pubkey_dict :: "('pk, u64) btree"
  mint_next_pubkey_id :: u64
  mint_total_accounts :: u64

definition mint_new :: "('pk, 'b) token_mint_index" where
  "mint_new = \<lparr> mint_bitmaps = [], mint_account_to_mint = [], mint_pubkey_dict = [],
     mint_next_pubkey_id = 0, mint_total_accounts = 0 \<rparr>"

definition mint_add_token_account ::
  "'b treemap_ops \<Rightarrow> 'pk::linorder \<Rightarrow> 'pk \<Rightarrow> u64 \<Rightarrow> ('pk, 'b) token_mint_index \<Rightarrow> ('pk, 'b) token_mint_index" where
  "mint_add_token_account R account mint slot s =
     (let (account_id, dict, next_id) = assign_id account (mint_pubkey_dict s) (mint_next_pubkey_id s) in
      s \<lparr> mint_pubkey_dict := dict, mint_next_pubkey_id := next_id,
          mint_bitmaps := set_bit_for R mint account_id (mint_bitmaps s),
          mint_account_to_mint := bt_insert account mint (mint_account_to_mint s),
          mint_total_accounts := mint_total_accounts s + 1 \<rparr>)"

definition mint_remove_token_account ::
  "'b treemap_ops \<Rightarrow> 'pk::linorder \<Rightarrow> ('pk, 'b) token_mint_index \<Rightarrow> ('pk, 'b) token_mint_index" where
  "mint_remove_token_account R account s =
     (case bt_get (mint_account_to_mint s) account of
        None \<Rightarrow> s
      | Some mint \<Rightarrow>
          s \<lparr> mint_account_to_mint := bt_remove account (mint_account_to_mint s),
              mint_bitmaps := clear_bit_for R mint (bt_get (mint_pubkey_dict s) account) (mint_bitmaps s),
              mint_total_accounts := saturating_sub (mint_total_accounts s) 1 \<rparr>)"

definition get_token_accounts_by_mint :: "'b treemap_ops \<Rightarrow> ('pk::linorder, 'b) token_mint_index \<Rightarrow> 'pk \<Rightarrow> 'pk list option" where
  "get_token_accounts_by_mint R s mint =
     (case bt_get (mint_bitmaps s) mint of
        None \<Rightarrow> None
      | Some bitmap \<Rightarrow> Some (resolve_ids R (mint_pubkey_dict s) bitmap))"

definition get_mint_for_token_account :: "('pk::linorder, 'b) token_mint_index \<Rightarrow> 'pk \<Rightarrow> 'pk option" where
  "get_mint_for_token_account s account = bt_get (mint_account_to_mint s) account"

definition mint_stats :: "('pk, 'b) token_mint_index \<Rightarrow> u64 \<times> u64" where
  "mint_stats s = (of_nat (length (mint_bitmaps s)), mint_total_accounts s)"

section \<open>Data size index\<close>

record ('pk, 'b) data_size_index =
  dsz_bitmaps :: "(u64, 'b pubkey_bitmap) btree"
  dsz_account_to_size :: "('pk, u64) btree"
  dsz_pubkey_dict :: "('pk, u64) btree"
  dsz_next_pubkey_id :: u64
  dsz_total_accounts :: u64

definition dsz_new :: "('pk, 'b) data_size_index" where
  "dsz_new = \<lparr> dsz_bitmaps = [], dsz_account_to_size = [], dsz_pubkey_dict = [],
     dsz_next_pubkey_id = 0, dsz_total_accounts = 0 \<rparr>"

definition dsz_add_account ::
  "'b treemap_ops \<Rightarrow> 'pk::linorder \<Rightarrow> u64 \<Rightarrow> u64 \<Rightarrow> ('pk, 'b) data_size_index \<Rightarrow> ('pk, 'b) data_size_index" where
  "dsz_add_account R account data_size slot s =
     (let (account_id, dict, next_id) = assign_id account (dsz_pubkey_dict s) (dsz_next_pubkey_id s) in
      s \<lparr> dsz_pubkey_dict := dict, dsz_next_pubkey_id := next_id,
          dsz_bitmaps := set_bit_for R data_size account_id (dsz_bitmaps s),
          dsz_account_to_size := bt_insert account data_size (dsz_account_to_size s),
          dsz_total_accounts := dsz_total_accounts s + 1 \<rparr>)"

definition dsz_remove_account ::
  "'b treemap_ops \<Rightarrow> 'pk::linorder \<Rightarrow> ('pk, 'b) data_size_index \<Rightarrow> ('pk, 'b) data_size_index" where
  "dsz_remove_account R account s =
     (case bt_get (dsz_account_to_size s) account of
        None \<Rightarrow> s
      | Some data_size \<Rightarrow>
          s \<lparr> dsz_account_to_size := bt_remove account (dsz_account_to_size s),
              dsz_bitmaps := clear_bit_for R data_size (bt_get (dsz_pubkey_dict s) account) (dsz_bitmaps s),
              dsz_total_accounts := saturating_sub (dsz_total_accounts s) 1 \<rparr>)"

definition get_accounts_by_size :: "'b treemap_ops \<Rightarrow> ('pk::linorder, 'b) data_size_index \<Rightarrow> u64 \<Rightarrow> 'pk list option" where
  "get_accounts_by_size R s data_size =
     (case bt_get (dsz_bitmaps s) data_size of
        None \<Rightarrow> None
      | Some bitmap \<Rightarrow> Some (resolve_ids R (dsz_pubkey_dict s) bitmap))"

definition get_size_for_account :: "('pk::linorder, 'b) data_size_index \<Rightarrow> 'pk \<Rightarrow> u64 option" where
  "get_size_for_account s account = bt_get (dsz_account_to_size s) account"

definition get_all_sizes :: "('pk, 'b) data_size_index \<Rightarrow> u64 list" where
  "get_all_sizes s = bt_keys (dsz_bitmaps s)"

definition dsz_stats :: "('pk, 'b) data_size_index \<Rightarrow> u64 \<times> u64" where
  "dsz_stats s = (of_nat (length (dsz_bitmaps s)), dsz_total_accounts s)"

section \<open>Discriminator index\<close>

text \<open>A discriminator is an array of 8 bytes, ordered lexicographically.\<close>

record ('pk, 'b) discriminator_index =
  disc_bitmaps :: "(byte list, 'b pubkey_bitmap) btree"
  disc_account_to_discriminator :: "('pk, byte list) btree"
  disc_pubkey_dict :: "('pk, u64) btree"
  disc_next_pubkey_id :: u64
  disc_total_accounts :: u64

definition disc_new :: "('pk, 'b) discriminator_index" where
  "disc_new = \<lparr> disc_bitmaps = [], disc_account_to_discriminator = [], disc_pubkey_dict = [],
     disc_next_pubkey_id = 0, disc_total_accounts = 0 \<rparr>"

definition disc_add_account ::
  "'b treemap_ops \<Rightarrow> 'pk::linorder \<Rightarrow> byte list \<Rightarrow> u64 \<Rightarrow> ('pk, 'b) discriminator_index \<Rightarrow> ('pk, 'b) discriminator_index" where
  "disc_add_account R account discriminator slot s =
     (let (account_id, dict, next_id) = assign_id account (disc_pubkey_dict s) (disc_next_pubkey_id s) in
      s \<lparr> disc_pubkey_dict := dict, disc_next_pubkey_id := next_id,
          disc_bitmaps := set_bit_for R discriminator account_id (disc_bitmaps s),
          disc_account_to_discriminator := bt_insert account discriminator (disc_account_to_discriminator s),
          disc_total_accounts := disc_total_accounts s + 1 \<rparr>)"

definition disc_remove_account ::
  "'b treemap_ops \<Rightarrow> 'pk::linorder \<Rightarrow> ('pk, 'b) discriminator_index \<Rightarrow> ('pk, 'b) discriminator_index" where
  "disc_remove_account R account s =
     (case bt_get (disc_account_to_discriminator s) account of
        None \<Rightarrow> s
      | Some discriminator \<Rightarrow>
          s \<lparr> disc_account_to_discriminator := bt_remove account (disc_account_to_discriminator s),
              disc_bitmaps := clear_bit_for R discriminator (bt_get (disc_pubkey_dict s) account) (disc_bitmaps s),
              disc_total_accounts := saturating_sub (disc_total_accounts s) 1 \<rparr>)"

definition get_accounts_by_discriminator :: "'b treemap_ops \<Rightarrow> ('pk::linorder, 'b) discriminator_index \<Rightarrow> byte list \<Rightarrow> 'pk list option" where
  "get_accounts_by_discriminator R s discriminator =
     (case bt_get (disc_bitmaps s) discriminator of
        None \<Rightarrow> None
      | Some bitmap \<Rightarrow> Some (resolve_ids R (disc_pubkey_dict s) bitmap))"

definition get_discriminator_for_account :: "('pk::linorder, 'b) discriminator_index \<Rightarrow> 'pk \<Rightarrow> byte list option" where
  "get_discriminator_for_account s account = bt_get (disc_account_to_discriminator s) account"

definition get_all_discriminators :: "('pk, 'b) discriminator_index \<Rightarrow> byte list list" where
  "get_all_discriminators s = bt_keys (disc_bitmaps s)"

definition disc_stats :: "('pk, 'b) discriminator_index \<Rightarrow> u64 \<times> u64" where
  "disc_stats s = (of_nat (length (disc_bitmaps s)), disc_total_accounts s)"


section \<open>Memcmp index\<close>

text \<open>The derived order of \<open>MemcmpFilter\<close> compares offsets, then bytes.\<close>

datatype memcmp_filter = MemcmpFilter (filter_offset: u64) (filter_bytes: "byte list")

instantiation memcmp_filter :: linorder
begin

definition less_eq_memcmp_filter :: "memcmp_filter \<Rightarrow> memcmp_filter \<Rightarrow> bool" where
  "less_eq_memcmp_filter f g \<longleftrightarrow> (filter_offset f, filter_bytes f) \<le> (filter_offset g, filter_bytes g)"

definition less_memcmp_filter :: "memcmp_filter \<Rightarrow> memcmp_filter \<Rightarrow> bool" where
  "less_memcmp_filter f g \<longleftrightarrow> (filter_offset f, filter_bytes f) < (filter_offset g, filter_bytes g)"

instance
proof
  fix f g h :: memcmp_filter
  note defs = less_eq_memcmp_filter_def less_memcmp_filter_def
  show "f < g \<longleftrightarrow> f \<le> g \<and> \<not> g \<le> f" unfolding defs by (rule less_le_not_le)
  show "f \<le> f" unfolding defs by (rule order_refl)
  show "f \<le> h" if "f \<le> g" "g \<le> h" using that unfolding defs by (rule order_trans)
  show "f = g" if "f \<le> g" "g \<le> f"
    using order_antisym [OF that [unfolded defs]] by (simp add: memcmp_filter.expand)
  show "f \<le> g \<or> g \<le> f" unfolding defs by (rule linear)
qed

end

record ('pk, 'b) memcmp_index =
  mc_bitmaps :: "(memcmp_filter, 'b pubkey_bitmap) btree"
  mc_account_memcmps :: "('pk, memcmp_filter list) btree"
  mc_pubkey_dict :: "('pk, u64) btree"
  mc_next_pubkey_id :: u64
  mc_total_accounts :: u64

definition mc_new :: "('pk, 'b) memcmp_index" where
  "mc_new = \<lparr> mc_bitmaps = [], mc_account_memcmps = [], mc_pubkey_dict = [],
     mc_next_pubkey_id = 0, mc_total_accounts = 0 \<rparr>"

definition add_account_memcmp ::
  "'b treemap_ops \<Rightarrow> 'pk::linorder \<Rightarrow> u64 \<Rightarrow> byte list \<Rightarrow> u64 \<Rightarrow> ('pk, 'b) memcmp_index \<Rightarrow> ('pk, 'b) memcmp_index" where
  "add_account_memcmp R account offset bytes slot s =
     (let (account_id, dict, next_id) = assign_id account (mc_pubkey_dict s) (mc_next_pubkey_id s);
          f = MemcmpFilter offset bytes;
          memcmps = (case bt_get (mc_account_memcmps s) account of Some fs \<Rightarrow> fs | None \<Rightarrow> [])
      in
      s \<lparr> mc_pubkey_dict := dict, mc_next_pubkey_id := next_id,
          mc_bitmaps := set_bit_for R f account_id (mc_bitmaps s),
          mc_account_memcmps := bt_insert account (memcmps @ [f]) (mc_account_memcmps s),
          mc_total_accounts := mc_total_accounts s + 1 \<rparr>)"

definition get_accounts_by_memcmp ::
  "'b treemap_ops \<Rightarrow> ('pk::linorder, 'b) memcmp_index \<Rightarrow> u64 \<Rightarrow> byte list \<Rightarrow> 'pk list option" where
  "get_accounts_by_memcmp R s offset bytes =
     (case bt_get (mc_bitmaps s) (MemcmpFilter offset bytes) of
        None \<Rightarrow> None
      | Some bitmap \<Rightarrow> Some (resolve_ids R (mc_pubkey_dict s) bitmap))"

definition get_all_memcmp_keys :: "('pk, 'b) memcmp_index \<Rightarrow> (u64 \<times> byte list) list" where
  "get_all_memcmp_keys s = map (\<lambda>f. (filter_offset f, filter_bytes f)) (bt_keys (mc_bitmaps s))"

definition mc_stats :: "('pk, 'b) memcmp_index \<Rightarrow> u64 \<times> u64" where
  "mc_stats s = (of_nat (length (mc_bitmaps s)), mc_total_accounts s)"


section \<open>Bitmap store\<close>

record 'b bitmap_store =
  bs_bitmaps :: "(string \<times> string, 'b pubkey_bitmap) btree"
  bs_total_bitmaps :: u64
  bs_compressed_size_bytes :: u64

definition bs_new :: "'b bitmap_store" where
  "bs_new = \<lparr> bs_bitmaps = [], bs_total_bitmaps = 0, bs_compressed_size_bytes = 0 \<rparr>"

definition store_bitmap ::
  "'b treemap_ops \<Rightarrow> string \<Rightarrow> string \<Rightarrow> 'b pubkey_bitmap \<Rightarrow> u64 \<Rightarrow> 'b bitmap_store \<Rightarrow> 'b bitmap_store" where
  "store_bitmap R index_name key bitmap slot s =
     (let bitmaps = bt_insert (index_name, key) bitmap (bs_bitmaps s) in
      \<lparr> bs_bitmaps = bitmaps, bs_total_bitmaps = of_nat (length bitmaps),
        bs_compressed_size_bytes =
          saturating_add (bs_compressed_size_bytes s) (of_nat (pb_compressed_size R bitmap)) \<rparr>)"

definition get_bitmap :: "'b bitmap_store \<Rightarrow> string \<Rightarrow> string \<Rightarrow> 'b pubkey_bitmap option" where
  "get_bitmap s index_name key = bt_get (bs_bitmaps s) (index_name, key)"

definition remove_bitmap ::
  "'b treemap_ops \<Rightarrow> string \<Rightarrow> string \<Rightarrow> 'b bitmap_store \<Rightarrow> 'b bitmap_store" where
  "remove_bitmap R index_name key s =
     (case bt_get (bs_bitmaps s) (index_name, key) of
        None \<Rightarrow> s
      | Some bitmap \<Rightarrow>
          (let bitmaps = bt_remove (index_name, key) (bs_bitmaps s) in
           \<lparr> bs_bitmaps = bitmaps, bs_total_bitmaps = of_nat (length bitmaps),
             bs_compressed_size_bytes =
               saturating_sub (bs_compressed_size_bytes s) (of_nat (pb_compressed_size R bitmap)) \<rparr>))"

definition bs_stats :: "'b bitmap_store \<Rightarrow> u64 \<times> u64" where
  "bs_stats s = (bs_total_bitmaps s, bs_compressed_size_bytes s)"


section \<open>The abstract index\<close>

text \<open>
  An index promises a relation between keys and accounts.  \<open>is_order\<close> lists the accounts in
  order of first insertion (the order of their ids, hence of every result), \<open>is_keys\<close> the
  keys ever used, \<open>is_key_of\<close> the last key of each present account.
\<close>

record ('pk, 'k) index_spec =
  is_order :: "'pk list"
  is_rel :: "('k \<times> 'pk) set"
  is_keys :: "'k set"
  is_key_of :: "'pk \<rightharpoonup> 'k"
  is_total :: u64

definition spec_new :: "('pk, 'k) index_spec" where
  "spec_new = \<lparr> is_order = [], is_rel = {}, is_keys = {}, is_key_of = Map.empty, is_total = 0 \<rparr>"

definition spec_add :: "'pk \<Rightarrow> 'k \<Rightarrow> ('pk, 'k) index_spec \<Rightarrow> ('pk, 'k) index_spec" where
  "spec_add a k A =
     \<lparr> is_order = add_new a (is_order A), is_rel = insert (k, a) (is_rel A), is_keys = insert k (is_keys A),
       is_key_of = (is_key_of A)(a \<mapsto> k), is_total = is_total A + 1 \<rparr>"

definition spec_remove :: "'pk \<Rightarrow> ('pk, 'k) index_spec \<Rightarrow> ('pk, 'k) index_spec" where
  "spec_remove a A =
     (case is_key_of A a of
        None \<Rightarrow> A
      | Some k \<Rightarrow> A \<lparr> is_rel := is_rel A - {(k, a)}, is_key_of := (is_key_of A)(a := None),
                     is_total := saturating_sub (is_total A) 1 \<rparr>)"

definition spec_lookup :: "('pk, 'k) index_spec \<Rightarrow> 'k \<Rightarrow> 'pk list option" where
  "spec_lookup A k = (if k \<in> is_keys A then Some (filter (\<lambda>a. (k, a) \<in> is_rel A) (is_order A)) else None)"

datatype ('pk, 'k) index_op = AddAccount 'pk 'k u64 | RemoveAccount 'pk

definition spec_apply :: "('pk, 'k) index_op \<Rightarrow> ('pk, 'k) index_spec \<Rightarrow> ('pk, 'k) index_spec" where
  "spec_apply oper A = (case oper of AddAccount a k slot \<Rightarrow> spec_add a k A | RemoveAccount a \<Rightarrow> spec_remove a A)"

definition index_apply ::
  "('pk \<Rightarrow> 'k \<Rightarrow> u64 \<Rightarrow> 's \<Rightarrow> 's) \<Rightarrow> ('pk \<Rightarrow> 's \<Rightarrow> 's) \<Rightarrow> ('pk, 'k) index_op \<Rightarrow> 's \<Rightarrow> 's" where
  "index_apply add remove oper s =
     (case oper of AddAccount a k slot \<Rightarrow> add a k slot s | RemoveAccount a \<Rightarrow> remove a s)"

text \<open>The part of the state that every index has.\<close>

record ('pk, 'k, 'b) index_core =
  ic_bitmaps :: "('k, 'b pubkey_bitmap) btree"
  ic_dict :: "('pk, u64) btree"
  ic_next :: u64
  ic_total :: u64

definition index_core_add ::
  "'b treemap_ops \<Rightarrow> 'pk::linorder \<Rightarrow> 'k::linorder \<Rightarrow> ('pk, 'k, 'b) index_core \<Rightarrow> ('pk, 'k, 'b) index_core" where
  "index_core_add R a k c =
     (let (i, dict, next_id) = assign_id a (ic_dict c) (ic_next c) in
      \<lparr> ic_bitmaps = set_bit_for R k i (ic_bitmaps c), ic_dict = dict, ic_next = next_id,
        ic_total = ic_total c + 1 \<rparr>)"

definition index_core_remove ::
  "'b treemap_ops \<Rightarrow> 'pk::linorder \<Rightarrow> 'k::linorder \<Rightarrow> ('pk, 'k, 'b) index_core \<Rightarrow> ('pk, 'k, 'b) index_core" where
  "index_core_remove R a k c =
     c \<lparr> ic_bitmaps := clear_bit_for R k (bt_get (ic_dict c) a) (ic_bitmaps c),
         ic_total := saturating_sub (ic_total c) 1 \<rparr>"

text \<open>
  The dictionary numbers the accounts in order, and the bitmap of a key holds the numbers of
  its accounts.
\<close>

definition dict_refines :: "('pk::linorder, u64) btree \<Rightarrow> u64 \<Rightarrow> 'pk list \<Rightarrow> bool" where
  "dict_refines dict next_id order \<longleftrightarrow>
     distinct order \<and> length order < 2 ^ 64 \<and> bt_invar dict \<and> next_id = of_nat (length order) \<and>
     (\<forall>a i. bt_get dict a = Some i \<longleftrightarrow> unat i < length order \<and> order ! unat i = a)"

definition ids_of :: "'pk list \<Rightarrow> ('pk \<Rightarrow> bool) \<Rightarrow> u64 set" where
  "ids_of order P = {i. unat i < length order \<and> P (order ! unat i)}"

definition bitmaps_refine ::
  "'b treemap_ops \<Rightarrow> ('k::linorder, 'b pubkey_bitmap) btree \<Rightarrow> ('pk, 'k) index_spec \<Rightarrow> bool" where
  "bitmaps_refine R bitmaps A \<longleftrightarrow>
     bt_invar bitmaps \<and> is_rel A \<subseteq> is_keys A \<times> set (is_order A) \<and>
     (\<forall>k. bt_get bitmaps k = None \<longleftrightarrow> k \<notin> is_keys A) \<and>
     (\<forall>k b. bt_get bitmaps k = Some b \<longrightarrow> set (pb_iter R b) = ids_of (is_order A) (\<lambda>a. (k, a) \<in> is_rel A))"

definition index_core_refines ::
  "'b treemap_ops \<Rightarrow> ('pk::linorder, 'k::linorder, 'b) index_core \<Rightarrow> ('pk, 'k) index_spec \<Rightarrow> bool" where
  "index_core_refines R c A \<longleftrightarrow>
     dict_refines (ic_dict c) (ic_next c) (is_order A) \<and> bitmaps_refine R (ic_bitmaps c) A \<and>
     ic_total c = is_total A"


section \<open>The dictionary of an index\<close>

lemma bt_get_insert_same: "bt_get (bt_insert k v m) k = Some v"
  by (induction m) (auto simp: bt_get_def)

lemma dict_refines_get_None: "dict_refines dict n order \<Longrightarrow> bt_get dict a = None \<longleftrightarrow> a \<notin> set order"
proof -
  assume d: "dict_refines dict n order"
  have "a \<in> set order \<longleftrightarrow> (\<exists>i. bt_get dict a = Some i)"
  proof
    assume "a \<in> set order"
    then obtain j where "j < length order" "order ! j = a" by (auto simp: in_set_conv_nth)
    moreover have "length order < 2 ^ 64" using d by (simp add: dict_refines_def)
    ultimately have "bt_get dict a = Some (of_nat j)" using d by (simp add: dict_refines_def unat_of_nat_eq)
    then show "\<exists>i. bt_get dict a = Some i" ..
  qed (use d in \<open>auto simp: dict_refines_def\<close>)
  then show ?thesis by auto
qed

lemma assign_id_refines:
  assumes d: "dict_refines dict n order" and len: "length order + 1 < 2 ^ 64"
    and r: "assign_id a dict n = (i, dict', n')"
  shows "dict_refines dict' n' (add_new a order) \<and>
    unat i < length (add_new a order) \<and> add_new a order ! unat i = a"
proof (cases "bt_get dict a")
  case None
  then have new: "a \<notin> set order" using dict_refines_get_None [OF d] by simp
  have eqs: "i = of_nat (length order)" "dict' = bt_insert a i dict" "n' = of_nat (Suc (length order))"
    using r None d by (auto simp: assign_id_def dict_refines_def)
  have u: "unat i = length order" using len by (simp add: eqs(1) unat_of_length)
  have "bt_get dict' b = Some j \<longleftrightarrow> unat j < length (order @ [a]) \<and> (order @ [a]) ! unat j = b" for b j
    using d new u unat_eq_of_nat [of "length order" j] len
    by (auto simp: eqs dict_refines_def bt.get_ins nth_append less_Suc_eq unat_of_length)
  then show ?thesis using d new u len eqs by (simp add: dict_refines_def add_new_def bt.invar_ins)
next
  case (Some j)
  then show ?thesis
    using r d dict_refines_get_None [OF d, of a] by (auto simp: assign_id_def dict_refines_def add_new_def)
qed

lemma id_to_pubkey_get:
  assumes d: "dict_refines dict n order"
  shows "bt_get (id_to_pubkey dict) i = (if unat i < length order then Some (order ! unat i) else None)"
proof -
  let ?kvs = "map (\<lambda>(k, i). (i, k)) dict"
  have mem: "(i, a) \<in> set ?kvs \<longleftrightarrow> unat i < length order \<and> order ! unat i = a" for i a
    using d by (auto simp: dict_refines_def bt_get_eq_Some)
  have "distinct dict" using d bt_invar_distinct [of dict] by (simp add: dict_refines_def distinct_map)
  moreover have "inj_on snd (set dict)"
    using d by (auto simp: inj_on_def dict_refines_def bt_get_eq_Some)
  ultimately have dist: "distinct (map fst ?kvs)"
    by (simp add: o_def case_prod_unfold distinct_map)
  show ?thesis
  proof (cases "unat i < length order")
    case True
    then have "(i, order ! unat i) \<in> set ?kvs" using mem by blast
    then show ?thesis using bt.get_ins_distinct [OF bt.invar_empty dist] True by (simp add: id_to_pubkey_def)
  next
    case False
    then have "i \<notin> fst ` set ?kvs" using mem by force
    then have "map_of (rev ?kvs) i = None" by (simp add: map_of_eq_None_iff)
    then show ?thesis
      using bt.get_ins_all [OF bt.invar_empty, of ?kvs i] False by (simp add: id_to_pubkey_def bt.get_empty)
  qed
qed

section \<open>Interfaces\<close>

lemma filter_eq_map_nth: "filter P xs = map (nth xs) (filter (\<lambda>n. P (xs ! n)) [0..<length xs])"
proof (induction xs rule: rev_induct)
  case (snoc x xs)
  have "filter (\<lambda>n. P ((xs @ [x]) ! n)) [0..<length xs] = filter (\<lambda>n. P (xs ! n)) [0..<length xs]"
    by (rule filter_cong) (auto simp: nth_append)
  then show ?case by (auto simp: nth_append snoc intro!: map_cong)
qed simp

lemma map_filter_Some: "(\<And>x. x \<in> set xs \<Longrightarrow> f x = Some (g x)) \<Longrightarrow> List.map_filter f xs = map g xs"
  by (induction xs) (auto simp: List.map_filter_simps)

lemma nth_unat_eq_iff:
  fixes i j :: u64
  assumes "distinct xs" "unat i < length xs" "unat j < length xs"
  shows "xs ! unat j = xs ! unat i \<longleftrightarrow> j = i"
  using nth_eq_iff_index_eq [OF assms(1,3,2)] by (simp add: word_unat_eq_iff)

lemma ids_of_list:
  assumes "length order < 2 ^ 64" "sorted_wrt (<) ids" "set ids = ids_of order P"
  shows "ids = map of_nat (filter (\<lambda>n. P (order ! n)) [0..<length order])"
proof (rule strict_sorted_equal [OF _ assms(2)])
  let ?ns = "filter (\<lambda>n. P (order ! n)) [0..<length order]"
  have small: "unat (of_nat n :: u64) = n" if "n < length order" for n
    using that assms(1) by (simp add: unat_of_nat_eq)
  have "sorted_wrt (\<lambda>m n. (of_nat m :: u64) < of_nat n) ?ns"
    by (rule sorted_wrt_mono_rel [OF _ sorted_wrt_filter [OF sorted_wrt_upt]])
      (auto simp: word_less_nat_alt small)
  then show "sorted_wrt (<) (map (of_nat :: nat \<Rightarrow> u64) ?ns)" by (simp add: sorted_wrt_map)
  show "set ids = set (map of_nat ?ns)"
    unfolding assms(3) ids_of_def using small by (auto simp: image_iff) (metis word_nat_cases unat_of_nat_eq of_nat_unat)
qed

context roaring
begin

lemma resolve_ids_eq:
  assumes "dict_refines dict n order" "set (pb_iter R b) = ids_of order P"
  shows "resolve_ids R dict b = filter P order"
proof -
  have len: "length order < 2 ^ 64" using assms(1) by (simp add: dict_refines_def)
  have "resolve_ids R dict b = map (\<lambda>i. order ! unat i) (pb_iter R b)"
    unfolding resolve_ids_def using assms
    by (intro map_filter_Some) (simp add: id_to_pubkey_get ids_of_def)
  also have "\<dots> = map (nth order) (filter (\<lambda>n. P (order ! n)) [0..<length order])"
    using len by (auto simp: ids_of_list [OF len pb.elems_sorted assms(2)] unat_of_nat_eq)
  finally show ?thesis by (simp add: filter_eq_map_nth [symmetric])
qed

lemma set_bit_for_get:
  assumes "bt_invar bitmaps"
  shows "bt_invar (set_bit_for R k i bitmaps) \<and>
    (k' \<noteq> k \<longrightarrow> bt_get (set_bit_for R k i bitmaps) k' = bt_get bitmaps k') \<and>
    (\<exists>b. bt_get (set_bit_for R k i bitmaps) k = Some b \<and>
      set (pb_iter R b) = insert i (case bt_get bitmaps k of None \<Rightarrow> {} | Some b0 \<Rightarrow> set (pb_iter R b0)))"
  using assms by (auto simp: set_bit_for_def bt.get_ins bt.invar_ins pb.elems_ins pb.elems_new split: option.splits)

lemma clear_bit_for_get:
  assumes "bt_invar bitmaps" "bt_get bitmaps k = Some b"
  shows "bt_invar (clear_bit_for R k (Some i) bitmaps) \<and>
    (k' \<noteq> k \<longrightarrow> bt_get (clear_bit_for R k (Some i) bitmaps) k' = bt_get bitmaps k') \<and>
    (\<exists>b'. bt_get (clear_bit_for R k (Some i) bitmaps) k = Some b' \<and>
      set (pb_iter R b') = set (pb_iter R b) - {i})"
  using assms by (auto simp: clear_bit_for_def bt.get_ins bt.invar_ins pb.elems_rem)

lemma core_add_refines:
  assumes r: "index_core_refines R c A" and len: "length (is_order A) + 1 < 2 ^ 64"
  shows "index_core_refines R (index_core_add R a k c) (spec_add a k A)"
proof -
  obtain i dict n where asg: "assign_id a (ic_dict c) (ic_next c) = (i, dict, n)" by (metis surj_pair)
  let ?order = "add_new a (is_order A)" and ?rel = "insert (k, a) (is_rel A)"
  have dr: "dict_refines dict n ?order" and i: "unat i < length ?order" "?order ! unat i = a"
    using assign_id_refines [OF _ len asg] r by (auto simp: index_core_refines_def)
  have dist: "distinct ?order" using dr by (simp add: dict_refines_def)
  have br: "bitmaps_refine R (ic_bitmaps c) A" using r by (simp add: index_core_refines_def)
  then have inv: "bt_invar (ic_bitmaps c)" and sub: "is_rel A \<subseteq> is_keys A \<times> set (is_order A)"
    by (auto simp: bitmaps_refine_def)
  have old: "ids_of ?order (\<lambda>x. (k', x) \<in> is_rel A) = ids_of (is_order A) (\<lambda>x. (k', x) \<in> is_rel A)" for k'
    using sub by (auto simp: ids_of_def add_new_def nth_append)
  have new: "ids_of ?order (\<lambda>x. (k', x) \<in> ?rel) =
      (if k' = k then insert i (ids_of ?order (\<lambda>x. (k', x) \<in> is_rel A)) else ids_of ?order (\<lambda>x. (k', x) \<in> is_rel A))" for k'
    using i nth_unat_eq_iff [OF dist i(1)] by (auto simp: ids_of_def)
  have emp: "ids_of ?order (\<lambda>x. (k', x) \<in> is_rel A) = {}" if "k' \<notin> is_keys A" for k'
    using that sub by (auto simp: ids_of_def)
  have "bitmaps_refine R (set_bit_for R k i (ic_bitmaps c)) (spec_add a k A)"
    unfolding bitmaps_refine_def spec_add_def index_spec.simps new
  proof (intro conjI allI impI)
    show "bt_invar (set_bit_for R k i (ic_bitmaps c))" using set_bit_for_get [OF inv] by blast
    show "?rel \<subseteq> insert k (is_keys A) \<times> set ?order"
      using sub i by (auto simp: add_new_def)
    show "bt_get (set_bit_for R k i (ic_bitmaps c)) k' = None \<longleftrightarrow> k' \<notin> insert k (is_keys A)" for k'
      using set_bit_for_get [OF inv, of k i k'] br by (cases "k' = k") (auto simp: bitmaps_refine_def)
    show "set (pb_iter R b) =
        (if k' = k then insert i (ids_of ?order (\<lambda>x. (k', x) \<in> is_rel A)) else ids_of ?order (\<lambda>x. (k', x) \<in> is_rel A))"
      if "bt_get (set_bit_for R k i (ic_bitmaps c)) k' = Some b" for k' b
    proof (cases "k' = k")
      case True
      then have "set (pb_iter R b) =
          insert i (case bt_get (ic_bitmaps c) k of None \<Rightarrow> {} | Some b0 \<Rightarrow> set (pb_iter R b0))"
        using set_bit_for_get [OF inv, of k i k'] that by auto
      then show ?thesis
        using br True emp [of k] by (auto simp: bitmaps_refine_def old split: option.splits)
    next
      case False
      then show ?thesis using set_bit_for_get [OF inv, of k i k'] that br by (auto simp: bitmaps_refine_def old)
    qed
  qed
  then show ?thesis
    using dr r asg by (simp add: index_core_refines_def index_core_add_def spec_add_def)
qed

lemma core_remove_refines:
  assumes r: "index_core_refines R c A" and a: "(k, a) \<in> is_rel A" "is_key_of A a = Some k"
  shows "index_core_refines R (index_core_remove R a k c) (spec_remove a A)"
proof -
  have br: "bitmaps_refine R (ic_bitmaps c) A" and dr: "dict_refines (ic_dict c) (ic_next c) (is_order A)"
    using r by (auto simp: index_core_refines_def)
  have inv: "bt_invar (ic_bitmaps c)" and sub: "is_rel A \<subseteq> is_keys A \<times> set (is_order A)"
    using br by (auto simp: bitmaps_refine_def)
  obtain b where b: "bt_get (ic_bitmaps c) k = Some b" using br a sub by (fastforce simp: bitmaps_refine_def)
  obtain i where i: "bt_get (ic_dict c) a = Some i" using dict_refines_get_None [OF dr, of a] a sub by auto
  then have ith: "unat i < length (is_order A)" "is_order A ! unat i = a" and dist: "distinct (is_order A)"
    using dr by (auto simp: dict_refines_def)
  have new: "ids_of (is_order A) (\<lambda>x. (k', x) \<in> is_rel A - {(k, a)}) =
      (if k' = k then ids_of (is_order A) (\<lambda>x. (k', x) \<in> is_rel A) - {i} else ids_of (is_order A) (\<lambda>x. (k', x) \<in> is_rel A))" for k'
    using ith nth_unat_eq_iff [OF dist ith(1)] by (auto simp: ids_of_def)
  have fields: "is_rel (spec_remove a A) = is_rel A - {(k, a)}" "is_order (spec_remove a A) = is_order A"
      "is_keys (spec_remove a A) = is_keys A"
    by (simp_all add: spec_remove_def a(2))
  have "bitmaps_refine R (clear_bit_for R k (Some i) (ic_bitmaps c)) (spec_remove a A)"
    unfolding bitmaps_refine_def fields new
  proof (intro conjI allI impI)
    show "bt_invar (clear_bit_for R k (Some i) (ic_bitmaps c))" using clear_bit_for_get [OF inv b] by blast
    show "is_rel A - {(k, a)} \<subseteq> is_keys A \<times> set (is_order A)" using sub by blast
    show "bt_get (clear_bit_for R k (Some i) (ic_bitmaps c)) k' = None \<longleftrightarrow> k' \<notin> is_keys A" for k'
      using clear_bit_for_get [OF inv b, of i k'] br a(1) sub by (cases "k' = k") (auto simp: bitmaps_refine_def)
    show "set (pb_iter R b') = (if k' = k then ids_of (is_order A) (\<lambda>x. (k', x) \<in> is_rel A) - {i}
          else ids_of (is_order A) (\<lambda>x. (k', x) \<in> is_rel A))"
      if "bt_get (clear_bit_for R k (Some i) (ic_bitmaps c)) k' = Some b'" for k' b'
      using clear_bit_for_get [OF inv b, of i k'] br b that by (cases "k' = k") (auto simp: bitmaps_refine_def)
  qed
  then show ?thesis
    using dr r i a(2) by (simp add: index_core_refines_def index_core_remove_def spec_remove_def)
qed

lemma core_lookup:
  assumes "index_core_refines R c A"
  shows "(case bt_get (ic_bitmaps c) k of None \<Rightarrow> None | Some b \<Rightarrow> Some (resolve_ids R (ic_dict c) b)) = spec_lookup A k"
proof -
  have key: "bt_get (ic_bitmaps c) k = None \<longleftrightarrow> k \<notin> is_keys A"
    using assms unfolding index_core_refines_def bitmaps_refine_def by blast
  have res: "resolve_ids R (ic_dict c) b = filter (\<lambda>a. (k, a) \<in> is_rel A) (is_order A)"
    if "bt_get (ic_bitmaps c) k = Some b" for b
    using assms that unfolding index_core_refines_def bitmaps_refine_def by (blast intro: resolve_ids_eq)
  show ?thesis using key res by (auto simp: spec_lookup_def split: option.split)
qed

lemma core_keys:
  assumes "index_core_refines R c A"
  shows "set (bt_keys (ic_bitmaps c)) = is_keys A" "length (ic_bitmaps c) = card (is_keys A)"
proof -
  show s: "set (bt_keys (ic_bitmaps c)) = is_keys A"
    using assms bt_get_None [of "ic_bitmaps c"] by (auto simp: index_core_refines_def bitmaps_refine_def)
  have "distinct (bt_keys (ic_bitmaps c))"
    using assms bt_invar_distinct by (auto simp: index_core_refines_def bitmaps_refine_def bt_keys_def)
  then show "length (ic_bitmaps c) = card (is_keys A)"
    using s distinct_card [of "bt_keys (ic_bitmaps c)"] by (simp add: bt_keys_def)
qed

end

lemma length_order_spec_apply: "length (is_order (spec_apply oper A)) \<le> Suc (length (is_order A))"
  by (simp add: spec_apply_def spec_add_def spec_remove_def length_add_new split: index_op.split option.split)

text \<open>What the six indexes share.\<close>

locale bitmap_index = roaring R for R :: "'b treemap_ops" +
  fixes core :: "'s \<Rightarrow> ('pk::linorder, 'k::linorder, 'b) index_core"
    and new :: 's
    and add :: "'pk \<Rightarrow> 'k \<Rightarrow> u64 \<Rightarrow> 's \<Rightarrow> 's"
    and lookup :: "'s \<Rightarrow> 'k \<Rightarrow> 'pk list option"
    and stats :: "'s \<Rightarrow> u64 \<times> u64"
  assumes core_new: "core new = \<lparr> ic_bitmaps = [], ic_dict = [], ic_next = 0, ic_total = 0 \<rparr>"
    and core_add: "core (add a k slot s) = index_core_add R a k (core s)"
    and lookup_core: "lookup s k =
      (case bt_get (ic_bitmaps (core s)) k of None \<Rightarrow> None | Some b \<Rightarrow> Some (resolve_ids R (ic_dict (core s)) b))"
    and stats_core: "stats s = (of_nat (length (ic_bitmaps (core s))), ic_total (core s))"
begin

lemma new_refines: "index_core_refines R (core new) spec_new"
  by (simp add: core_new index_core_refines_def dict_refines_def bitmaps_refine_def spec_new_def
      bt.get_empty bt.invar_empty)

lemma lookup_refines: "index_core_refines R (core s) A \<Longrightarrow> lookup s k = spec_lookup A k"
  by (simp only: lookup_core core_lookup)

lemma stats_refines: "index_core_refines R (core s) A \<Longrightarrow> stats s = (of_nat (card (is_keys A)), is_total A)"
  using core_keys(2) [of "core s" A] by (simp add: stats_core index_core_refines_def)

lemma adds_refine:
  assumes "index_core_refines R (core s) A" "length (is_order A) + length aks < 2 ^ 64"
  shows "index_core_refines R (core (fold (\<lambda>(a, k, slot). add a k slot) aks s)) (fold (\<lambda>(a, k, slot). spec_add a k) aks A)"
  using assms
proof (induction aks arbitrary: s A)
  case (Cons x aks)
  obtain a k slot where x: "x = (a, k, slot)" by (cases x)
  have "index_core_refines R (core (add a k slot s)) (spec_add a k A)"
    using core_add_refines [OF Cons.prems(1)] Cons.prems(2) by (simp add: core_add)
  moreover have "length (is_order (spec_add a k A)) + length aks < 2 ^ 64"
    using Cons.prems(2) length_add_new [of a "is_order A"] by (simp add: spec_add_def)
  ultimately show ?case using Cons.IH by (simp add: x)
qed simp

end

text \<open>The five indexes that keep one key per account and support removal.\<close>

locale reverse_index = bitmap_index R core new add lookup stats
  for R :: "'b treemap_ops" and core :: "'s \<Rightarrow> ('pk::linorder, 'k::linorder, 'b) index_core"
    and new add lookup stats +
  fixes rev_map :: "'s \<Rightarrow> ('pk, 'k) btree"
    and remove :: "'pk \<Rightarrow> 's \<Rightarrow> 's"
    and key_for :: "'s \<Rightarrow> 'pk \<Rightarrow> 'k option"
  assumes rev_new: "rev_map new = []"
    and rev_add: "rev_map (add a k slot s) = bt_insert a k (rev_map s)"
    and rev_remove: "rev_map (remove a s) = (if bt_get (rev_map s) a = None then rev_map s else bt_remove a (rev_map s))"
    and core_remove: "core (remove a s) =
      (case bt_get (rev_map s) a of None \<Rightarrow> core s | Some k \<Rightarrow> index_core_remove R a k (core s))"
    and key_for_rev: "key_for s a = bt_get (rev_map s) a"
begin

text \<open>The reverse map agrees with the relation: the last key of a present account is one of its keys.\<close>

definition index_refines :: "'s \<Rightarrow> ('pk, 'k) index_spec \<Rightarrow> bool" where
  "index_refines s A \<longleftrightarrow>
     index_core_refines R (core s) A \<and> bt_invar (rev_map s) \<and> bt_get (rev_map s) = is_key_of A \<and>
     (\<forall>a k. is_key_of A a = Some k \<longrightarrow> (k, a) \<in> is_rel A)"

lemma index_refines_new: "index_refines new spec_new"
  using new_refines by (auto simp: index_refines_def rev_new spec_new_def bt.invar_empty bt.get_empty)

lemma index_refines_add:
  assumes "index_refines s A" "length (is_order A) + 1 < 2 ^ 64"
  shows "index_refines (add a k slot s) (spec_add a k A)"
  using assms core_add_refines [of "core s" A a k]
  by (auto simp: index_refines_def core_add rev_add bt.invar_ins bt.get_ins spec_add_def)

lemma index_refines_remove:
  assumes "index_refines s A"
  shows "index_refines (remove a s) (spec_remove a A)"
proof (cases "is_key_of A a")
  case None
  then show ?thesis using assms by (simp add: index_refines_def core_remove rev_remove spec_remove_def)
next
  case (Some k)
  then show ?thesis
    using assms core_remove_refines [of "core s" A k a]
    by (auto simp: index_refines_def core_remove rev_remove spec_remove_def bt.invar_del bt.get_del)
qed

lemma index_refines_run:
  assumes "index_refines s A" "length (is_order A) + length opers < 2 ^ 64"
  shows "index_refines (fold (index_apply add remove) opers s) (fold spec_apply opers A)"
  using assms
proof (induction opers arbitrary: s A)
  case (Cons oper opers)
  have "index_refines (index_apply add remove oper s) (spec_apply oper A)"
    using Cons.prems index_refines_add index_refines_remove
    by (auto simp: index_apply_def spec_apply_def split: index_op.split)
  moreover have "length (is_order (spec_apply oper A)) + length opers < 2 ^ 64"
    using Cons.prems(2) length_order_spec_apply [of oper A] by simp
  ultimately show ?case using Cons.IH by simp
qed simp

theorem history_refines:
  assumes "length opers < 2 ^ 64"
  shows "lookup (fold (index_apply add remove) opers new) k = spec_lookup (fold spec_apply opers spec_new) k"
    and "key_for (fold (index_apply add remove) opers new) = is_key_of (fold spec_apply opers spec_new)"
    and "stats (fold (index_apply add remove) opers new) =
      (of_nat (card (is_keys (fold spec_apply opers spec_new))), is_total (fold spec_apply opers spec_new))"
proof -
  have r: "index_refines (fold (index_apply add remove) opers new) (fold spec_apply opers spec_new)"
    using index_refines_run [OF index_refines_new] assms by (simp add: spec_new_def)
  show "lookup (fold (index_apply add remove) opers new) k = spec_lookup (fold spec_apply opers spec_new) k"
    using r lookup_refines by (simp add: index_refines_def)
  show "key_for (fold (index_apply add remove) opers new) = is_key_of (fold spec_apply opers spec_new)"
    using r by (auto simp: index_refines_def key_for_rev fun_eq_iff)
  show "stats (fold (index_apply add remove) opers new) =
      (of_nat (card (is_keys (fold spec_apply opers spec_new))), is_total (fold spec_apply opers spec_new))"
    using r stats_refines by (simp add: index_refines_def)
qed

end

section \<open>The indexes implement the interfaces\<close>

definition prog_core :: "('pk, 'b) program_index \<Rightarrow> ('pk, 'pk, 'b) index_core" where
  "prog_core s = \<lparr> ic_bitmaps = prog_bitmaps s, ic_dict = prog_pubkey_dict s, ic_next = prog_next_pubkey_id s,
     ic_total = prog_total_accounts s \<rparr>"

definition own_core :: "('pk, 'b) token_owner_index \<Rightarrow> ('pk, 'pk, 'b) index_core" where
  "own_core s = \<lparr> ic_bitmaps = own_bitmaps s, ic_dict = own_pubkey_dict s, ic_next = own_next_pubkey_id s,
     ic_total = own_total_accounts s \<rparr>"

definition mint_core :: "('pk, 'b) token_mint_index \<Rightarrow> ('pk, 'pk, 'b) index_core" where
  "mint_core s = \<lparr> ic_bitmaps = mint_bitmaps s, ic_dict = mint_pubkey_dict s, ic_next = mint_next_pubkey_id s,
     ic_total = mint_total_accounts s \<rparr>"

definition dsz_core :: "('pk, 'b) data_size_index \<Rightarrow> ('pk, u64, 'b) index_core" where
  "dsz_core s = \<lparr> ic_bitmaps = dsz_bitmaps s, ic_dict = dsz_pubkey_dict s, ic_next = dsz_next_pubkey_id s,
     ic_total = dsz_total_accounts s \<rparr>"

definition disc_core :: "('pk, 'b) discriminator_index \<Rightarrow> ('pk, byte list, 'b) index_core" where
  "disc_core s = \<lparr> ic_bitmaps = disc_bitmaps s, ic_dict = disc_pubkey_dict s, ic_next = disc_next_pubkey_id s,
     ic_total = disc_total_accounts s \<rparr>"

definition mc_core :: "('pk, 'b) memcmp_index \<Rightarrow> ('pk, memcmp_filter, 'b) index_core" where
  "mc_core s = \<lparr> ic_bitmaps = mc_bitmaps s, ic_dict = mc_pubkey_dict s, ic_next = mc_next_pubkey_id s,
     ic_total = mc_total_accounts s \<rparr>"

lemmas index_core_simps = index_core_add_def index_core_remove_def Let_def case_prod_unfold

sublocale roaring \<subseteq> prog: reverse_index R prog_core prog_new "prog_add_account R" "get_program_accounts R" prog_stats
    prog_account_to_program "prog_remove_account R" get_program_for_account
  by unfold_locales
    (simp_all add: prog_core_def prog_new_def prog_add_account_def prog_remove_account_def get_program_accounts_def get_program_for_account_def prog_stats_def index_core_simps
      split: option.split)

sublocale roaring \<subseteq> own: reverse_index R own_core own_new "own_add_token_account R" "get_token_accounts_by_owner R" own_stats
    own_account_to_owner "own_remove_token_account R" get_owner_for_token_account
  by unfold_locales
    (simp_all add: own_core_def own_new_def own_add_token_account_def own_remove_token_account_def get_token_accounts_by_owner_def get_owner_for_token_account_def own_stats_def index_core_simps
      split: option.split)

sublocale roaring \<subseteq> mint: reverse_index R mint_core mint_new "mint_add_token_account R" "get_token_accounts_by_mint R" mint_stats
    mint_account_to_mint "mint_remove_token_account R" get_mint_for_token_account
  by unfold_locales
    (simp_all add: mint_core_def mint_new_def mint_add_token_account_def mint_remove_token_account_def get_token_accounts_by_mint_def get_mint_for_token_account_def mint_stats_def index_core_simps
      split: option.split)

sublocale roaring \<subseteq> dsz: reverse_index R dsz_core dsz_new "dsz_add_account R" "get_accounts_by_size R" dsz_stats
    dsz_account_to_size "dsz_remove_account R" get_size_for_account
  by unfold_locales
    (simp_all add: dsz_core_def dsz_new_def dsz_add_account_def dsz_remove_account_def get_accounts_by_size_def get_size_for_account_def dsz_stats_def index_core_simps
      split: option.split)

sublocale roaring \<subseteq> disc: reverse_index R disc_core disc_new "disc_add_account R" "get_accounts_by_discriminator R" disc_stats
    disc_account_to_discriminator "disc_remove_account R" get_discriminator_for_account
  by unfold_locales
    (simp_all add: disc_core_def disc_new_def disc_add_account_def disc_remove_account_def get_accounts_by_discriminator_def get_discriminator_for_account_def disc_stats_def index_core_simps
      split: option.split)

sublocale roaring \<subseteq> mc: bitmap_index R mc_core mc_new "\<lambda>a f. add_account_memcmp R a (filter_offset f) (filter_bytes f)"
    "\<lambda>s f. get_accounts_by_memcmp R s (filter_offset f) (filter_bytes f)" mc_stats
  by unfold_locales
    (simp_all add: mc_core_def mc_new_def add_account_memcmp_def get_accounts_by_memcmp_def mc_stats_def
      index_core_simps split: option.split)

context roaring
begin

lemmas prog_history = prog.history_refines
lemmas own_history = own.history_refines
lemmas mint_history = mint.history_refines
lemmas dsz_history = dsz.history_refines
lemmas disc_history = disc.history_refines

lemma mc_history:
  assumes "length aks < 2 ^ 64"
  shows "index_core_refines R
    (mc_core (fold (\<lambda>(a, f, slot). add_account_memcmp R a (filter_offset f) (filter_bytes f) slot) aks mc_new))
    (fold (\<lambda>(a, f, slot). spec_add a f) aks spec_new)"
  using mc.adds_refine [OF mc.new_refines, of aks] assms by (simp add: spec_new_def)

lemmas mc_lookup = mc.lookup_refines
lemmas mc_stats = mc.stats_refines

end


section \<open>Histories with one key per account\<close>

text \<open>A present account is only added again with the key it has.\<close>

fun well_keyed :: "('pk, 'k) index_op list \<Rightarrow> ('pk \<rightharpoonup> 'k) \<Rightarrow> bool" where
  "well_keyed [] m = True"
| "well_keyed (AddAccount a k slot # opers) m = ((m a = None \<or> m a = Some k) \<and> well_keyed opers (m(a \<mapsto> k)))"
| "well_keyed (RemoveAccount a # opers) m = well_keyed opers (m(a := None))"

lemma spec_remove_key_of: "is_key_of (spec_remove a A) = (is_key_of A)(a := None)"
  by (auto simp: spec_remove_def fun_eq_iff split: option.split)

lemma well_keyed_rel:
  assumes "well_keyed opers (is_key_of A)" "is_rel A = {(k, a). is_key_of A a = Some k}"
  shows "is_rel (fold spec_apply opers A) = {(k, a). is_key_of (fold spec_apply opers A) a = Some k}"
  using assms
proof (induction opers "is_key_of A" arbitrary: A rule: well_keyed.induct)
  case (2 a k slot opers)
  have "is_rel (spec_add a k A) = {(k', b). is_key_of (spec_add a k A) b = Some k'}"
    using 2(2,3) by (auto simp: spec_add_def)
  then show ?case using 2 by (simp add: spec_apply_def spec_add_def)
next
  case (3 a opers)
  have "is_rel (spec_remove a A) = {(k', b). is_key_of (spec_remove a A) b = Some k'}"
    using 3(3) by (auto simp: spec_remove_def split: option.split if_splits)
  then show ?case using 3 by (simp add: spec_apply_def spec_remove_key_of)
qed simp

lemma spec_keys_covered:
  "is_rel A \<subseteq> is_keys A \<times> set (is_order A) \<Longrightarrow>
   is_rel (fold spec_apply opers A) \<subseteq> is_keys (fold spec_apply opers A) \<times> set (is_order (fold spec_apply opers A))"
proof (induction opers arbitrary: A)
  case (Cons oper opers)
  have "is_rel (spec_apply oper A) \<subseteq> is_keys (spec_apply oper A) \<times> set (is_order (spec_apply oper A))"
    using Cons.prems
    by (auto simp: spec_apply_def spec_add_def spec_remove_def add_new_def split: index_op.splits option.splits if_splits)
  then show ?case using Cons.IH by simp
qed simp

lemma well_keyed_lookup:
  assumes "well_keyed opers Map.empty"
  shows "(case spec_lookup (fold spec_apply opers spec_new) k of None \<Rightarrow> {} | Some as \<Rightarrow> set as) =
    {a. is_key_of (fold spec_apply opers spec_new) a = Some k}"
proof -
  have rel: "is_rel (fold spec_apply opers spec_new) = {(k, a). is_key_of (fold spec_apply opers spec_new) a = Some k}"
    using well_keyed_rel [of opers spec_new] assms by (simp add: spec_new_def)
  have "is_rel (fold spec_apply opers spec_new) \<subseteq>
      is_keys (fold spec_apply opers spec_new) \<times> set (is_order (fold spec_apply opers spec_new))"
    using spec_keys_covered [of spec_new opers] by (simp add: spec_new_def)
  then show ?thesis by (auto simp: spec_lookup_def rel)
qed


section \<open>Properties\<close>

text \<open>C5: after any history of fewer than \<open>2^64\<close> calls each of the secondary indexes answers as the
  abstract index does: a lookup returns exactly the accounts related to the key, in order of
  their first insertion, or nothing for a key never used; the reverse lookup returns the
  last key; the statistics count keys and calls.\<close>

theorem secondary_indexes_refine_spec:
  assumes "roaring R" "length opers < 2 ^ 64" "length sizes < 2 ^ 64" "length discs < 2 ^ 64" "length memcmps < 2 ^ 64"
    and "A = fold spec_apply opers spec_new" "Z = fold spec_apply sizes spec_new" "D = fold spec_apply discs spec_new"
    and "M = fold (\<lambda>(a, f, slot). spec_add a f) memcmps spec_new"
    and "p = fold (index_apply (prog_add_account R) (prog_remove_account R)) opers prog_new"
    and "w = fold (index_apply (own_add_token_account R) (own_remove_token_account R)) opers own_new"
    and "m = fold (index_apply (mint_add_token_account R) (mint_remove_token_account R)) opers mint_new"
    and "z = fold (index_apply (dsz_add_account R) (dsz_remove_account R)) sizes dsz_new"
    and "d = fold (index_apply (disc_add_account R) (disc_remove_account R)) discs disc_new"
    and "c = fold (\<lambda>(a, f, slot). add_account_memcmp R a (filter_offset f) (filter_bytes f) slot) memcmps mc_new"
  shows "get_program_accounts R p k = spec_lookup A k \<and> get_program_for_account p = is_key_of A \<and>
      prog_stats p = (of_nat (card (is_keys A)), is_total A) \<and>
    get_token_accounts_by_owner R w k = spec_lookup A k \<and> get_owner_for_token_account w = is_key_of A \<and>
    get_token_accounts_by_mint R m k = spec_lookup A k \<and> get_mint_for_token_account m = is_key_of A \<and>
    get_accounts_by_size R z n = spec_lookup Z n \<and> get_size_for_account z = is_key_of Z \<and>
    get_accounts_by_discriminator R d b = spec_lookup D b \<and> get_discriminator_for_account d = is_key_of D \<and>
    get_accounts_by_memcmp R c i b = spec_lookup M (MemcmpFilter i b) \<and>
      mc_stats c = (of_nat (card (is_keys M)), is_total M)"
proof -
  have mc: "index_core_refines R (mc_core c) M"
    unfolding assms(9,15) by (rule roaring.mc_history [OF assms(1,5)])
  show ?thesis
    using roaring.prog_history [OF assms(1,2)] roaring.own_history [OF assms(1,2)]
      roaring.mint_history [OF assms(1,2)] roaring.dsz_history [OF assms(1,3)]
      roaring.disc_history [OF assms(1,4)] roaring.mc_stats [OF assms(1) mc]
      roaring.mc_lookup [OF assms(1) mc, of "MemcmpFilter i b"]
    by (simp add: assms(6-8,10-14))
qed

definition sample_ops :: "(nat, nat) index_op list" where
  "sample_ops = [AddAccount 11 1 100, AddAccount 12 1 101, AddAccount 10 2 102, RemoveAccount 11]"

lemmas sample_spec_simps = sample_ops_def spec_apply_def spec_new_def spec_add_def spec_remove_def
  spec_lookup_def add_new_def saturating_sub_def

theorem secondary_indexes_refine_spec_witness:
  "get_program_accounts list_treemap
     (fold (index_apply (prog_add_account list_treemap) (prog_remove_account list_treemap)) sample_ops prog_new) 1 = Some [12]"
proof -
  have "spec_lookup (fold spec_apply sample_ops spec_new) 1 = Some [12]"
    by (auto simp: sample_spec_simps)
  moreover have "length sample_ops < 2 ^ 64" by (simp add: sample_ops_def)
  ultimately show ?thesis
    using secondary_indexes_refine_spec [OF lt.roaring_axioms, of sample_ops "[]" "[]" "[]",
        OF _ _ _ _ refl refl refl refl refl refl refl refl refl refl, of 1 0 "[]" 0, THEN conjunct1]
    by simp
qed

text \<open>As long as an account is removed before it is added under another program, the program
  index is exact: the accounts of a program are exactly those whose program it is.\<close>

theorem program_index_exact:
  assumes "roaring R" "length opers < 2 ^ 64" "well_keyed opers Map.empty"
    and "p = fold (index_apply (prog_add_account R) (prog_remove_account R)) opers prog_new"
  shows "(case get_program_accounts R p k of None \<Rightarrow> {} | Some as \<Rightarrow> set as) = {a. get_program_for_account p a = Some k}"
  using well_keyed_lookup [OF assms(3), of k] roaring.prog_history(1,2) [OF assms(1,2)]
  by (simp add: assms(4))

theorem program_index_exact_witness:
  "(case get_program_accounts list_treemap
     (fold (index_apply (prog_add_account list_treemap) (prog_remove_account list_treemap)) sample_ops prog_new) 1
    of None \<Rightarrow> {} | Some as \<Rightarrow> set as) =
   {a. get_program_for_account
     (fold (index_apply (prog_add_account list_treemap) (prog_remove_account list_treemap)) sample_ops prog_new) a = Some 1}"
  using program_index_exact [OF lt.roaring_axioms, of sample_ops _ 1, OF _ _ refl] by (simp add: sample_ops_def)

text \<open>Adding an account under another program without removing it first leaves it in the
  results of the old program for good: it is still returned after the account has been
  removed and has no program any more; and every such call counts as one more account.\<close>

theorem program_index_rekey_leaves_stale_account:
  assumes "roaring R" "length opers + 3 < 2 ^ 64" "old \<noteq> new"
    and "p = fold (index_apply (prog_add_account R) (prog_remove_account R)) opers prog_new"
    and "q = prog_add_account R a new t (prog_add_account R a old s p)"
  shows "(\<exists>as. get_program_accounts R (prog_remove_account R a q) old = Some as \<and> a \<in> set as) \<and>
    get_program_for_account (prog_remove_account R a q) a = None \<and>
    snd (prog_stats q) = snd (prog_stats p) + 2"
proof -
  let ?run = "\<lambda>os. fold (index_apply (prog_add_account R) (prog_remove_account R)) os prog_new"
  let ?adds = "opers @ [AddAccount a old s, AddAccount a new t]"
  let ?A = "fold spec_apply opers spec_new"
  have q: "q = ?run ?adds" "prog_remove_account R a q = ?run (?adds @ [RemoveAccount a])"
    by (simp_all add: assms(4,5) index_apply_def)
  have "snd (prog_stats q) = is_total (fold spec_apply ?adds spec_new)"
    unfolding q(1) using assms(2) by (subst roaring.prog_history(3) [OF assms(1)]) simp_all
  moreover have "snd (prog_stats p) = is_total ?A"
    unfolding assms(4) using assms(2) by (subst roaring.prog_history(3) [OF assms(1)]) simp_all
  moreover have "get_program_for_account (prog_remove_account R a q) = is_key_of (fold spec_apply (?adds @ [RemoveAccount a]) spec_new)"
      "get_program_accounts R (prog_remove_account R a q) old = spec_lookup (fold spec_apply (?adds @ [RemoveAccount a]) spec_new) old"
    unfolding q(2) using assms(2) by (intro roaring.prog_history(1,2) [OF assms(1)]; simp)+
  ultimately show ?thesis
    using assms(3) by (simp add: spec_apply_def spec_add_def spec_remove_def spec_lookup_def add_new_def)
qed

theorem program_index_rekey_leaves_stale_account_witness:
  "\<exists>as. get_program_accounts list_treemap (prog_remove_account list_treemap (7 :: nat)
      (prog_add_account list_treemap 7 2 101 (prog_add_account list_treemap 7 1 100 prog_new))) 1 = Some as \<and> 7 \<in> set as"
  using program_index_rekey_leaves_stale_account [OF lt.roaring_axioms, of "[]" 1 2 prog_new _ "7 :: nat" 101 100, OF _ _ _ refl]
  by simp

text \<open>The bitmap store is a map from index name and key to the last bitmap stored there, and its
  total is the number of stored bitmaps; storing over a bitmap adds the new size without
  taking the old one off.\<close>

lemma bitmap_store_get:
  assumes "bt_invar (bs_bitmaps s)"
  shows "get_bitmap (store_bitmap R n k b slot s) n' k' = (if (n', k') = (n, k) then Some b else get_bitmap s n' k')"
    and "get_bitmap (remove_bitmap R n k s) n' k' = (if (n', k') = (n, k) then None else get_bitmap s n' k')"
    and "bt_invar (bs_bitmaps (store_bitmap R n k b slot s))" "bt_invar (bs_bitmaps (remove_bitmap R n k s))"
    and "fst (bs_stats (store_bitmap R n k b slot s)) = of_nat (length (bs_bitmaps (store_bitmap R n k b slot s)))"
  using assms
  by (auto simp: get_bitmap_def store_bitmap_def remove_bitmap_def bs_stats_def Let_def bt.get_ins bt.get_del
      bt.invar_ins bt.invar_del split: option.split)

lemma bitmap_store_size_accumulates:
  assumes "unat (snd (bs_stats s)) + 2 * pb_compressed_size R b < 2 ^ 64"
  shows "unat (snd (bs_stats (remove_bitmap R n k (store_bitmap R n k b t (store_bitmap R n k b u s))))) =
    unat (snd (bs_stats s)) + pb_compressed_size R b"
proof -
  have "unat (of_nat (pb_compressed_size R b) :: u64) = pb_compressed_size R b"
    using assms by (intro unat_of_nat_eq) simp
  moreover have "bt_get (bt_insert (n, k) b (bt_insert (n, k) b (bs_bitmaps s))) (n, k) = Some b"
    by (simp add: bt_get_insert_same)
  ultimately show ?thesis
    using assms by (simp add: bs_stats_def remove_bitmap_def store_bitmap_def Let_def unat_saturating_add
        unat_saturating_sub)
qed

end
