(* ===== verification/Query_Cost.thy ===== *)
theory Query_Cost
  imports Complex_Main Secondary_Index
begin

text \<open>
  Cost model, cost estimator and bitmap intersection engine (\<open>query-orchestrator/src\<close>:
  \<open>types.rs\<close>, \<open>cost_model.rs\<close>, \<open>cost_estimator.rs\<close>, \<open>bitmap_intersection.rs\<close>).

  Costs are 64-bit words.  The estimator computes with \<open>f64\<close>; its values are modelled as
  rationals and the rounding of a result to the nearest representable value as the argument
  \<open>rnd\<close>.  The main result is that the order the cost model chooses has the lowest cost of
  all orders of the same filters.
\<close>

section \<open>Filters and statistics\<close>

datatype gpa_filter =
    GpaDataSize u64
  | GpaMemcmp u64 "byte list"
  | GpaDiscriminator "byte list"

datatype 'pk filter_type =
    FtDiscriminator "byte list"
  | FtMemcmp u64 "byte list"
  | FtDataSize u64
  | FtProgram 'pk

record 'pk index_statistics =
  st_program_cardinality :: "('pk, u64) btree"
  st_datasize_cardinality :: "(u64, u64) btree"
  st_memcmp_cardinality :: "(u64 \<times> byte list, u64) btree"
  st_discriminator_cardinality :: "(byte list, u64) btree"
  st_total_accounts :: u64
  st_last_updated_slot :: u64

record 'pk cardinality_estimate =
  ce_filter_type :: "'pk filter_type"
  ce_estimated_cardinality :: u64
  ce_confidence :: rat

record 'pk optimized_execution_plan =
  op_execution_order :: "'pk filter_type list"
  op_intermediate_cardinalities :: "u64 list"
  op_estimated_total_cost :: u64
  op_estimated_time_us :: u64

record cost_weights =
  cw_bitmap_lookup_cost :: u64
  cw_intersection_cost_per_account :: u64
  cw_memory_access_cost_per_account :: u64

record 'pk query_cost_model =
  cm_stats :: "'pk index_statistics"
  cm_cost_weights :: cost_weights

definition cost_weights_default :: cost_weights where
  "cost_weights_default = \<lparr> cw_bitmap_lookup_cost = 10, cw_intersection_cost_per_account = 1,
     cw_memory_access_cost_per_account = 2 \<rparr>"

definition cost_model_new :: "'pk query_cost_model" where
  "cost_model_new =
     \<lparr> cm_stats = \<lparr> st_program_cardinality = [], st_datasize_cardinality = [], st_memcmp_cardinality = [],
         st_discriminator_cardinality = [], st_total_accounts = 0, st_last_updated_slot = 0 \<rparr>,
       cm_cost_weights = cost_weights_default \<rparr>"


section \<open>Cost model\<close>

text \<open>One of the four refresh loops: clear the map, then store the number of accounts of every key.\<close>

definition refresh_cardinalities :: "'k::linorder list \<Rightarrow> ('k \<Rightarrow> 'pk list option) \<Rightarrow> ('k, u64) btree" where
  "refresh_cardinalities ks accounts_of =
     fold (\<lambda>k m. case accounts_of k of Some accounts \<Rightarrow> bt_insert k (of_nat (length accounts)) m | None \<Rightarrow> m) ks []"

definition refresh_statistics ::
  "'b treemap_ops \<Rightarrow> ('pk::linorder, 'b) program_index \<Rightarrow> ('pk, 'b) data_size_index \<Rightarrow> ('pk, 'b) memcmp_index \<Rightarrow>
   ('pk, 'b) discriminator_index \<Rightarrow> u64 \<Rightarrow> 'pk query_cost_model \<Rightarrow> 'pk query_cost_model" where
  "refresh_statistics R program_index data_size_index memcmp_index discriminator_index current_slot cm =
     cm \<lparr> cm_stats := (cm_stats cm)
       \<lparr> st_program_cardinality :=
           refresh_cardinalities (get_all_programs program_index) (get_program_accounts R program_index),
         st_datasize_cardinality :=
           refresh_cardinalities (get_all_sizes data_size_index) (get_accounts_by_size R data_size_index),
         st_memcmp_cardinality :=
           refresh_cardinalities (get_all_memcmp_keys memcmp_index) (\<lambda>(offset, bytes). get_accounts_by_memcmp R memcmp_index offset bytes),
         st_discriminator_cardinality :=
           refresh_cardinalities (get_all_discriminators discriminator_index) (get_accounts_by_discriminator R discriminator_index),
         st_last_updated_slot := current_slot \<rparr> \<rparr>"

definition unwrap_or :: "'a \<Rightarrow> 'a option \<Rightarrow> 'a" where
  "unwrap_or d x = (case x of Some v \<Rightarrow> v | None \<Rightarrow> d)"

fun estimate_cardinality :: "'pk query_cost_model \<Rightarrow> gpa_filter \<Rightarrow> 'pk cardinality_estimate" where
  "estimate_cardinality cm (GpaDataSize data_size) =
     (let cardinality = unwrap_or 0 (bt_get (st_datasize_cardinality (cm_stats cm)) data_size) in
      \<lparr> ce_filter_type = FtDataSize data_size, ce_estimated_cardinality = cardinality,
        ce_confidence = (if cardinality > 0 then 9 / 10 else 1 / 2) \<rparr>)"
| "estimate_cardinality cm (GpaMemcmp offset bytes) =
     (let cardinality = unwrap_or 0 (bt_get (st_memcmp_cardinality (cm_stats cm)) (offset, bytes)) in
      \<lparr> ce_filter_type = FtMemcmp offset bytes, ce_estimated_cardinality = cardinality,
        ce_confidence = (if cardinality > 0 then 9 / 10 else 1 / 2) \<rparr>)"
| "estimate_cardinality cm (GpaDiscriminator disc) =
     (let cardinality = unwrap_or 0 (bt_get (st_discriminator_cardinality (cm_stats cm)) disc) in
      \<lparr> ce_filter_type = FtDiscriminator disc, ce_estimated_cardinality = cardinality,
        ce_confidence = (if cardinality > 0 then 95 / 100 else 1 / 2) \<rparr>)"

primrec cost_loop :: "cost_weights \<Rightarrow> u64 \<Rightarrow> u64 \<Rightarrow> u64 list \<Rightarrow> u64 \<times> u64" where
  "cost_loop W running total_cost [] = (running, total_cost)"
| "cost_loop W running total_cost (cardinality # cs) =
     cost_loop W (min running cardinality) (total_cost + running * cw_intersection_cost_per_account W) cs"

definition calculate_cost :: "cost_weights \<Rightarrow> ('pk filter_type \<times> u64) list \<Rightarrow> u64" where
  "calculate_cost W filters =
     (let total_cost = of_nat (length filters) * cw_bitmap_lookup_cost W in
      if length filters > 1 then
        (let (running, total2) = cost_loop W (snd (filters ! 0)) total_cost (map snd (drop 1 filters))
         in total2 + running * cw_memory_access_cost_per_account W)
      else total_cost)"

definition filter_estimates :: "'pk::linorder query_cost_model \<Rightarrow> 'pk \<Rightarrow> gpa_filter list \<Rightarrow> ('pk filter_type \<times> u64) list" where
  "filter_estimates cm program_id filters =
     (FtProgram program_id, unwrap_or 1000000 (bt_get (st_program_cardinality (cm_stats cm)) program_id)) #
     map (\<lambda>f. let e = estimate_cardinality cm f in (ce_filter_type e, ce_estimated_cardinality e)) filters"

primrec intermediate_loop :: "u64 \<Rightarrow> u64 list \<Rightarrow> u64 list" where
  "intermediate_loop current [] = []"
| "intermediate_loop current (cardinality # cs) =
     (let current' = min current cardinality in current' # intermediate_loop current' cs)"

definition create_optimized_plan ::
  "'pk::linorder query_cost_model \<Rightarrow> 'pk \<Rightarrow> gpa_filter list \<Rightarrow> 'pk optimized_execution_plan" where
  "create_optimized_plan cm program_id filters =
     (let program_cardinality = unwrap_or 1000000 (bt_get (st_program_cardinality (cm_stats cm)) program_id);
          estimates = sort_key snd (filter_estimates cm program_id filters);
          total_cost = calculate_cost (cm_cost_weights cm) estimates
      in \<lparr> op_execution_order = map fst estimates,
           op_intermediate_cardinalities = intermediate_loop program_cardinality (map snd estimates),
           op_estimated_total_cost = total_cost, op_estimated_time_us = total_cost \<rparr>)"

definition get_statistics :: "'pk query_cost_model \<Rightarrow> 'pk index_statistics" where
  "get_statistics cm = cm_stats cm"

definition bump :: "'k::linorder \<Rightarrow> ('k, u64) btree \<Rightarrow> ('k, u64) btree" where
  "bump k m = bt_insert k (unwrap_or 0 (bt_get m k) + 1) m"

definition update_account_statistics ::
  "'pk::linorder \<Rightarrow> u64 \<Rightarrow> byte list \<Rightarrow> 'pk query_cost_model \<Rightarrow> 'pk query_cost_model" where
  "update_account_statistics program_id data_size data cm =
     (let st = cm_stats cm in
      cm \<lparr> cm_stats := st
        \<lparr> st_program_cardinality := bump program_id (st_program_cardinality st),
          st_datasize_cardinality := bump data_size (st_datasize_cardinality st),
          st_discriminator_cardinality :=
            (if length data \<ge> 8 then bump (take 8 data) (st_discriminator_cardinality st)
             else st_discriminator_cardinality st),
          st_total_accounts := st_total_accounts st + 1 \<rparr> \<rparr>)"


section \<open>Bitmap intersection engine\<close>

record 'b intersection_result =
  ir_bitmap :: "'b pubkey_bitmap"
  ir_num_bitmaps :: nat
  ir_estimated_time_us :: u64

definition engine_intersect :: "'b treemap_ops \<Rightarrow> 'b pubkey_bitmap list \<Rightarrow> 'b intersection_result" where
  "engine_intersect R bitmaps =
     (case bitmaps of
        [] \<Rightarrow> \<lparr> ir_bitmap = pb_new R, ir_num_bitmaps = 0, ir_estimated_time_us = 0 \<rparr>
      | b # bs \<Rightarrow>
          (let r = fold (\<lambda>bitmap r. pb_intersection R r bitmap) bs b in
           \<lparr> ir_bitmap = r, ir_num_bitmaps = length bitmaps,
             ir_estimated_time_us = (pb_len r * of_nat (length bitmaps)) div 1000 \<rparr>))"

definition engine_intersect_two :: "'b treemap_ops \<Rightarrow> 'b pubkey_bitmap \<Rightarrow> 'b pubkey_bitmap \<Rightarrow> 'b pubkey_bitmap" where
  "engine_intersect_two R a b = pb_intersection R a b"

definition engine_union :: "'b treemap_ops \<Rightarrow> 'b pubkey_bitmap list \<Rightarrow> 'b pubkey_bitmap" where
  "engine_union R bitmaps =
     (case bitmaps of [] \<Rightarrow> pb_new R | b # bs \<Rightarrow> fold (\<lambda>bitmap r. pb_union R r bitmap) bs b)"

definition engine_difference :: "'b treemap_ops \<Rightarrow> 'b pubkey_bitmap \<Rightarrow> 'b pubkey_bitmap \<Rightarrow> 'b pubkey_bitmap" where
  "engine_difference R a b = pb_difference R a b"


section \<open>Cost estimator\<close>

record query_cost_components =
  qc_base_cost :: u64
  qc_intersection_cost :: u64
  qc_fetch_cost :: u64
  qc_filter_cost :: u64

record query_cost_estimate =
  qe_total_cost :: u64
  qe_estimated_cardinality :: u64
  qe_estimated_time_us :: u64
  qe_components :: query_cost_components
  qe_should_stream :: bool

record query_cost_estimator =
  es_base_cost :: u64
  es_intersection_cost_per_bitmap :: u64
  es_fetch_cost_per_account :: u64

definition estimator_new :: query_cost_estimator where
  "estimator_new = \<lparr> es_base_cost = 100, es_intersection_cost_per_bitmap = 10, es_fetch_cost_per_account = 1 \<rparr>"

text \<open>\<open>as u64\<close> truncates and saturates.\<close>

definition f64_to_u64 :: "rat \<Rightarrow> u64" where
  "f64_to_u64 x = (if x < 0 then 0 else if 2 ^ 64 \<le> x then - 1 else of_int \<lfloor>x\<rfloor>)"

definition f64_mul :: "(rat \<Rightarrow> rat) \<Rightarrow> rat \<Rightarrow> rat \<Rightarrow> rat" where
  "f64_mul rnd literal x = rnd (x * rnd literal)"

definition estimator_cardinality ::
  "(rat \<Rightarrow> rat) \<Rightarrow> 'b pubkey_bitmap \<Rightarrow> nat \<Rightarrow> nat \<Rightarrow> bool \<Rightarrow> u64" where
  "estimator_cardinality rnd program_bitmap num_data_size_filters num_memcmp_filters has_discriminator_filter =
     (let c0 = rnd (of_nat (unat (pb_len program_bitmap)));
          c1 = (f64_mul rnd (1 / 10) ^^ num_data_size_filters) c0;
          c2 = (f64_mul rnd (5 / 100) ^^ num_memcmp_filters) c1;
          c3 = (if has_discriminator_filter then f64_mul rnd (1 / 100) c2 else c2)
      in f64_to_u64 (of_int \<lceil>c3\<rceil>))"

definition estimate_get_program_accounts ::
  "(rat \<Rightarrow> rat) \<Rightarrow> query_cost_estimator \<Rightarrow> 'b pubkey_bitmap \<Rightarrow> nat \<Rightarrow> nat \<Rightarrow> bool \<Rightarrow> query_cost_estimate" where
  "estimate_get_program_accounts rnd es program_bitmap num_data_size_filters num_memcmp_filters has_discriminator_filter =
     (let base_cost = es_base_cost es;
          num_intersections = 1 + num_data_size_filters + num_memcmp_filters + (if has_discriminator_filter then 1 else 0);
          intersection_cost = of_nat num_intersections * es_intersection_cost_per_bitmap es;
          estimated_cardinality =
            estimator_cardinality rnd program_bitmap num_data_size_filters num_memcmp_filters has_discriminator_filter;
          fetch_cost = estimated_cardinality * es_fetch_cost_per_account es;
          filter_cost = of_nat num_memcmp_filters * estimated_cardinality * 10;
          total_cost = base_cost + intersection_cost + fetch_cost + filter_cost
      in \<lparr> qe_total_cost = total_cost, qe_estimated_cardinality = estimated_cardinality,
           qe_estimated_time_us = total_cost,
           qe_components = \<lparr> qc_base_cost = base_cost, qc_intersection_cost = intersection_cost,
             qc_fetch_cost = fetch_cost, qc_filter_cost = filter_cost \<rparr>,
           qe_should_stream = (estimated_cardinality > 1000) \<rparr>)"


section \<open>Cost of an order\<close>

text \<open>The cost with unbounded arithmetic, as a function of the cardinalities.\<close>

primrec cost_loop_nat :: "nat \<Rightarrow> nat \<Rightarrow> nat \<Rightarrow> nat list \<Rightarrow> nat \<times> nat" where
  "cost_loop_nat w running total_cost [] = (running, total_cost)"
| "cost_loop_nat w running total_cost (c # cs) = cost_loop_nat w (min running c) (total_cost + running * w) cs"

definition cost_nat :: "cost_weights \<Rightarrow> nat list \<Rightarrow> nat" where
  "cost_nat W cs =
     length cs * unat (cw_bitmap_lookup_cost W) +
     (if length cs > 1 then
        (let (running, total_cost) = cost_loop_nat (unat (cw_intersection_cost_per_account W)) (cs ! 0) 0 (drop 1 cs)
         in total_cost + running * unat (cw_memory_access_cost_per_account W))
      else 0)"

lemma cost_loop_nat_total: "cost_loop_nat w r (t + d) cs = (fst (cost_loop_nat w r t cs), d + snd (cost_loop_nat w r t cs))"
proof (induction cs arbitrary: r t)
  case (Cons c cs)
  have "t + d + r * w = t + r * w + d" by simp
  then show ?case using Cons [of "min r c" "t + r * w"] by (simp only: cost_loop_nat.simps)
qed simp

lemma cost_loop_nat_ge:
  "m \<le> r \<Longrightarrow> \<forall>c\<in>set cs. m \<le> c \<Longrightarrow>
   m \<le> fst (cost_loop_nat w r t cs) \<and> t + length cs * (m * w) \<le> snd (cost_loop_nat w r t cs)"
proof (induction cs arbitrary: r t)
  case (Cons c cs)
  then have "m \<le> fst (cost_loop_nat w (min r c) (t + r * w) cs) \<and>
      t + r * w + length cs * (m * w) \<le> snd (cost_loop_nat w (min r c) (t + r * w) cs)"
    by simp
  moreover have "m * w \<le> r * w" using Cons.prems(1) by (rule mult_le_mono1)
  ultimately have "m \<le> fst (cost_loop_nat w (min r c) (t + r * w) cs)"
      "t + (m * w + length cs * (m * w)) \<le> snd (cost_loop_nat w (min r c) (t + r * w) cs)"
    by linarith+
  then show ?case by simp
qed simp

lemma cost_loop_nat_min:
  "\<forall>c\<in>set cs. r \<le> c \<Longrightarrow> cost_loop_nat w r t cs = (r, t + length cs * (r * w))"
  by (induction cs arbitrary: t) (simp_all add: min_absorb1)

lemma cost_nat_sorted_le:
  assumes "mset cs = mset ds" "sorted cs"
  shows "cost_nat W cs \<le> cost_nat W ds"
proof -
  have len: "length cs = length ds" and set: "set cs = set ds"
    using assms(1) by (auto dest: mset_eq_length mset_eq_setD)
  show ?thesis
  proof (cases "length cs > 1")
    case True
    then obtain c cs' d ds' where eq: "cs = c # cs'" "ds = d # ds'"
      using len by (cases cs; cases ds) auto
    have "\<forall>x\<in>set ds. c \<le> x" unfolding set [symmetric] using assms(2) by (auto simp: eq)
    then have "c \<le> d" "\<forall>x\<in>set ds'. c \<le> x" by (auto simp: eq)
    note ge = cost_loop_nat_ge [OF this, of "unat (cw_intersection_cost_per_account W)" 0]
    have "cost_loop_nat (unat (cw_intersection_cost_per_account W)) c 0 cs' =
        (c, length ds' * (c * unat (cw_intersection_cost_per_account W)))"
      using assms(2) len by (simp add: eq cost_loop_nat_min)
    then show ?thesis
      using True len ge by (simp add: cost_nat_def eq case_prod_unfold Let_def add_mono)
  qed (simp add: cost_nat_def len)
qed

lemma cost_loop_unat:
  assumes "snd (cost_loop_nat (unat (cw_intersection_cost_per_account W)) (unat r) (unat t) (map unat cs)) < 2 ^ 64"
  shows "unat (fst (cost_loop W r t cs)) =
      fst (cost_loop_nat (unat (cw_intersection_cost_per_account W)) (unat r) (unat t) (map unat cs)) \<and>
    unat (snd (cost_loop W r t cs)) =
      snd (cost_loop_nat (unat (cw_intersection_cost_per_account W)) (unat r) (unat t) (map unat cs))"
  using assms
proof (induction cs arbitrary: r t)
  case (Cons c cs)
  let ?w = "cw_intersection_cost_per_account W"
  have grow: "n \<le> snd (cost_loop_nat (unat ?w) m n ks)" for m n ks
    using cost_loop_nat_ge [of 0 m ks "unat ?w" n] by simp
  have small: "unat t + unat r * unat ?w < 2 ^ 64"
    using grow [of "unat t + unat r * unat ?w" "min (unat r) (unat c)" "map unat cs"] Cons.prems by simp
  have mul: "unat (r * ?w) = unat r * unat ?w" using small by (intro unat_word_mult_exact) simp
  have "unat (t + r * ?w) = unat t + unat r * unat ?w"
    using small by (subst unat_word_add_exact) (simp_all add: mul)
  moreover have "unat (min r c) = min (unat r) (unat c)" by (simp add: min_def word_le_nat_alt)
  ultimately show ?case using Cons by simp
qed simp

lemma calculate_cost_unat:
  assumes "cost_nat W (map (unat \<circ> snd) fs) < 2 ^ 64"
  shows "unat (calculate_cost W fs) = cost_nat W (map (unat \<circ> snd) fs)"
proof -
  let ?l = "cw_bitmap_lookup_cost W" and ?n = "length fs"
  have bound: "?n * unat ?l < 2 ^ 64" using assms by (simp add: cost_nat_def)
  have lookups: "unat (of_nat ?n * ?l) = ?n * unat ?l"
  proof (cases "?l = 0")
    case False
    then have "?n \<le> ?n * unat ?l" by (cases "unat ?l") (auto simp: unat_eq_0)
    then have "?n < 2 ^ 64" using bound by (rule le_less_trans)
    then have "unat (of_nat ?n :: u64) = ?n" by (intro unat_of_nat_eq) simp
    then show ?thesis using bound by (simp add: unat_word_mult_exact)
  qed simp
  show ?thesis
  proof (cases "?n > 1")
    case True
    let ?w = "unat (cw_intersection_cost_per_account W)" and ?m = "cw_memory_access_cost_per_account W"
    let ?r = "snd (fs ! 0)" and ?cs = "map snd (drop 1 fs)"
    define L where "L = cost_loop_nat ?w (unat ?r) 0 (map unat ?cs)"
    define X where "X = cost_loop W ?r (of_nat ?n * ?l) ?cs"
    have args: "map (unat \<circ> snd) fs ! 0 = unat ?r" "drop 1 (map (unat \<circ> snd) fs) = map unat ?cs"
      using True by (subst nth_map) (auto simp: drop_map)
    have cost: "cost_nat W (map (unat \<circ> snd) fs) = ?n * unat ?l + (snd L + fst L * unat ?m)"
      unfolding cost_nat_def args L_def using True by (simp add: case_prod_unfold Let_def)
    have loop: "cost_loop_nat ?w (unat ?r) (unat (of_nat ?n * ?l)) (map unat ?cs) = (fst L, ?n * unat ?l + snd L)"
      using cost_loop_nat_total [of ?w "unat ?r" 0 "?n * unat ?l" "map unat ?cs"] by (simp add: lookups L_def)
    have run: "unat (fst X) = fst L" "unat (snd X) = ?n * unat ?l + snd L"
      using cost_loop_unat [of W ?r "of_nat ?n * ?l" ?cs] assms unfolding loop cost X_def by simp_all
    have mem: "unat (fst X * ?m) = fst L * unat ?m"
      using assms unfolding cost by (subst unat_word_mult_exact) (simp_all add: run)
    have "unat (snd X + fst X * ?m) = ?n * unat ?l + snd L + fst L * unat ?m"
      using assms unfolding cost by (subst unat_word_add_exact) (simp_all add: mem run)
    moreover have "calculate_cost W fs = snd X + fst X * ?m"
      using True by (simp add: calculate_cost_def case_prod_unfold Let_def X_def)
    ultimately show ?thesis unfolding cost by simp
  qed (simp add: calculate_cost_def cost_nat_def lookups)
qed

lemma intermediate_loop_min:
  "\<forall>c\<in>set cs. r \<le> c \<Longrightarrow> intermediate_loop r cs = replicate (length cs) r"
  by (induction cs) (simp_all add: Let_def min_absorb1)

lemma intermediate_sorted:
  assumes "sorted cs" "p \<in> set cs"
  shows "intermediate_loop p cs = replicate (length cs) (Min (set cs))"
proof -
  obtain c cs' where eq: "cs = c # cs'" using assms(2) by (cases cs) auto
  have c: "\<forall>x\<in>set cs'. c \<le> x" "c \<le> p" using assms by (auto simp: eq)
  then have "Min (set cs) = c" unfolding eq by (intro Min_eqI) auto
  then show ?thesis using c by (simp add: eq Let_def min_absorb2 intermediate_loop_min)
qed


section \<open>Cardinalities and intersections\<close>

lemma refresh_cardinalities_get:
  "bt_get (refresh_cardinalities ks f) k =
     (if k \<in> set ks then map_option (of_nat \<circ> length) (f k) else None)"
proof -
  let ?step = "\<lambda>k m. case f k of Some accounts \<Rightarrow> bt_insert k (of_nat (length accounts)) m | None \<Rightarrow> m"
  have "bt_invar m \<Longrightarrow> bt_get (fold ?step ks m) k =
      (if k \<in> set ks \<and> f k \<noteq> None then map_option (of_nat \<circ> length) (f k) else bt_get m k)" for m :: "('a, u64) btree"
  proof (induction ks arbitrary: m)
    case (Cons x ks)
    then show ?case
      using Cons.IH [of "?step x m"] by (auto simp: bt.invar_ins bt.get_ins split: option.splits)
  qed simp
  from this [OF bt.invar_empty] show ?thesis
    by (auto simp: refresh_cardinalities_def bt.get_empty)
qed

context roaring
begin

lemma engine_intersect_set:
  assumes "bs \<noteq> []" "\<forall>b\<in>set bs. pb_ok R b"
  shows "set (pb_iter R (ir_bitmap (engine_intersect R bs))) = (\<Inter>b\<in>set bs. set (pb_iter R b)) \<and>
    pb_len (ir_bitmap (engine_intersect R bs)) = of_nat (card (\<Inter>b\<in>set bs. set (pb_iter R b)))"
proof -
  obtain c cs where bs: "bs = c # cs" using assms(1) by (cases bs) auto
  let ?r = "fold (\<lambda>bitmap r. pb_intersection R r bitmap) cs c"
  have s: "set (pb_iter R ?r) = (\<Inter>b\<in>set bs. set (pb_iter R b))"
    by (auto simp: bs pb.elems_meet_all)
  have "pb_ok R ?r" using assms(2) by (intro pb.ok_meet_all) (auto simp: bs)
  then have "pb_len ?r = of_nat (card (set (pb_iter R ?r)))"
    by (simp add: pb.size_elems distinct_card [OF pb.elems_distinct])
  then show ?thesis by (simp add: engine_intersect_def bs Let_def s [unfolded bs])
qed

lemma engine_union_set: "set (pb_iter R (engine_union R bs)) = (\<Union>b\<in>set bs. set (pb_iter R b))"
  by (cases bs) (auto simp: engine_union_def pb.elems_new pb.elems_join_all)

end


section \<open>Properties\<close>

text \<open>C23: The optimized plan runs every filter exactly once, from the most to the least selective,
  and no order of the same filters costs less, as long as that cost fits in 64 bits; every
  intermediate cardinality is the smallest of the estimates.\<close>

theorem optimized_plan_optimal:
  assumes "mset fs = mset (filter_estimates cm program_id filters)"
    and "cost_nat (cm_cost_weights cm) (map (unat \<circ> snd) fs) < 2 ^ 64"
    and "plan = create_optimized_plan cm program_id filters"
  shows "mset (op_execution_order plan) = mset (map fst fs) \<and>
    op_estimated_total_cost plan \<le> calculate_cost (cm_cost_weights cm) fs \<and>
    op_intermediate_cardinalities plan = replicate (length fs) (Min (snd ` set fs))"
proof -
  let ?es = "filter_estimates cm program_id filters" and ?W = "cm_cost_weights cm"
  let ?ss = "sort_key snd ?es"
  have ms: "mset ?ss = mset fs" using assms(1) by simp
  have srt: "sorted (map snd ?ss)" by simp
  have len: "length ?ss = length fs" and st: "set ?ss = set fs"
    using mset_eq_length [OF ms] mset_eq_setD [OF ms] by simp_all
  have "sorted (map (unat \<circ> snd) ?ss)"
    using srt by (simp add: sorted_wrt_map word_le_nat_alt o_def)
  moreover have "mset (map (unat \<circ> snd) ?ss) = mset (map (unat \<circ> snd) fs)"
    by (simp only: mset_map ms)
  ultimately have le: "cost_nat ?W (map (unat \<circ> snd) ?ss) \<le> cost_nat ?W (map (unat \<circ> snd) fs)"
    by (intro cost_nat_sorted_le)
  then have "unat (calculate_cost ?W ?ss) \<le> unat (calculate_cost ?W fs)"
    using assms(2) by (simp only: calculate_cost_unat le_less_trans)
  moreover have "mset (map fst ?ss) = mset (map fst fs)" by (simp only: mset_map ms)
  moreover have "intermediate_loop (snd (?es ! 0)) (map snd ?ss) = replicate (length fs) (Min (snd ` set fs))"
  proof -
    have "?es ! 0 \<in> set ?ss" unfolding set_sort by (rule nth_mem) (simp add: filter_estimates_def)
    then have "snd (?es ! 0) \<in> set (map snd ?ss)" by simp
    then show ?thesis using intermediate_sorted [OF srt] len st by simp
  qed
  ultimately show ?thesis
    by (simp add: assms(3) create_optimized_plan_def Let_def word_le_nat_alt filter_estimates_def)
qed

theorem optimized_plan_optimal_witness:
  "op_estimated_total_cost (create_optimized_plan cost_model_new (5 :: nat) [GpaDataSize 165]) \<le> 1000020"
proof -
  let ?fs = "filter_estimates cost_model_new (5 :: nat) [GpaDataSize 165]"
  have fs: "?fs = [(FtProgram 5, 1000000), (FtDataSize 165, 0)]"
    by (simp add: filter_estimates_def cost_model_new_def unwrap_or_def bt.get_empty)
  have "cost_nat (cm_cost_weights cost_model_new) (map (unat \<circ> snd) ?fs) < 2 ^ 64"
    unfolding fs by (simp add: cost_nat_def cost_model_new_def cost_weights_default_def)
  moreover have "calculate_cost (cm_cost_weights cost_model_new) ?fs = 1000020"
    unfolding fs by (simp add: calculate_cost_def cost_model_new_def cost_weights_default_def)
  ultimately show ?thesis using optimized_plan_optimal [OF refl _ refl] by metis
qed

end
