(* ===== verification/Query_Planner.thy ===== *)
theory Query_Planner
  imports Query_Cost
begin

text \<open>
  The planner of \<open>getProgramAccounts\<close> queries (\<open>query-orchestrator/src/query_planner.rs\<close>) and
  pagination (\<open>pagination.rs\<close>).

  A planner record holds the states of the four indexes it reads, the cost model and its own
  counters; execution returns the results and the planner with its counters updated.  The
  iteration order of a \<open>HashSet\<close> differs from set to set; it is the argument \<open>hs_order\<close> of
  the operations that iterate one, a permutation of the elements (\<open>hash_order\<close>).  \<open>usize\<close> is
  64 bits wide; the sum of a page's start and its limit wraps.
\<close>

section \<open>Pagination\<close>

record 'pk pagination_cursor =
  pc_last_pubkey :: "'pk option"
  pc_offset :: "u64 option"
  pc_limit :: u64

definition cursor_new :: "u64 \<Rightarrow> 'pk pagination_cursor" where
  "cursor_new limit = \<lparr> pc_last_pubkey = None, pc_offset = None, pc_limit = limit \<rparr>"

definition from_pubkey :: "'pk \<Rightarrow> u64 \<Rightarrow> 'pk pagination_cursor" where
  "from_pubkey pubkey limit = \<lparr> pc_last_pubkey = Some pubkey, pc_offset = None, pc_limit = limit \<rparr>"

definition from_offset :: "u64 \<Rightarrow> u64 \<Rightarrow> 'pk pagination_cursor" where
  "from_offset offset limit = \<lparr> pc_last_pubkey = None, pc_offset = Some offset, pc_limit = limit \<rparr>"

record 'pk paginated_result =
  pr_results :: "'pk list"
  pr_next_cursor :: "'pk pagination_cursor option"
  pr_total_count :: "u64 option"
  pr_is_last_page :: bool

definition paginated_result_new :: "'pk list \<Rightarrow> u64 \<Rightarrow> u64 option \<Rightarrow> 'pk paginated_result" where
  "paginated_result_new results limit total_count =
     (let is_last_page = (of_nat (length results) < limit);
          next_cursor = (if is_last_page then None
                         else if results = [] then None else Some (from_pubkey (last results) limit))
      in \<lparr> pr_results = results, pr_next_cursor = next_cursor, pr_total_count = total_count,
           pr_is_last_page = is_last_page \<rparr>)"

record pagination_helper =
  ph_default_limit :: u64
  ph_max_limit :: u64

definition pagination_helper_default :: pagination_helper where
  "pagination_helper_default = \<lparr> ph_default_limit = 100, ph_max_limit = 1000 \<rparr>"

definition validate_limit :: "pagination_helper \<Rightarrow> u64 option \<Rightarrow> u64" where
  "validate_limit h limit = (case limit of None \<Rightarrow> ph_default_limit h | Some l \<Rightarrow> min l (ph_max_limit h))"

primrec position :: "'a \<Rightarrow> 'a list \<Rightarrow> nat option" where
  "position x [] = None"
| "position x (y # ys) = (if y = x then Some 0 else map_option Suc (position x ys))"

definition start_index :: "'pk list \<Rightarrow> 'pk pagination_cursor option \<Rightarrow> u64" where
  "start_index results cursor =
     (case cursor of
        None \<Rightarrow> 0
      | Some c \<Rightarrow>
          (case pc_last_pubkey c of
             Some last_pubkey \<Rightarrow>
               (case position last_pubkey results of Some pos \<Rightarrow> of_nat pos + 1 | None \<Rightarrow> 0)
           | None \<Rightarrow> (case pc_offset c of Some offset \<Rightarrow> offset | None \<Rightarrow> 0)))"

definition paginate ::
  "pagination_helper \<Rightarrow> 'pk list \<Rightarrow> 'pk pagination_cursor option \<Rightarrow> (unit, 'pk paginated_result) result" where
  "paginate h results cursor =
     (let limit = (case cursor of Some c \<Rightarrow> pc_limit c | None \<Rightarrow> ph_default_limit h);
          start = start_index results cursor;
          end_index = min (start + limit) (of_nat (length results))
      in if of_nat (length results) \<le> start
         then Ok (paginated_result_new [] limit (Some (of_nat (length results))))
         else rbind (or_panic (slice results (unat start) (unat end_index))) (\<lambda>page.
                Ok (paginated_result_new page limit (Some (of_nat (length results))))))"


section \<open>Planner\<close>

record 'pk query_plan =
  pl_program_id :: 'pk
  pl_filters :: "gpa_filter list"
  pl_cost_estimate :: query_cost_estimate
  pl_use_streaming :: bool

record ('pk, 'b) query_planner =
  qp_program_index :: "('pk, 'b) program_index"
  qp_data_size_index :: "('pk, 'b) data_size_index"
  qp_memcmp_index :: "('pk, 'b) memcmp_index"
  qp_discriminator_index :: "('pk, 'b) discriminator_index"
  qp_cost_estimator :: query_cost_estimator
  qp_cost_model :: "'pk query_cost_model"
  qp_pagination_helper :: pagination_helper
  qp_queries_planned :: u64
  qp_total_execution_time_us :: u64

definition planner_new ::
  "('pk, 'b) program_index \<Rightarrow> ('pk, 'b) data_size_index \<Rightarrow> ('pk, 'b) memcmp_index \<Rightarrow>
   ('pk, 'b) discriminator_index \<Rightarrow> ('pk, 'b) query_planner" where
  "planner_new program_index data_size_index memcmp_index discriminator_index =
     \<lparr> qp_program_index = program_index, qp_data_size_index = data_size_index,
       qp_memcmp_index = memcmp_index, qp_discriminator_index = discriminator_index,
       qp_cost_estimator = estimator_new, qp_cost_model = cost_model_new,
       qp_pagination_helper = pagination_helper_default,
       qp_queries_planned = 0, qp_total_execution_time_us = 0 \<rparr>"

definition planner_refresh_statistics ::
  "'b treemap_ops \<Rightarrow> u64 \<Rightarrow> ('pk::linorder, 'b) query_planner \<Rightarrow> ('pk, 'b) query_planner" where
  "planner_refresh_statistics R current_slot qp =
     qp \<lparr> qp_cost_model := refresh_statistics R (qp_program_index qp) (qp_data_size_index qp)
            (qp_memcmp_index qp) (qp_discriminator_index qp) current_slot (qp_cost_model qp) \<rparr>"

fun is_data_size_filter :: "gpa_filter \<Rightarrow> bool" where
  "is_data_size_filter (GpaDataSize _) = True"
| "is_data_size_filter _ = False"

fun is_memcmp_filter :: "gpa_filter \<Rightarrow> bool" where
  "is_memcmp_filter (GpaMemcmp _ _) = True"
| "is_memcmp_filter _ = False"

fun is_discriminator_filter :: "gpa_filter \<Rightarrow> bool" where
  "is_discriminator_filter (GpaDiscriminator _) = True"
| "is_discriminator_filter _ = False"

definition plan_query ::
  "'b treemap_ops \<Rightarrow> (rat \<Rightarrow> rat) \<Rightarrow> ('pk::linorder, 'b) query_planner \<Rightarrow> 'pk \<Rightarrow> gpa_filter list \<Rightarrow> 'pk query_plan" where
  "plan_query R rnd qp program_id filters =
     (let accounts = unwrap_or [] (get_program_accounts R (qp_program_index qp) program_id);
          program_bitmap = fold (\<lambda>_ bitmap. snd (pb_insert R 0 bitmap)) accounts (pb_new R);
          cost_estimate = estimate_get_program_accounts rnd (qp_cost_estimator qp) program_bitmap
            (length (filter is_data_size_filter filters)) (length (filter is_memcmp_filter filters))
            (\<exists>f\<in>set filters. is_discriminator_filter f)
      in \<lparr> pl_program_id = program_id, pl_filters = filters, pl_cost_estimate = cost_estimate,
           pl_use_streaming = qe_should_stream cost_estimate \<rparr>)"

fun accounts_for :: "'b treemap_ops \<Rightarrow> ('pk::linorder, 'b) query_planner \<Rightarrow> 'pk filter_type \<Rightarrow> 'pk list option" where
  "accounts_for R qp (FtProgram pid) = get_program_accounts R (qp_program_index qp) pid"
| "accounts_for R qp (FtDataSize data_size) = get_accounts_by_size R (qp_data_size_index qp) data_size"
| "accounts_for R qp (FtMemcmp offset bytes) = get_accounts_by_memcmp R (qp_memcmp_index qp) offset bytes"
| "accounts_for R qp (FtDiscriminator disc) = get_accounts_by_discriminator R (qp_discriminator_index qp) disc"

primrec optimized_loop ::
  "('f \<Rightarrow> 'pk list option) \<Rightarrow> 'f list \<Rightarrow> 'pk set option \<Rightarrow> 'pk set option" where
  "optimized_loop accounts_of [] result_set = result_set"
| "optimized_loop accounts_of (filter_type # fs) result_set =
     optimized_loop accounts_of fs
       (case accounts_of filter_type of
          None \<Rightarrow> result_set
        | Some accounts \<Rightarrow>
            (case result_set of
               Some current \<Rightarrow> Some (current \<inter> set accounts)
             | None \<Rightarrow> Some (set accounts)))"

definition execute_query_optimized ::
  "'b treemap_ops \<Rightarrow> ('pk set \<Rightarrow> 'pk list) \<Rightarrow> 'pk query_plan \<Rightarrow> ('pk::linorder, 'b) query_planner \<Rightarrow>
   'pk list \<times> ('pk, 'b) query_planner" where
  "execute_query_optimized R hs_order plan qp =
     (let optimized_plan = create_optimized_plan (qp_cost_model qp) (pl_program_id plan) (pl_filters plan);
          result_set = unwrap_or {} (optimized_loop (accounts_for R qp) (op_execution_order optimized_plan) None)
      in (hs_order result_set,
          qp \<lparr> qp_queries_planned := qp_queries_planned qp + 1,
               qp_total_execution_time_us :=
                 qp_total_execution_time_us qp + op_estimated_time_us optimized_plan \<rparr>))"

text \<open>One of the three passes of \<open>execute_query\<close> over the filters: those of one kind, in order,
  push the accounts of their key when the index has the key.\<close>

definition push_matching ::
  "(gpa_filter \<Rightarrow> bool) \<Rightarrow> (gpa_filter \<Rightarrow> 'pk list option) \<Rightarrow> gpa_filter list \<Rightarrow> 'pk list list" where
  "push_matching kind accounts_of filters = List.map_filter accounts_of (filter kind filters)"

fun gpa_accounts :: "'b treemap_ops \<Rightarrow> ('pk::linorder, 'b) query_planner \<Rightarrow> gpa_filter \<Rightarrow> 'pk list option" where
  "gpa_accounts R qp (GpaDataSize data_size) = get_accounts_by_size R (qp_data_size_index qp) data_size"
| "gpa_accounts R qp (GpaMemcmp offset bytes) = get_accounts_by_memcmp R (qp_memcmp_index qp) offset bytes"
| "gpa_accounts R qp (GpaDiscriminator disc) = get_accounts_by_discriminator R (qp_discriminator_index qp) disc"

definition execute_query ::
  "'b treemap_ops \<Rightarrow> ('pk set \<Rightarrow> 'pk list) \<Rightarrow> 'pk query_plan \<Rightarrow> ('pk::linorder, 'b) query_planner \<Rightarrow>
   'pk list \<times> ('pk, 'b) query_planner" where
  "execute_query R hs_order plan qp =
     (case get_program_accounts R (qp_program_index qp) (pl_program_id plan) of
        None \<Rightarrow> ([], qp)
      | Some program_accounts \<Rightarrow>
          (let others = push_matching is_data_size_filter (gpa_accounts R qp) (pl_filters plan) @
                        push_matching is_memcmp_filter (gpa_accounts R qp) (pl_filters plan) @
                        push_matching is_discriminator_filter (gpa_accounts R qp) (pl_filters plan)
           in if others = [] then (program_accounts, qp)
              else
                (let result_set = fold (\<lambda>accounts r. r \<inter> set accounts) others (set program_accounts) in
                 (hs_order result_set,
                  qp \<lparr> qp_queries_planned := qp_queries_planned qp + 1,
                       qp_total_execution_time_us :=
                         qp_total_execution_time_us qp + of_nat (card result_set) * 10 \<rparr>))))"

definition execute_query_paginated ::
  "'b treemap_ops \<Rightarrow> ('pk set \<Rightarrow> 'pk list) \<Rightarrow> 'pk query_plan \<Rightarrow> 'pk pagination_cursor option \<Rightarrow>
   ('pk::linorder, 'b) query_planner \<Rightarrow> (unit, 'pk paginated_result) result \<times> ('pk, 'b) query_planner" where
  "execute_query_paginated R hs_order plan cursor qp =
     (let (all_results, qp') = execute_query R hs_order plan qp
      in (paginate (qp_pagination_helper qp) all_results cursor, qp'))"

record query_planner_stats =
  qs_queries_planned :: u64
  qs_total_execution_time_us :: u64
  qs_avg_execution_time_us :: u64

definition planner_stats :: "('pk, 'b) query_planner \<Rightarrow> query_planner_stats" where
  "planner_stats qp =
     \<lparr> qs_queries_planned = qp_queries_planned qp,
       qs_total_execution_time_us = qp_total_execution_time_us qp,
       qs_avg_execution_time_us =
         (if qp_queries_planned qp > 0 then qp_total_execution_time_us qp div qp_queries_planned qp else 0) \<rparr>"

definition hash_order :: "('a set \<Rightarrow> 'a list) \<Rightarrow> bool" where
  "hash_order hs_order \<longleftrightarrow> (\<forall>S. finite S \<longrightarrow> distinct (hs_order S) \<and> set (hs_order S) = S)"

section \<open>Walking the pages\<close>

text \<open>A client that follows the cursors over an unchanged result list; fuel bounds the number of pages.\<close>

primrec walk_pages ::
  "nat \<Rightarrow> pagination_helper \<Rightarrow> 'pk list \<Rightarrow> 'pk pagination_cursor option \<Rightarrow> 'pk list list option" where
  "walk_pages 0 h results cursor = None"
| "walk_pages (Suc fuel) h results cursor =
     (case paginate h results cursor of
        Ok page \<Rightarrow>
          (case pr_next_cursor page of
             None \<Rightarrow> Some [pr_results page]
           | Some c \<Rightarrow> map_option ((#) (pr_results page)) (walk_pages fuel h results (Some c)))
      | _ \<Rightarrow> None)"

lemma pr_results_new [simp]: "pr_results (paginated_result_new xs limit t) = xs"
  by (simp add: paginated_result_new_def Let_def)

lemma position_nth: "distinct xs \<Longrightarrow> n < length xs \<Longrightarrow> position (xs ! n) xs = Some n"
  by (induction xs arbitrary: n) (auto simp: nth_Cons split: nat.splits)

lemma paginate_page:
  assumes "start_index results cursor = of_nat k" "k \<le> length results"
    and "(case cursor of Some c \<Rightarrow> pc_limit c | None \<Rightarrow> ph_default_limit h) = limit"
    and "length results + unat limit < 2 ^ 64"
  shows "paginate h results cursor =
    Ok (paginated_result_new (take (unat limit) (drop k results)) limit (Some (of_nat (length results))))"
proof (cases "k = length results")
  case True
  then show ?thesis using assms by (simp add: paginate_def Let_def)
next
  case False
  have u: "unat (of_nat k :: u64) = k" "unat (of_nat (length results) :: u64) = length results"
    using assms(2,4) by (auto intro!: unat_of_nat_eq)
  have s: "unat (of_nat k + limit) = k + unat limit"
    using assms(2,4) by (subst unat_word_add_exact) (simp_all add: u)
  have e: "unat (min (of_nat k + limit) (of_nat (length results))) = min (k + unat limit) (length results)"
    by (simp add: min_def word_le_nat_alt s u)
  have "\<not> (of_nat (length results) \<le> (of_nat k :: u64))" using False assms(2) by (simp add: word_le_nat_alt u)
  moreover have "slice results k (min (k + unat limit) (length results)) = Some (take (unat limit) (drop k results))"
    using assms(2) by (auto simp: slice_def min_def)
  ultimately show ?thesis using assms(1,3) by (simp add: paginate_def Let_def e u)
qed

lemma next_cursor_page:
  assumes "0 < unat limit" "k \<le> length results" "length results < 2 ^ 64"
    and "page = paginated_result_new (take (unat limit) (drop k results)) limit t"
  shows "pr_next_cursor page =
    (if k + unat limit \<le> length results then Some (from_pubkey (results ! (k + unat limit - 1)) limit) else None)"
proof -
  let ?p = "take (unat limit) (drop k results)"
  have "unat (of_nat (length ?p) :: u64) = length ?p"
    using assms(3) by (intro unat_of_nat_eq) simp
  then have lt: "of_nat (length ?p) < limit \<longleftrightarrow> length results < k + unat limit"
    using assms(2) by (auto simp: word_less_nat_alt min_def)
  have "last ?p = results ! (k + unat limit - 1)" "?p \<noteq> []" if "k + unat limit \<le> length results"
  proof -
    have l: "length ?p = unat limit" using that by simp
    then show ne: "?p \<noteq> []" using assms(1) by auto
    show "last ?p = results ! (k + unat limit - 1)"
      using that assms(1) unfolding last_conv_nth [OF ne] l by simp
  qed
  then show ?thesis using lt by (auto simp: assms(4) paginated_result_new_def Let_def)
qed

lemma walk_pages_from:
  assumes "distinct results" "0 < unat limit" "length results + unat limit < 2 ^ 64"
    and "k \<le> length results" "start_index results cursor = of_nat k"
    and "(case cursor of Some c \<Rightarrow> pc_limit c | None \<Rightarrow> ph_default_limit h) = limit"
    and "length results - k < fuel"
  shows "\<exists>pages. walk_pages fuel h results cursor = Some pages \<and> concat pages = drop k results \<and>
    (\<forall>p\<in>set pages. length p \<le> unat limit)"
  using assms(4-7)
proof (induction fuel arbitrary: k cursor)
  case (Suc fuel)
  let ?page = "paginated_result_new (take (unat limit) (drop k results)) limit (Some (of_nat (length results)))"
  have pg: "paginate h results cursor = Ok ?page" using paginate_page Suc.prems assms(3) by blast
  show ?case
  proof (cases "k + unat limit \<le> length results")
    case True
    let ?k = "k + unat limit" and ?c = "from_pubkey (results ! (k + unat limit - 1)) limit"
    have nc: "pr_next_cursor ?page = Some ?c"
      using next_cursor_page [OF assms(2) Suc.prems(1) _ refl] assms(3) True by simp
    have "of_nat (?k - 1) + 1 = (of_nat ?k :: u64)" using assms(2) by (cases ?k) simp_all
    then have st: "start_index results (Some ?c) = of_nat ?k"
      using assms(1,2) True by (simp add: start_index_def from_pubkey_def position_nth)
    have lim: "(case Some ?c of Some c \<Rightarrow> pc_limit c | None \<Rightarrow> ph_default_limit h) = limit"
      by (simp add: from_pubkey_def)
    have "length results - ?k < fuel" using Suc.prems(4) assms(2) True by linarith
    then obtain pages where "walk_pages fuel h results (Some ?c) = Some pages" "concat pages = drop ?k results"
        "\<forall>p\<in>set pages. length p \<le> unat limit"
      using Suc.IH [OF True st lim] by blast
    moreover have "take (unat limit) (drop k results) @ drop ?k results = drop k results"
      by (metis append_take_drop_id drop_drop add.commute)
    ultimately show ?thesis using pg nc by simp
  next
    case False
    then have "pr_next_cursor ?page = None"
      using next_cursor_page [OF assms(2) Suc.prems(1) _ refl] assms(3) by simp
    then show ?thesis using pg False by simp
  qed
qed simp


section \<open>What a query returns\<close>

definition satisfies_filter :: "'pk list option \<Rightarrow> 'pk \<Rightarrow> bool" where
  "satisfies_filter accounts a = (case accounts of None \<Rightarrow> True | Some as \<Rightarrow> a \<in> set as)"

text \<open>The accounts of the program that every filter with an index entry lists.\<close>

definition query_answer :: "'b treemap_ops \<Rightarrow> 'pk query_plan \<Rightarrow> ('pk::linorder, 'b) query_planner \<Rightarrow> 'pk set" where
  "query_answer R plan qp =
     {a. (\<exists>as. get_program_accounts R (qp_program_index qp) (pl_program_id plan) = Some as \<and> a \<in> set as) \<and>
         (\<forall>f\<in>set (pl_filters plan). satisfies_filter (gpa_accounts R qp f) a)}"

lemma optimized_loop_eq:
  "optimized_loop f fs r =
     (if r = None \<and> (\<forall>x\<in>set fs. f x = None) then None
      else Some {a. (\<forall>x\<in>set fs. satisfies_filter (f x) a) \<and> (\<forall>S. r = Some S \<longrightarrow> a \<in> S)})"
  by (induction fs arbitrary: r) (auto simp: satisfies_filter_def split: option.splits)

lemma ft_accounts: "accounts_for R qp (ce_filter_type (estimate_cardinality cm f)) = gpa_accounts R qp f"
  by (cases f) (simp_all add: Let_def)

lemma execution_order_accounts:
  "accounts_for R qp ` set (op_execution_order (create_optimized_plan cm p fs)) =
   insert (get_program_accounts R (qp_program_index qp) p) (gpa_accounts R qp ` set fs)"
  by (auto simp: create_optimized_plan_def filter_estimates_def Let_def image_iff ft_accounts set_insort_key)

lemma optimized_result:
  "unwrap_or {} (optimized_loop (accounts_for R qp) (op_execution_order (create_optimized_plan cm p fs)) None) =
   (if get_program_accounts R (qp_program_index qp) p = None \<and> (\<forall>f\<in>set fs. gpa_accounts R qp f = None) then {}
    else {a. satisfies_filter (get_program_accounts R (qp_program_index qp) p) a \<and>
             (\<forall>f\<in>set fs. satisfies_filter (gpa_accounts R qp f) a)})"
proof -
  let ?X = "set (op_execution_order (create_optimized_plan cm p fs))" and ?g = "accounts_for R qp"
  have all: "(\<forall>x\<in>?X. P (?g x)) \<longleftrightarrow>
      P (get_program_accounts R (qp_program_index qp) p) \<and> (\<forall>f\<in>set fs. P (gpa_accounts R qp f))" for P
  proof -
    have "(\<forall>x\<in>?X. P (?g x)) \<longleftrightarrow> (\<forall>y\<in>?g ` ?X. P y)" by simp
    then show ?thesis unfolding execution_order_accounts by simp
  qed
  show ?thesis
    unfolding optimized_loop_eq using all [of "\<lambda>x. x = None"] all [of "\<lambda>x. satisfies_filter x _"]
    by (simp add: unwrap_or_def)
qed

lemma fold_inter: "fold (\<lambda>accounts r. r \<inter> set accounts) xs S = {a \<in> S. \<forall>x\<in>set xs. a \<in> set x}"
  by (induction xs arbitrary: S) auto

lemma gpa_filter_kinds:
  "is_data_size_filter f \<or> is_memcmp_filter f \<or> is_discriminator_filter f"
  by (cases f) simp_all

lemma set_map_filter: "set (List.map_filter f xs) = {y. \<exists>x\<in>set xs. f x = Some y}"
  by (induction xs) (auto simp: List.map_filter_simps split: option.splits)

lemma pushed_sets:
  "set (push_matching is_data_size_filter g fs @ push_matching is_memcmp_filter g fs @
        push_matching is_discriminator_filter g fs) = {as. \<exists>f\<in>set fs. g f = Some as}"
  using gpa_filter_kinds by (auto simp: push_matching_def set_map_filter)

lemma execute_query_result:
  assumes "get_program_accounts R (qp_program_index qp) (pl_program_id plan) = Some as"
  shows "fst (execute_query R hs_order plan qp) =
    (if \<forall>f\<in>set (pl_filters plan). gpa_accounts R qp f = None then as else hs_order (query_answer R plan qp))"
proof -
  let ?o = "push_matching is_data_size_filter (gpa_accounts R qp) (pl_filters plan) @
    push_matching is_memcmp_filter (gpa_accounts R qp) (pl_filters plan) @
    push_matching is_discriminator_filter (gpa_accounts R qp) (pl_filters plan)"
  have emp: "?o = [] \<longleftrightarrow> (\<forall>f\<in>set (pl_filters plan). gpa_accounts R qp f = None)"
    unfolding set_empty [symmetric] pushed_sets by (auto simp flip: not_Some_eq)
  have "fold (\<lambda>accounts r. r \<inter> set accounts) ?o (set as) = query_answer R plan qp"
    unfolding fold_inter pushed_sets query_answer_def
    by (auto simp: assms satisfies_filter_def split: option.splits)
  then show ?thesis using emp by (simp add: execute_query_def assms Let_def)
qed

lemma execute_query_frame:
  "\<exists>n t. snd (execute_query R hs plan qp) = qp \<lparr> qp_queries_planned := n, qp_total_execution_time_us := t \<rparr>"
proof -
  have "\<exists>n t. qp = qp \<lparr> qp_queries_planned := n, qp_total_execution_time_us := t \<rparr>"
    by (rule exI [of _ "qp_queries_planned qp"], rule exI [of _ "qp_total_execution_time_us qp"]) simp
  then show ?thesis unfolding execute_query_def Let_def by (auto split: option.split)
qed

lemma gpa_accounts_counters:
  "gpa_accounts R (qp \<lparr> qp_queries_planned := n, qp_total_execution_time_us := t \<rparr>) = gpa_accounts R qp"
proof
  fix f
  show "gpa_accounts R (qp \<lparr> qp_queries_planned := n, qp_total_execution_time_us := t \<rparr>) f = gpa_accounts R qp f"
    by (cases f) simp_all
qed

lemma execute_query_counters:
  "fst (execute_query R hs2 plan2 (snd (execute_query R hs plan qp))) = fst (execute_query R hs2 plan2 qp)"
proof -
  obtain n t where "snd (execute_query R hs plan qp) = qp \<lparr> qp_queries_planned := n, qp_total_execution_time_us := t \<rparr>"
    using execute_query_frame by blast
  moreover have "fst (execute_query R hs2 plan2 (qp \<lparr> qp_queries_planned := n, qp_total_execution_time_us := t \<rparr>)) =
      fst (execute_query R hs2 plan2 qp)"
    by (auto simp: execute_query_def gpa_accounts_counters Let_def split: option.split)
  ultimately show ?thesis by simp
qed

lemma paginate_first:
  assumes "length (a # xs) + 1 < 2 ^ 64"
  shows "paginate h (a # xs) (Some (cursor_new 1)) = Ok (paginated_result_new [a] 1 (Some (of_nat (length (a # xs)))))"
  using paginate_page [of "a # xs" "Some (cursor_new 1)" 0 h 1] assms by (simp add: start_index_def cursor_new_def)

lemma paginate_after_last:
  assumes "distinct (xs @ [a])"
  shows "paginate h (xs @ [a]) (Some (from_pubkey a limit)) = Ok (paginated_result_new [] limit (Some (of_nat (length (xs @ [a])))))"
  using position_nth [OF assms, of "length xs"]
  by (simp add: paginate_def start_index_def from_pubkey_def Let_def add.commute)

lemma finite_query_answer: "finite (query_answer R plan qp)"
proof -
  have "query_answer R plan qp \<subseteq>
      set (unwrap_or [] (get_program_accounts R (qp_program_index qp) (pl_program_id plan)))"
    by (auto simp: query_answer_def unwrap_or_def)
  then show ?thesis by (rule finite_subset) simp
qed

lemma query_answer_no_filters:
  assumes "get_program_accounts R (qp_program_index qp) (pl_program_id plan) = Some as"
    and "\<forall>f\<in>set (pl_filters plan). gpa_accounts R qp f = None"
  shows "query_answer R plan qp = set as"
  using assms by (auto simp: query_answer_def satisfies_filter_def)

section \<open>Estimates\<close>

lemma f64_mul_unit:
  assumes "mono rnd" "rnd 0 = 0" "rnd 1 = 1" "0 \<le> lit" "lit \<le> 1" "0 \<le> x" "x \<le> 1"
  shows "0 \<le> f64_mul rnd lit x \<and> f64_mul rnd lit x \<le> 1"
proof -
  have unit: "0 \<le> rnd y \<and> rnd y \<le> 1" if "0 \<le> y" "y \<le> 1" for y
    using monoD [OF assms(1) that(1)] monoD [OF assms(1) that(2)] assms(2,3) by simp
  have "0 \<le> rnd lit" "rnd lit \<le> 1" using unit [OF assms(4,5)] by auto
  then have "0 \<le> x * rnd lit" "x * rnd lit \<le> 1" using assms(6,7) by (simp_all add: mult_le_one)
  then show ?thesis using unit by (simp add: f64_mul_def)
qed

lemma f64_mul_power_unit:
  assumes "mono rnd" "rnd 0 = 0" "rnd 1 = 1" "0 \<le> lit" "lit \<le> 1" "0 \<le> x" "x \<le> 1"
  shows "0 \<le> (f64_mul rnd lit ^^ n) x \<and> (f64_mul rnd lit ^^ n) x \<le> 1"
  by (induction n) (use assms f64_mul_unit [OF assms(1-5)] in auto)

lemma f64_to_u64_unit:
  assumes "0 \<le> x" "x \<le> 1"
  shows "f64_to_u64 (of_int \<lceil>x\<rceil>) \<le> 1"
proof -
  have int: "f64_to_u64 (of_int n) \<le> 1" if "n = 0 \<or> n = 1" for n using that by (auto simp: f64_to_u64_def)
  have "0 \<le> \<lceil>x\<rceil>" "\<lceil>x\<rceil> \<le> 1" using assms by (simp_all add: ceiling_le_one less_le_trans [of "- 1" 0])
  then have "\<lceil>x\<rceil> = 0 \<or> \<lceil>x\<rceil> = 1" by linarith
  then show ?thesis by (rule int)
qed

lemma estimator_cardinality_unit:
  assumes "mono rnd" "rnd 0 = 0" "rnd 1 = 1" "unat (pb_len b) \<le> 1"
  shows "estimator_cardinality rnd b n m d \<le> 1"
proof -
  have c: "0 \<le> rnd (of_nat (unat (pb_len b)))" "rnd (of_nat (unat (pb_len b))) \<le> 1"
    using assms(4) by (cases "unat (pb_len b)"; simp add: assms(2,3))+
  note c1 = f64_mul_power_unit [OF assms(1-3) _ _ c, of "1 / 10" n, simplified]
  note c2 = f64_mul_power_unit [OF assms(1-3) _ _ conjunct1 [OF c1] conjunct2 [OF c1], of "5 / 100" m, simplified]
  note c3 = f64_mul_unit [OF assms(1-3) _ _ conjunct1 [OF c2] conjunct2 [OF c2], of "1 / 100", simplified]
  show ?thesis
    unfolding estimator_cardinality_def Let_def using c2 c3 by (cases d) (simp_all add: f64_to_u64_unit)
qed

context roaring
begin

lemma placeholder_bitmap: "unat (pb_len (fold (\<lambda>_ b. snd (pb_insert R 0 b)) xs (pb_new R))) \<le> 1"
proof -
  let ?b = "fold (\<lambda>_ b. snd (pb_insert R 0 b)) xs (pb_new R)"
  have f: "?b = fold (\<lambda>x s. snd (pb_insert R x s)) (map (\<lambda>_. 0) xs) (pb_new R)"
    by (simp add: fold_map o_def)
  have "set (pb_iter R ?b) \<subseteq> {0}" unfolding f by (auto simp: pb.elems_ins_all pb.elems_new)
  then have l: "length (pb_iter R ?b) \<le> 1"
    using distinct_card [OF pb.elems_distinct, of ?b] card_mono [of "{0}" "set (pb_iter R ?b)"] by simp
  have "pb_ok R ?b" unfolding f by (rule pb.ok_ins_all [OF pb.ok_new])
  then have "pb_len ?b = of_nat (length (pb_iter R ?b))" by (rule pb.size_elems)
  then show ?thesis using l by (cases "length (pb_iter R ?b)") auto
qed

end


section \<open>A sample planner\<close>

definition sample_planner :: "(nat, u64 list) query_planner" where
  "sample_planner =
     planner_new (prog_add_account list_treemap 2 7 0 (prog_add_account list_treemap 1 7 0 prog_new))
       (dsz_add_account list_treemap 2 165 0 (dsz_add_account list_treemap 1 165 0 dsz_new)) mc_new disc_new"

definition sample_plan :: "nat \<Rightarrow> nat query_plan" where
  "sample_plan p = plan_query list_treemap id sample_planner p [GpaDataSize 165]"

lemma sample_lookups:
  "get_program_accounts list_treemap (qp_program_index sample_planner) 7 = Some [1, 2]"
  "get_program_accounts list_treemap (qp_program_index sample_planner) 8 = None"
  "gpa_accounts list_treemap sample_planner (GpaDataSize 165) = Some [1, 2]"
  "get_accounts_by_size list_treemap (qp_data_size_index sample_planner) 165 = Some [1, 2]"
  by code_simp+

lemma sample_plan_simps: "pl_program_id (sample_plan p) = p" "pl_filters (sample_plan p) = [GpaDataSize 165]"
  by (simp_all add: sample_plan_def plan_query_def Let_def)

lemma sample_answer: "query_answer list_treemap (sample_plan 7) sample_planner = {1, 2}"
  by (auto simp: query_answer_def satisfies_filter_def sample_plan_simps sample_lookups)

lemma hash_order_sorted: "hash_order sorted_list_of_set"
  by (simp add: hash_order_def)

lemma execute_query_sets:
  assumes "hash_order hs_order" "get_program_accounts R (qp_program_index qp) (pl_program_id plan) = Some as"
  shows "set (fst (execute_query R hs_order plan qp)) = query_answer R plan qp \<and>
    set (fst (execute_query_optimized R hs_order plan qp)) = query_answer R plan qp"
proof -
  have fin: "set (hs_order (query_answer R plan qp)) = query_answer R plan qp"
    using assms(1) finite_query_answer [of R plan qp] by (simp add: hash_order_def)
  have "set (fst (execute_query R hs_order plan qp)) = query_answer R plan qp"
    using fin query_answer_no_filters [OF assms(2)] by (simp add: execute_query_result [OF assms(2)])
  moreover have "fst (execute_query_optimized R hs_order plan qp) = hs_order (query_answer R plan qp)"
    unfolding execute_query_optimized_def Let_def fst_conv optimized_result
    using assms(2) by (simp add: query_answer_def satisfies_filter_def)
  ultimately show ?thesis using fin by simp
qed


section \<open>Properties\<close>

text \<open>C6: When the program is indexed, both executions of a query return exactly the accounts of the
  program that every filter lists whose key is in its index, whatever order the cost model
  chose; a filter whose key is in no index is ignored by both.\<close>

theorem execute_query_answers:
  assumes "hash_order hs_order" "get_program_accounts R (qp_program_index qp) (pl_program_id plan) = Some as"
  shows "set (fst (execute_query R hs_order plan qp)) = query_answer R plan qp \<and>
    set (fst (execute_query_optimized R hs_order plan qp)) = query_answer R plan qp"
  by (rule execute_query_sets [OF assms])

theorem execute_query_answers_witness:
  "set (fst (execute_query list_treemap sorted_list_of_set (sample_plan 7) sample_planner)) = {1, 2} \<and>
   set (fst (execute_query_optimized list_treemap sorted_list_of_set (sample_plan 7) sample_planner)) = {1, 2}"
  using execute_query_answers [OF hash_order_sorted, of list_treemap sample_planner "sample_plan 7" "[1, 2]"]
  by (simp only: sample_plan_simps sample_lookups sample_answer simp_thms)

text \<open>For a program that is not indexed the two executions differ: the plain one returns
  nothing, the optimized one returns the accounts of all programs that the filters list.\<close>

theorem optimized_query_ignores_unknown_program:
  assumes "hash_order hs_order" "get_program_accounts R (qp_program_index qp) (pl_program_id plan) = None"
    and "pl_filters plan = [f]" "gpa_accounts R qp f = Some as"
  shows "fst (execute_query R hs_order plan qp) = [] \<and>
    set (fst (execute_query_optimized R hs_order plan qp)) = set as"
proof -
  have "fst (execute_query_optimized R hs_order plan qp) = hs_order (set as)"
    unfolding execute_query_optimized_def Let_def fst_conv optimized_result
    using assms(2-4) by (simp add: satisfies_filter_def)
  then show ?thesis using assms(1,2) by (simp add: execute_query_def hash_order_def)
qed

theorem optimized_query_ignores_unknown_program_witness:
  "fst (execute_query list_treemap sorted_list_of_set (sample_plan 8) sample_planner) = [] \<and>
   set (fst (execute_query_optimized list_treemap sorted_list_of_set (sample_plan 8) sample_planner)) = set [1, 2]"
  using optimized_query_ignores_unknown_program [OF hash_order_sorted, of list_treemap sample_planner "sample_plan 8"
      "GpaDataSize 165" "[1, 2]"]
  by (simp only: sample_plan_simps sample_lookups simp_thms)

text \<open>C28: Following the cursors over an unchanged list of distinct results visits every result
  exactly once and in order, in pages of at most the limit, and ends after at most one page
  more than there are results.\<close>

theorem pagination_walk_complete:
  assumes "distinct results" "0 < ph_default_limit h" "length results + unat (ph_default_limit h) < 2 ^ 64"
  shows "\<exists>pages. walk_pages (length results + 1) h results None = Some pages \<and> concat pages = results \<and>
    (\<forall>p\<in>set pages. length p \<le> unat (ph_default_limit h))"
proof -
  have "0 < unat (ph_default_limit h)" using assms(2) by (simp add: word_less_nat_alt)
  from walk_pages_from [OF assms(1) this assms(3), of 0 None h "length results + 1"]
  show ?thesis by (simp add: start_index_def)
qed

theorem pagination_walk_complete_witness:
  "\<exists>pages. walk_pages (length [5, 4, 3 :: nat] + 1) pagination_helper_default [5, 4, 3 :: nat] None = Some pages \<and>
     concat pages = [5, 4, 3] \<and> (\<forall>p\<in>set pages. length p \<le> unat (ph_default_limit pagination_helper_default))"
  by (rule pagination_walk_complete) (simp_all add: pagination_helper_default_def)

text \<open>Every page of a filtered query executes the query again, and the hash set may iterate in
  another order each time; then following the cursors can miss any given result: there are
  iteration orders under which the second and last page is empty.\<close>

theorem paginated_query_can_miss_results:
  assumes "get_program_accounts R (qp_program_index qp) (pl_program_id plan) = Some as"
    and "f \<in> set (pl_filters plan)" "gpa_accounts R qp f \<noteq> None"
    and "a \<in> query_answer R plan qp" "b \<in> query_answer R plan qp" "a \<noteq> b"
    and "card (query_answer R plan qp) + 1 < 2 ^ 64"
  shows "\<exists>hs1 hs2 p1 p2 c qp1. hash_order hs1 \<and> hash_order hs2 \<and>
    execute_query_paginated R hs1 plan (Some (cursor_new 1)) qp = (Ok p1, qp1) \<and> pr_next_cursor p1 = Some c \<and>
    fst (execute_query_paginated R hs2 plan (Some c) qp1) = Ok p2 \<and> pr_next_cursor p2 = None \<and>
    b \<notin> set (pr_results p1) \<union> set (pr_results p2)"
proof -
  define Q where "Q = query_answer R plan qp"
  define rest where "rest = sorted_list_of_set (Q - {a})"
  define hs1 where "hs1 = (\<lambda>S. if S = Q then a # rest else sorted_list_of_set S)"
  define hs2 where "hs2 = (\<lambda>S. if S = Q then rest @ [a] else sorted_list_of_set S)"
  define qp1 where "qp1 = snd (execute_query R hs1 plan qp)"
  define t where "t = Some (of_nat (length (a # rest)) :: u64)"
  have fin: "finite Q" "a \<in> Q" using assms(4) finite_query_answer by (auto simp: Q_def)
  then have rest: "distinct rest" "set rest = Q - {a}" "length rest = card Q - 1" by (simp_all add: rest_def)
  have ord: "hash_order hs1" "hash_order hs2"
    using fin rest by (auto simp: hash_order_def hs1_def hs2_def)
  have "\<not> (\<forall>f\<in>set (pl_filters plan). gpa_accounts R qp f = None)"
  proof
    assume "\<forall>f\<in>set (pl_filters plan). gpa_accounts R qp f = None"
    from bspec [OF this assms(2)] show False using assms(3) by contradiction
  qed
  then have run: "fst (execute_query R hs plan qp) = hs Q" for hs
    by (simp only: execute_query_result [OF assms(1)] Q_def if_False)
  have "length (a # rest) + 1 < 2 ^ 64" using assms(7) fin rest by (cases "card Q") (auto simp: Q_def)
  then have "paginate h (fst (execute_query R hs1 plan qp)) (Some (cursor_new 1)) = Ok (paginated_result_new [a] 1 t)" for h
    unfolding run hs1_def t_def by (simp only: paginate_first if_True refl)
  then have e1: "execute_query_paginated R hs1 plan (Some (cursor_new 1)) qp = (Ok (paginated_result_new [a] 1 t), qp1)"
    by (simp add: execute_query_paginated_def case_prod_unfold qp1_def)
  have "distinct (rest @ [a])" "length (rest @ [a]) = length (a # rest)" using rest by simp_all
  then have "paginate h (fst (execute_query R hs2 plan qp1)) (Some (from_pubkey a 1)) = Ok (paginated_result_new [] 1 t)" for h
    unfolding qp1_def execute_query_counters run hs2_def t_def by (simp only: paginate_after_last if_True refl)
  then have e2: "fst (execute_query_paginated R hs2 plan (Some (from_pubkey a 1)) qp1) = Ok (paginated_result_new [] 1 t)"
    by (simp add: execute_query_paginated_def case_prod_unfold)
  show ?thesis
  proof (intro exI conjI)
    show "hash_order hs1" "hash_order hs2" by (rule ord)+
    show "execute_query_paginated R hs1 plan (Some (cursor_new 1)) qp = (Ok (paginated_result_new [a] 1 t), qp1)"
      "fst (execute_query_paginated R hs2 plan (Some (from_pubkey a 1)) qp1) = Ok (paginated_result_new [] 1 t)"
      by (rule e1 e2)+
    show "pr_next_cursor (paginated_result_new [a] 1 t) = Some (from_pubkey a 1)"
      "pr_next_cursor (paginated_result_new [] 1 t) = None"
      by (simp_all add: paginated_result_new_def Let_def)
    show "b \<notin> set (pr_results (paginated_result_new [a] 1 t)) \<union> set (pr_results (paginated_result_new [] 1 t))"
      using assms(6) by simp
  qed
qed

theorem paginated_query_can_miss_results_witness:
  "\<exists>hs1 hs2 p1 p2 c qp1. hash_order hs1 \<and> hash_order hs2 \<and>
    execute_query_paginated list_treemap hs1 (sample_plan 7) (Some (cursor_new 1)) sample_planner = (Ok p1, qp1) \<and>
    pr_next_cursor p1 = Some c \<and>
    fst (execute_query_paginated list_treemap hs2 (sample_plan 7) (Some c) qp1) = Ok p2 \<and> pr_next_cursor p2 = None \<and>
    2 \<notin> set (pr_results p1) \<union> set (pr_results p2)"
  by (rule paginated_query_can_miss_results [of list_treemap sample_planner "sample_plan 7" "[1, 2]" "GpaDataSize 165" 1 2])
    (simp_all add: sample_plan_simps sample_lookups sample_answer)

text \<open>Planning counts the accounts of the program by inserting the same placeholder id for
  each, so the estimated cardinality is at most one and no plan ever asks for streaming.\<close>

theorem plan_query_never_streams:
  assumes "roaring R" "mono rnd" "rnd 0 = 0" "rnd 1 = 1"
  shows "\<not> pl_use_streaming (plan_query R rnd qp program_id filters) \<and>
    qe_estimated_cardinality (pl_cost_estimate (plan_query R rnd qp program_id filters)) \<le> 1"
proof -
  let ?b = "fold (\<lambda>_ b. snd (pb_insert R 0 b)) (unwrap_or [] (get_program_accounts R (qp_program_index qp) program_id)) (pb_new R)"
  have le: "estimator_cardinality rnd ?b n m d \<le> 1" for n m d
    by (rule estimator_cardinality_unit [OF assms(2-4) roaring.placeholder_bitmap [OF assms(1)]])
  then have "\<not> 1000 < estimator_cardinality rnd ?b n m d" for n m d
    using order_trans [OF le, of 1000 n m d] by (simp add: not_less)
  then show ?thesis using le by (simp add: plan_query_def estimate_get_program_accounts_def Let_def)
qed

theorem plan_query_never_streams_witness:
  "\<not> pl_use_streaming (plan_query list_treemap id sample_planner 7 [])"
  using plan_query_never_streams [OF lt.roaring_axioms, of id sample_planner 7 "[]"] by (simp add: mono_def)

end
