(* ===== verification/Index_Manager.thy ===== *)
theory Index_Manager
  imports Location Query_Planner
begin

text \<open>
  Account views (\<open>hyperplane-types/src/account.rs\<close>) and the index manager that feeds them to the
  secondary indexes (\<open>synapse-hyperplane/src/index_manager.rs\<close>).

  A pubkey made from an array of 32 bytes is the argument \<open>from_array\<close>.  The manager owns the
  six indexes it was configured with; the planner reads the same indexes, so that what a
  query returns can be stated on the account data given to the manager.
\<close>

section \<open>Account views\<close>

record 'pk solana_account =
  sa_lamports :: u64
  sa_data :: "byte list"
  sa_owner :: 'pk
  sa_executable :: bool
  sa_rent_epoch :: u64

record 'pk account_view =
  av_pubkey :: 'pk
  av_lamports :: u64
  av_data :: "byte list"
  av_owner :: 'pk
  av_executable :: bool
  av_slot :: u64
  av_write_version :: u64
  av_rent_epoch :: u64
  av_storage_type :: storage_type
  av_location :: account_location

definition from_solana_account ::
  "'pk \<Rightarrow> 'pk solana_account \<Rightarrow> u64 \<Rightarrow> u64 \<Rightarrow> account_location \<Rightarrow> 'pk account_view" where
  "from_solana_account pubkey account slot write_version location =
     \<lparr> av_pubkey = pubkey, av_lamports = sa_lamports account, av_data = sa_data account,
       av_owner = sa_owner account, av_executable = sa_executable account, av_slot = slot,
       av_write_version = write_version, av_rent_epoch = sa_rent_epoch account,
       av_storage_type = loc_storage_type location, av_location = location \<rparr>"

definition to_solana_account :: "'pk account_view \<Rightarrow> 'pk solana_account" where
  "to_solana_account v =
     \<lparr> sa_lamports = av_lamports v, sa_data = av_data v, sa_owner = av_owner v,
       sa_executable = av_executable v, sa_rent_epoch = av_rent_epoch v \<rparr>"

definition view_data_size :: "'pk account_view \<Rightarrow> nat" where
  "view_data_size v = length (av_data v)"

definition is_at_least :: "'pk account_view \<Rightarrow> u64 \<Rightarrow> u64 \<Rightarrow> bool" where
  "is_at_least v slot write_version =
     (if av_slot v \<noteq> slot then av_slot v \<ge> slot else av_write_version v \<ge> write_version)"

definition discriminator :: "'pk account_view \<Rightarrow> byte list option" where
  "discriminator v = (if length (av_data v) \<ge> 8 then slice (av_data v) 0 8 else None)"

record 'pk account_metadata =
  am_pubkey :: 'pk
  am_owner :: 'pk
  am_data_len :: u32
  am_lamports :: u64
  am_executable :: bool
  am_slot :: u64
  am_write_version :: u64

definition from_account_view :: "'pk account_view \<Rightarrow> 'pk account_metadata" where
  "from_account_view v =
     \<lparr> am_pubkey = av_pubkey v, am_owner = av_owner v, am_data_len = of_nat (length (av_data v)),
       am_lamports = av_lamports v, am_executable = av_executable v, am_slot = av_slot v,
       am_write_version = av_write_version v \<rparr>"

record 'pk geyser_account_update =
  gu_pubkey :: 'pk
  gu_lamports :: u64
  gu_owner :: 'pk
  gu_executable :: bool
  gu_slot :: u64
  gu_write_version :: u64
  gu_rent_epoch :: u64
  gu_data :: "byte list"
  gu_tx_index :: "nat option"
  gu_is_startup :: bool

definition into_account_view :: "'pk geyser_account_update \<Rightarrow> account_location \<Rightarrow> 'pk account_view" where
  "into_account_view u location =
     \<lparr> av_pubkey = gu_pubkey u, av_lamports = gu_lamports u, av_data = gu_data u, av_owner = gu_owner u,
       av_executable = gu_executable u, av_slot = gu_slot u, av_write_version = gu_write_version u,
       av_rent_epoch = gu_rent_epoch u, av_storage_type = loc_storage_type location, av_location = location \<rparr>"

definition update_from_solana_account ::
  "'pk \<Rightarrow> 'pk solana_account \<Rightarrow> u64 \<Rightarrow> u64 \<Rightarrow> bool \<Rightarrow> 'pk geyser_account_update" where
  "update_from_solana_account pubkey account slot write_version is_startup =
     \<lparr> gu_pubkey = pubkey, gu_lamports = sa_lamports account, gu_owner = sa_owner account,
       gu_executable = sa_executable account, gu_slot = slot, gu_write_version = write_version,
       gu_rent_epoch = sa_rent_epoch account, gu_data = sa_data account, gu_tx_index = None,
       gu_is_startup = is_startup \<rparr>"


section \<open>The index manager\<close>

record index_manager_config =
  ic_enable_program_index :: bool
  ic_enable_token_owner :: bool
  ic_enable_token_mint :: bool
  ic_enable_data_size :: bool
  ic_enable_memcmp :: bool
  ic_enable_discriminator :: bool

definition index_manager_config_default :: index_manager_config where
  "index_manager_config_default =
     \<lparr> ic_enable_program_index = True, ic_enable_token_owner = True, ic_enable_token_mint = True,
       ic_enable_data_size = True, ic_enable_memcmp = True, ic_enable_discriminator = True \<rparr>"

record ('pk, 'b) index_manager =
  im_program_index :: "('pk, 'b) program_index option"
  im_token_owner_index :: "('pk, 'b) token_owner_index option"
  im_token_mint_index :: "('pk, 'b) token_mint_index option"
  im_data_size_index :: "('pk, 'b) data_size_index option"
  im_memcmp_index :: "('pk, 'b) memcmp_index option"
  im_discriminator_index :: "('pk, 'b) discriminator_index option"
  im_total_indexed :: u64
  im_total_updates :: u64

definition index_manager_new :: "index_manager_config \<Rightarrow> ('pk, 'b) index_manager" where
  "index_manager_new config =
     \<lparr> im_program_index = (if ic_enable_program_index config then Some prog_new else None),
       im_token_owner_index = (if ic_enable_token_owner config then Some own_new else None),
       im_token_mint_index = (if ic_enable_token_mint config then Some mint_new else None),
       im_data_size_index = (if ic_enable_data_size config then Some dsz_new else None),
       im_memcmp_index = (if ic_enable_memcmp config then Some mc_new else None),
       im_discriminator_index = (if ic_enable_discriminator config then Some disc_new else None),
       im_total_indexed = 0, im_total_updates = 0 \<rparr>"

definition TOKEN_PROGRAM_BYTES :: "byte list" where
  "TOKEN_PROGRAM_BYTES =
     [6, 167, 213, 23, 166, 155, 76, 121, 104, 160, 73, 198, 153, 124, 57, 121,
      87, 101, 152, 199, 246, 121, 126, 178, 126, 126, 39, 39, 34, 118, 153, 81]"

definition update_tokens ::
  "'b treemap_ops \<Rightarrow> (byte list \<Rightarrow> 'pk) \<Rightarrow> 'pk::linorder account_view \<Rightarrow> u64 \<Rightarrow> ('pk, 'b) index_manager \<Rightarrow> ('pk, 'b) index_manager" where
  "update_tokens R from_array account slot im =
     (if av_owner account = from_array TOKEN_PROGRAM_BYTES \<and> length (av_data account) \<ge> 72
      then
        (let mint = from_array (take 32 (av_data account));
             token_owner = from_array (take 32 (drop 32 (av_data account)))
         in im \<lparr> im_token_owner_index :=
                   map_option (own_add_token_account R (av_pubkey account) token_owner slot) (im_token_owner_index im),
                 im_token_mint_index :=
                   map_option (mint_add_token_account R (av_pubkey account) mint slot) (im_token_mint_index im) \<rparr>)
      else im)"

definition update_memcmps ::
  "'b treemap_ops \<Rightarrow> 'pk::linorder \<Rightarrow> byte list \<Rightarrow> u64 \<Rightarrow> ('pk, 'b) memcmp_index \<Rightarrow> ('pk, 'b) memcmp_index" where
  "update_memcmps R pubkey data slot idx =
     (let idx1 = (if length data \<ge> 8 then add_account_memcmp R pubkey 0 (take 8 data) slot idx else idx)
      in if length data \<ge> 32 then add_account_memcmp R pubkey 0 (take 32 data) slot idx1 else idx1)"

definition im_update_account ::
  "'b treemap_ops \<Rightarrow> (byte list \<Rightarrow> 'pk) \<Rightarrow> 'pk::linorder account_view \<Rightarrow> u64 \<Rightarrow> ('pk, 'b) index_manager \<Rightarrow> ('pk, 'b) index_manager" where
  "im_update_account R from_array account slot im0 =
     (let pubkey = av_pubkey account; owner = av_owner account; data = av_data account;
          im1 = im0 \<lparr> im_total_updates := im_total_updates im0 + 1 \<rparr>;
          im2 = im1 \<lparr> im_program_index := map_option (prog_add_account R pubkey owner slot) (im_program_index im1) \<rparr>;
          im3 = update_tokens R from_array account slot im2;
          im4 = im3 \<lparr> im_data_size_index :=
                  map_option (dsz_add_account R pubkey (of_nat (length data)) slot) (im_data_size_index im3) \<rparr>;
          im5 = im4 \<lparr> im_memcmp_index := map_option (update_memcmps R pubkey data slot) (im_memcmp_index im4) \<rparr>;
          im6 = im5 \<lparr> im_discriminator_index :=
                  map_option (\<lambda>idx. if length data \<ge> 8 then disc_add_account R pubkey (take 8 data) slot idx else idx)
                    (im_discriminator_index im5) \<rparr>
      in im6 \<lparr> im_total_indexed := im_total_indexed im6 + 1 \<rparr>)"

definition im_remove_account ::
  "'b treemap_ops \<Rightarrow> 'pk::linorder \<Rightarrow> ('pk, 'b) index_manager \<Rightarrow> ('pk, 'b) index_manager" where
  "im_remove_account R pubkey im =
     im \<lparr> im_program_index := map_option (prog_remove_account R pubkey) (im_program_index im),
          im_token_owner_index := map_option (own_remove_token_account R pubkey) (im_token_owner_index im),
          im_token_mint_index := map_option (mint_remove_token_account R pubkey) (im_token_mint_index im),
          im_data_size_index := map_option (dsz_remove_account R pubkey) (im_data_size_index im) \<rparr>"

definition im_stats :: "('pk, 'b) index_manager \<Rightarrow> u64 \<times> u64" where
  "im_stats im = (im_total_indexed im, im_total_updates im)"


section \<open>The planner over the indexes of a manager\<close>

text \<open>
  \<open>initialize_query_planner\<close> gives the planner the four indexes of the manager and fails when
  one is disabled.
\<close>

definition manager_planner :: "('pk, 'b) index_manager \<Rightarrow> ('pk, 'b) query_planner option" where
  "manager_planner im =
     (case (im_program_index im, im_data_size_index im, im_memcmp_index im, im_discriminator_index im) of
        (Some p, Some z, Some m, Some d) \<Rightarrow> Some (planner_new p z m d)
      | _ \<Rightarrow> None)"


section \<open>Histories of additions and removals\<close>

definition add_ops :: "('pk \<times> 'k \<times> u64) list \<Rightarrow> ('pk, 'k) index_op list" where
  "add_ops aks = map (\<lambda>(a, k, t). AddAccount a k t) aks"

lemma add_ops_simps: "add_ops [] = []" "add_ops ((a, k, t) # aks) = AddAccount a k t # add_ops aks"
  by (simp_all add: add_ops_def)

lemma adds_spec:
  "is_rel (fold spec_apply (add_ops aks) A) = is_rel A \<union> {(k, a). \<exists>t. (a, k, t) \<in> set aks} \<and>
   is_keys (fold spec_apply (add_ops aks) A) = is_keys A \<union> {k. \<exists>a t. (a, k, t) \<in> set aks} \<and>
   set (is_order (fold spec_apply (add_ops aks) A)) = set (is_order A) \<union> fst ` set aks"
proof (induction aks arbitrary: A)
  case (Cons x aks)
  obtain a k t where x: "x = (a, k, t)" by (cases x)
  show ?case
    using Cons [of "spec_add a k A"]
    by (auto simp: x add_ops_simps spec_apply_def spec_add_def add_new_def image_iff)
qed (simp add: add_ops_simps)

lemma removes_spec:
  assumes "is_rel A = {(k, a). is_key_of A a = Some k}"
  shows "is_rel (fold spec_apply (map RemoveAccount xs) A) = {(k, a) \<in> is_rel A. a \<notin> set xs} \<and>
    is_keys (fold spec_apply (map RemoveAccount xs) A) = is_keys A \<and>
    is_order (fold spec_apply (map RemoveAccount xs) A) = is_order A"
  using assms
proof (induction xs arbitrary: A)
  case (Cons x xs)
  let ?B = "spec_remove x A"
  have rel: "is_rel ?B = {(k, a) \<in> is_rel A. a \<noteq> x}"
    using Cons.prems by (auto simp: spec_remove_def split: option.splits)
  have "is_keys ?B = is_keys A" "is_order ?B = is_order A"
    by (simp_all add: spec_remove_def split: option.split)
  moreover have "is_rel ?B = {(k, a). is_key_of ?B a = Some k}"
    unfolding rel using Cons.prems by (auto simp: spec_remove_key_of)
  ultimately show ?case using Cons.IH [of ?B] rel by (auto simp: spec_apply_def)
qed simp

lemma well_keyed_adds:
  assumes "distinct (map fst aks)" "\<forall>a\<in>fst ` set aks. m a = None"
  shows "well_keyed (add_ops aks) m"
  using assms
proof (induction aks arbitrary: m)
  case (Cons x aks)
  obtain a k t where x: "x = (a, k, t)" by (cases x)
  have "well_keyed (add_ops aks) (m(a \<mapsto> k))" by (rule Cons.IH) (use Cons.prems x in auto)
  then show ?case using Cons.prems by (simp add: x add_ops_simps)
qed (simp add: add_ops_simps)

text \<open>The accounts a lookup lists, and whether it finds its key, after distinct accounts were
  added and some removed.\<close>

definition listed :: "'pk list option \<Rightarrow> 'pk set" where
  "listed r = (case r of None \<Rightarrow> {} | Some as \<Rightarrow> set as)"

lemma spec_lookup_listed:
  assumes "is_rel A \<subseteq> is_keys A \<times> set (is_order A)"
  shows "listed (spec_lookup A k) = {a. (k, a) \<in> is_rel A}" "spec_lookup A k = None \<longleftrightarrow> k \<notin> is_keys A"
  using assms by (auto simp: listed_def spec_lookup_def)

lemma adds_lookup:
  "listed (spec_lookup (fold spec_apply (add_ops aks) spec_new) k) = {a. \<exists>t. (a, k, t) \<in> set aks}"
  "spec_lookup (fold spec_apply (add_ops aks) spec_new) k = None \<longleftrightarrow> (\<forall>a t. (a, k, t) \<notin> set aks)"
proof -
  let ?A = "fold spec_apply (add_ops aks) (spec_new :: ('a, 'b) index_spec)"
  have sub: "is_rel ?A \<subseteq> is_keys ?A \<times> set (is_order ?A)" by (rule spec_keys_covered) (simp add: spec_new_def)
  show "listed (spec_lookup ?A k) = {a. \<exists>t. (a, k, t) \<in> set aks}"
    unfolding spec_lookup_listed(1) [OF sub] using adds_spec [of aks spec_new] by (simp add: spec_new_def)
  show "spec_lookup ?A k = None \<longleftrightarrow> (\<forall>a t. (a, k, t) \<notin> set aks)"
    unfolding spec_lookup_listed(2) [OF sub] using adds_spec [of aks spec_new] by (simp add: spec_new_def)
qed

lemma adds_removes_lookup:
  assumes "distinct (map fst aks)"
  shows "listed (spec_lookup (fold spec_apply (add_ops aks @ map RemoveAccount xs) spec_new) k) =
      {a. a \<notin> set xs \<and> (\<exists>t. (a, k, t) \<in> set aks)}"
    and "spec_lookup (fold spec_apply (add_ops aks @ map RemoveAccount xs) spec_new) k = None \<longleftrightarrow>
      (\<forall>a t. (a, k, t) \<notin> set aks)"
proof -
  let ?A = "fold spec_apply (add_ops aks) (spec_new :: ('a, 'b) index_spec)"
  let ?B = "fold spec_apply (map RemoveAccount xs) ?A"
  have "is_rel ?A = {(k, a). is_key_of ?A a = Some k}"
    by (rule well_keyed_rel) (auto simp: spec_new_def well_keyed_adds assms)
  note B = removes_spec [OF this, of xs]
  have sub: "is_rel ?B \<subseteq> is_keys ?B \<times> set (is_order ?B)"
    by (intro spec_keys_covered) (simp add: spec_new_def)
  have f: "fold spec_apply (add_ops aks @ map RemoveAccount xs) spec_new = ?B" by simp
  show "listed (spec_lookup (fold spec_apply (add_ops aks @ map RemoveAccount xs) spec_new) k) =
      {a. a \<notin> set xs \<and> (\<exists>t. (a, k, t) \<in> set aks)}"
    unfolding f spec_lookup_listed(1) [OF sub] using B adds_spec [of aks spec_new] by (auto simp: spec_new_def)
  show "spec_lookup (fold spec_apply (add_ops aks @ map RemoveAccount xs) spec_new) k = None \<longleftrightarrow>
      (\<forall>a t. (a, k, t) \<notin> set aks)"
    unfolding f spec_lookup_listed(2) [OF sub] using B adds_spec [of aks spec_new] by (simp add: spec_new_def)
qed


section \<open>What the manager adds to each index\<close>

type_synonym 'pk view_list = "('pk account_view \<times> u64) list"

definition owner_keys :: "'pk view_list \<Rightarrow> ('pk \<times> 'pk \<times> u64) list" where
  "owner_keys us = map (\<lambda>(v, t). (av_pubkey v, av_owner v, t)) us"

definition size_keys :: "'pk view_list \<Rightarrow> ('pk \<times> u64 \<times> u64) list" where
  "size_keys us = map (\<lambda>(v, t). (av_pubkey v, of_nat (length (av_data v)), t)) us"

definition disc_keys :: "'pk view_list \<Rightarrow> ('pk \<times> byte list \<times> u64) list" where
  "disc_keys us = concat (map (\<lambda>(v, t). if length (av_data v) \<ge> 8 then [(av_pubkey v, take 8 (av_data v), t)] else []) us)"

definition memcmp_keys :: "'pk view_list \<Rightarrow> ('pk \<times> memcmp_filter \<times> u64) list" where
  "memcmp_keys us = concat (map (\<lambda>(v, t).
     (if length (av_data v) \<ge> 8 then [(av_pubkey v, MemcmpFilter 0 (take 8 (av_data v)), t)] else []) @
     (if length (av_data v) \<ge> 32 then [(av_pubkey v, MemcmpFilter 0 (take 32 (av_data v)), t)] else [])) us)"

definition im_run ::
  "'b treemap_ops \<Rightarrow> (byte list \<Rightarrow> 'pk::linorder) \<Rightarrow> 'pk view_list \<Rightarrow> 'pk list \<Rightarrow> ('pk, 'b) index_manager \<Rightarrow> ('pk, 'b) index_manager" where
  "im_run R from_array us xs im =
     fold (im_remove_account R) xs (fold (\<lambda>(v, t). im_update_account R from_array v t) us im)"

lemmas im_update_simps = im_update_account_def update_tokens_def Let_def

lemma im_update_fields:
  "im_program_index (im_update_account R fa v t im) = map_option (prog_add_account R (av_pubkey v) (av_owner v) t) (im_program_index im)"
  "im_data_size_index (im_update_account R fa v t im) =
     map_option (dsz_add_account R (av_pubkey v) (of_nat (length (av_data v))) t) (im_data_size_index im)"
  "im_memcmp_index (im_update_account R fa v t im) = map_option (update_memcmps R (av_pubkey v) (av_data v) t) (im_memcmp_index im)"
  "im_discriminator_index (im_update_account R fa v t im) =
     map_option (\<lambda>idx. if length (av_data v) \<ge> 8 then disc_add_account R (av_pubkey v) (take 8 (av_data v)) t idx else idx)
       (im_discriminator_index im)"
  by (simp_all add: im_update_simps)

lemma option_fold: "map_option f (Some x) = Some (f x)"
  by simp

lemma im_updates_fields:
  assumes "im_program_index im = Some p" "im_data_size_index im = Some z" "im_memcmp_index im = Some m"
    "im_discriminator_index im = Some d"
  shows "im_program_index (fold (\<lambda>(v, t). im_update_account R fa v t) us im) =
      Some (fold (index_apply (prog_add_account R) (prog_remove_account R)) (add_ops (owner_keys us)) p) \<and>
    im_data_size_index (fold (\<lambda>(v, t). im_update_account R fa v t) us im) =
      Some (fold (index_apply (dsz_add_account R) (dsz_remove_account R)) (add_ops (size_keys us)) z) \<and>
    im_memcmp_index (fold (\<lambda>(v, t). im_update_account R fa v t) us im) =
      Some (fold (\<lambda>(a, f, slot). add_account_memcmp R a (filter_offset f) (filter_bytes f) slot) (memcmp_keys us) m) \<and>
    im_discriminator_index (fold (\<lambda>(v, t). im_update_account R fa v t) us im) =
      Some (fold (index_apply (disc_add_account R) (disc_remove_account R)) (add_ops (disc_keys us)) d)"
  using assms
proof (induction us arbitrary: im p z m d)
  case (Cons x us)
  obtain v t where x: "x = (v, t)" by (cases x)
  note step = Cons.IH [OF im_update_fields(1) [of R fa v t im, unfolded Cons.prems option_fold]
      im_update_fields(2) [of R fa v t im, unfolded Cons.prems option_fold]
      im_update_fields(3) [of R fa v t im, unfolded Cons.prems option_fold]
      im_update_fields(4) [of R fa v t im, unfolded Cons.prems option_fold]]
  show ?case
    using step
    by (simp add: x owner_keys_def size_keys_def disc_keys_def memcmp_keys_def add_ops_def index_apply_def
        update_memcmps_def Let_def)
qed (simp add: owner_keys_def size_keys_def disc_keys_def memcmp_keys_def add_ops_def)

lemma im_removes_fields:
  assumes "im_program_index im = Some p" "im_data_size_index im = Some z"
  shows "im_program_index (fold (im_remove_account R) xs im) =
      Some (fold (index_apply (prog_add_account R) (prog_remove_account R)) (map RemoveAccount xs) p) \<and>
    im_data_size_index (fold (im_remove_account R) xs im) =
      Some (fold (index_apply (dsz_add_account R) (dsz_remove_account R)) (map RemoveAccount xs) z) \<and>
    im_memcmp_index (fold (im_remove_account R) xs im) = im_memcmp_index im \<and>
    im_discriminator_index (fold (im_remove_account R) xs im) = im_discriminator_index im"
  using assms by (induction xs arbitrary: im p z) (simp_all add: im_remove_account_def index_apply_def)

lemma im_run_planner:
  "manager_planner (im_run R fa us xs (index_manager_new index_manager_config_default)) =
   Some (planner_new
     (fold (index_apply (prog_add_account R) (prog_remove_account R)) (add_ops (owner_keys us) @ map RemoveAccount xs) prog_new)
     (fold (index_apply (dsz_add_account R) (dsz_remove_account R)) (add_ops (size_keys us) @ map RemoveAccount xs) dsz_new)
     (fold (\<lambda>(a, f, slot). add_account_memcmp R a (filter_offset f) (filter_bytes f) slot) (memcmp_keys us) mc_new)
     (fold (index_apply (disc_add_account R) (disc_remove_account R)) (add_ops (disc_keys us)) disc_new))"
proof -
  let ?im = "index_manager_new index_manager_config_default :: ('a, 'b) index_manager"
  have new: "im_program_index ?im = Some prog_new" "im_data_size_index ?im = Some dsz_new"
      "im_memcmp_index ?im = Some mc_new" "im_discriminator_index ?im = Some disc_new"
    by (simp_all add: index_manager_new_def index_manager_config_default_def)
  note u = im_updates_fields [OF new, of R fa us]
  note r = im_removes_fields [OF conjunct1 [OF u] conjunct1 [OF conjunct2 [OF u]], of R xs]
  show ?thesis using u r by (simp add: manager_planner_def im_run_def)
qed


section \<open>Filters on account data\<close>

fun view_matches :: "gpa_filter \<Rightarrow> 'pk account_view \<Rightarrow> bool" where
  "view_matches (GpaDataSize n) v \<longleftrightarrow> of_nat (length (av_data v)) = n"
| "view_matches (GpaMemcmp offset bytes) v \<longleftrightarrow>
     slice (av_data v) (unat offset) (unat offset + length bytes) = Some bytes"
| "view_matches (GpaDiscriminator disc) v \<longleftrightarrow> discriminator v = Some disc"

text \<open>The manager indexes the first 8 and the first 32 bytes only.\<close>

fun supported :: "gpa_filter \<Rightarrow> bool" where
  "supported (GpaMemcmp offset bytes) \<longleftrightarrow> offset = 0 \<and> (length bytes = 8 \<or> length bytes = 32)"
| "supported _ \<longleftrightarrow> True"

lemma length_keys:
  "length (owner_keys us) = length us" "length (size_keys us) = length us" "length (disc_keys us) \<le> length us"
  "length (memcmp_keys us) \<le> 2 * length us"
  by (induction us) (auto simp: owner_keys_def size_keys_def disc_keys_def memcmp_keys_def)

lemma keys_Cons:
  "owner_keys ((v, t) # us) = (av_pubkey v, av_owner v, t) # owner_keys us"
  "size_keys ((v, t) # us) = (av_pubkey v, of_nat (length (av_data v)), t) # size_keys us"
  "disc_keys ((v, t) # us) =
     (if length (av_data v) \<ge> 8 then [(av_pubkey v, take 8 (av_data v), t)] else []) @ disc_keys us"
  "memcmp_keys ((v, t) # us) =
     (if length (av_data v) \<ge> 8 then [(av_pubkey v, MemcmpFilter 0 (take 8 (av_data v)), t)] else []) @
     (if length (av_data v) \<ge> 32 then [(av_pubkey v, MemcmpFilter 0 (take 32 (av_data v)), t)] else []) @ memcmp_keys us"
  by (simp_all add: owner_keys_def size_keys_def disc_keys_def memcmp_keys_def)

lemma keys_Nil: "owner_keys [] = []" "size_keys [] = []" "disc_keys [] = []" "memcmp_keys [] = []"
  by (simp_all add: owner_keys_def size_keys_def disc_keys_def memcmp_keys_def)

lemma discriminator_eq: "discriminator v = Some b \<longleftrightarrow> 8 \<le> length (av_data v) \<and> b = take 8 (av_data v)"
  by (auto simp: discriminator_def slice_def)

lemma mem_owner_keys:
  "(a, k, t) \<in> set (owner_keys us) \<longleftrightarrow> (\<exists>v. (v, t) \<in> set us \<and> av_pubkey v = a \<and> av_owner v = k)"
  by (induction us) (auto simp: keys_Cons keys_Nil)

lemma mem_size_keys:
  "(a, n, t) \<in> set (size_keys us) \<longleftrightarrow> (\<exists>v. (v, t) \<in> set us \<and> av_pubkey v = a \<and> view_matches (GpaDataSize n) v)"
  by (induction us) (auto simp: keys_Cons keys_Nil)

lemma mem_disc_keys:
  "(a, b, t) \<in> set (disc_keys us) \<longleftrightarrow> (\<exists>v. (v, t) \<in> set us \<and> av_pubkey v = a \<and> view_matches (GpaDiscriminator b) v)"
  by (induction us) (auto simp: keys_Cons keys_Nil discriminator_eq)

lemma memcmp_match:
  assumes "supported (GpaMemcmp offset bytes)"
  shows "view_matches (GpaMemcmp offset bytes) v \<longleftrightarrow>
    (8 \<le> length (av_data v) \<and> MemcmpFilter offset bytes = MemcmpFilter 0 (take 8 (av_data v))) \<or>
    (32 \<le> length (av_data v) \<and> MemcmpFilter offset bytes = MemcmpFilter 0 (take 32 (av_data v)))"
  using assms by (auto simp: slice_def)

lemma mem_memcmp_keys:
  assumes "supported (GpaMemcmp offset bytes)"
  shows "(a, MemcmpFilter offset bytes, t) \<in> set (memcmp_keys us) \<longleftrightarrow>
    (\<exists>v. (v, t) \<in> set us \<and> av_pubkey v = a \<and> view_matches (GpaMemcmp offset bytes) v)"
proof (induction us)
  case (Cons x us)
  obtain w s where x: "x = (w, s)" by (cases x)
  show ?case
    unfolding x keys_Cons set_append Un_iff Cons memcmp_match [OF assms] by auto
qed (simp add: keys_Nil)


section \<open>Queries over the manager's indexes\<close>

definition matching_keys :: "'pk view_list \<Rightarrow> ('pk account_view \<Rightarrow> bool) \<Rightarrow> 'pk set" where
  "matching_keys us P = {av_pubkey v | v t. (v, t) \<in> set us \<and> P v}"

lemma matching_keys_iff: "a \<in> matching_keys us P \<longleftrightarrow> (\<exists>v t. (v, t) \<in> set us \<and> av_pubkey v = a \<and> P v)"
  by (auto simp: matching_keys_def)

lemma matching_keys_empty: "matching_keys us P = {} \<longleftrightarrow> (\<forall>v t. (v, t) \<in> set us \<longrightarrow> \<not> P v)"
  by (auto simp: matching_keys_def)

lemma matching_keys_conj:
  assumes "distinct (map (av_pubkey \<circ> fst) us)"
  shows "matching_keys us P \<inter> matching_keys us Q = matching_keys us (\<lambda>v. P v \<and> Q v)"
proof -
  have "v = w" if "(v, t) \<in> set us" "(w, s) \<in> set us" "av_pubkey v = av_pubkey w" for v w s t
    using inj_onD [of "av_pubkey \<circ> fst" "set us" "(v, t)" "(w, s)"] that assms by (simp add: distinct_map)
  then show ?thesis by (auto simp: matching_keys_def) blast
qed

lemma matching_keys_all:
  assumes "distinct (map (av_pubkey \<circ> fst) us)"
  shows "{a \<in> matching_keys us P. \<forall>f\<in>set fs. a \<in> matching_keys us (Q f)} =
    matching_keys us (\<lambda>v. P v \<and> (\<forall>f\<in>set fs. Q f v))"
proof (induction fs)
  case (Cons f fs)
  have "{a \<in> matching_keys us P. \<forall>g\<in>set (f # fs). a \<in> matching_keys us (Q g)} =
      matching_keys us (\<lambda>v. P v \<and> (\<forall>g\<in>set fs. Q g v)) \<inter> matching_keys us (Q f)"
    unfolding Cons [symmetric] by auto
  also have "\<dots> = matching_keys us (\<lambda>v. (P v \<and> (\<forall>g\<in>set fs. Q g v)) \<and> Q f v)"
    by (rule matching_keys_conj [OF assms])
  finally show ?case by (simp add: conj_ac)
qed simp

lemma distinct_keys:
  assumes "distinct (map (av_pubkey \<circ> fst) us)"
  shows "distinct (map fst (owner_keys us))" "distinct (map fst (size_keys us))"
  using assms by (simp_all add: owner_keys_def size_keys_def o_def case_prod_unfold)

context roaring
begin

lemma manager_program_lookup:
  assumes "manager_planner (im_run R fa us xs (index_manager_new index_manager_config_default)) = Some qp"
    and "length us + length xs < 2 ^ 64" "distinct (map (av_pubkey \<circ> fst) us)"
  shows "listed (get_program_accounts R (qp_program_index qp) p) = matching_keys us (\<lambda>v. av_owner v = p) - set xs"
    and "get_program_accounts R (qp_program_index qp) p = None \<longleftrightarrow> matching_keys us (\<lambda>v. av_owner v = p) = {}"
proof -
  have "get_program_accounts R (qp_program_index qp) p =
      spec_lookup (fold spec_apply (add_ops (owner_keys us) @ map RemoveAccount xs) spec_new) p"
    using assms(1,2) prog_history(1) [of "add_ops (owner_keys us) @ map RemoveAccount xs" p]
    by (auto simp: im_run_planner planner_new_def add_ops_def length_keys)
  then show "listed (get_program_accounts R (qp_program_index qp) p) = matching_keys us (\<lambda>v. av_owner v = p) - set xs"
      "get_program_accounts R (qp_program_index qp) p = None \<longleftrightarrow> matching_keys us (\<lambda>v. av_owner v = p) = {}"
    using adds_removes_lookup [OF distinct_keys(1) [OF assms(3)], of xs p]
    by (auto simp: mem_owner_keys matching_keys_def)
qed

lemma manager_filter_lookup:
  assumes "manager_planner (im_run R fa us xs (index_manager_new index_manager_config_default)) = Some qp"
    and "2 * length us + length xs < 2 ^ 64" "distinct (map (av_pubkey \<circ> fst) us)" "supported f"
  shows "listed (gpa_accounts R qp f) - set xs = matching_keys us (view_matches f) - set xs \<and>
    (gpa_accounts R qp f = None \<longleftrightarrow> matching_keys us (view_matches f) = {})"
proof (cases f)
  case (GpaDataSize n)
  have "gpa_accounts R qp f = spec_lookup (fold spec_apply (add_ops (size_keys us) @ map RemoveAccount xs) spec_new) n"
    using assms(1,2) dsz_history(1) [of "add_ops (size_keys us) @ map RemoveAccount xs" n]
    by (auto simp: GpaDataSize im_run_planner planner_new_def add_ops_def length_keys)
  then show ?thesis
    using adds_removes_lookup [OF distinct_keys(2) [OF assms(3)], of xs n]
    by (auto simp: GpaDataSize mem_size_keys matching_keys_def)
next
  case (GpaDiscriminator b)
  have "length (add_ops (disc_keys us)) < 2 ^ 64"
    using assms(2) length_keys(3) [of us] by (simp add: add_ops_def)
  then have "gpa_accounts R qp f = spec_lookup (fold spec_apply (add_ops (disc_keys us)) spec_new) b"
    using assms(1) disc_history(1) [of "add_ops (disc_keys us)" b]
    by (auto simp: GpaDiscriminator im_run_planner planner_new_def)
  then show ?thesis
    using adds_lookup [of "disc_keys us" b] by (auto simp: GpaDiscriminator mem_disc_keys matching_keys_def)
next
  case (GpaMemcmp offset bytes)
  have len: "length (memcmp_keys us) < 2 ^ 64" using assms(2) length_keys(4) [of us] by simp
  have sup: "supported (GpaMemcmp offset bytes)" using assms(4) GpaMemcmp by simp
  have eq: "fold (\<lambda>(a, f, slot). spec_add a f) (memcmp_keys us) spec_new = fold spec_apply (add_ops (memcmp_keys us)) spec_new"
    by (simp add: add_ops_def fold_map spec_apply_def [abs_def] o_def case_prod_unfold)
  have "gpa_accounts R qp f = spec_lookup (fold spec_apply (add_ops (memcmp_keys us)) spec_new) (MemcmpFilter offset bytes)"
    using assms(1) mc_lookup [OF mc_history [OF len], of "MemcmpFilter offset bytes"]
    by (auto simp: GpaMemcmp im_run_planner planner_new_def eq)
  then show ?thesis
    using adds_lookup [of "memcmp_keys us" "MemcmpFilter offset bytes"]
    unfolding GpaMemcmp mem_memcmp_keys [OF sup] by (auto simp: matching_keys_def simp del: view_matches.simps)
qed

end


section \<open>Properties\<close>


definition sample_view :: "nat \<Rightarrow> nat \<Rightarrow> byte list \<Rightarrow> nat account_view" where
  "sample_view k owner data =
     from_solana_account k \<lparr> sa_lamports = 5, sa_data = data, sa_owner = owner, sa_executable = False, sa_rent_epoch = 0 \<rparr>
       100 1 (new_base 1 0 100 0 4 100 1)"

definition sample_views :: "nat view_list" where
  "sample_views = [(sample_view 1 7 [1, 2, 3], 100), (sample_view 2 7 [4, 5, 6], 100), (sample_view 3 8 [7, 8, 9], 101)]"

lemma sample_view_simps:
  "av_pubkey (sample_view k p d) = k" "av_owner (sample_view k p d) = p" "av_data (sample_view k p d) = d"
  by (simp_all add: sample_view_def from_solana_account_def)

lemma sample_views_props:
  "distinct (map (av_pubkey \<circ> fst) sample_views)" "2 * length sample_views + length [2 :: nat] < 2 ^ 64"
  "(sample_view 1 7 [1, 2, 3], 100) \<in> set sample_views" "view_matches (GpaDataSize 3) (sample_view 1 7 [1, 2, 3])"
  by (simp_all add: sample_views_def sample_view_simps)

lemma sample_views_answers:
  "{av_pubkey v | v t. (v, t) \<in> set sample_views \<and> av_pubkey v \<notin> set [2] \<and> av_owner v = 7 \<and>
     (\<forall>f\<in>set [GpaDataSize 3]. view_matches f v)} = {1}" (is "?A = _")
proof
  have "av_pubkey v = 1" if "(v, t) \<in> set sample_views" "av_pubkey v \<notin> set [2]" "av_owner v = 7" for v t
  proof -
    have "v = sample_view 1 7 [1, 2, 3] \<or> v = sample_view 2 7 [4, 5, 6] \<or> v = sample_view 3 8 [7, 8, 9]"
      using that(1) by (simp only: sample_views_def set_simps insert_iff prod.inject empty_iff) blast
    then show ?thesis using that(2,3) by (elim disjE) (simp_all only: sample_view_simps, simp_all)
  qed
  then show "?A \<subseteq> {1}" by blast
  have "1 = av_pubkey (sample_view 1 7 [1, 2, 3])" by (simp only: sample_view_simps)
  moreover have "av_pubkey (sample_view 1 7 [1, 2, 3]) \<notin> set [2]" "av_owner (sample_view 1 7 [1, 2, 3]) = 7"
    by (simp_all only: sample_view_simps, simp)
  moreover have "\<forall>f\<in>set [GpaDataSize 3]. view_matches f (sample_view 1 7 [1, 2, 3])"
    using sample_views_props(4) by simp
  ultimately show "{1} \<subseteq> ?A" using sample_views_props(3) by blast
qed

definition size_plan :: "nat query_plan" where
  "size_plan = plan_query list_treemap id sample_planner 7 [GpaDataSize 3]"


end
