(* ===== verification/Runtime.thy ===== *)
theory Runtime
  imports Slots Ring_Buffer Index_Manager
begin

text \<open>
  The runtime that owns the components and their threads
  (\<open>synapse-hyperplane/src/runtime.rs\<close>).

  The runtime record holds the shared state; the consumer thread has a state of its own.  One
  loop iteration of a thread is one step; \<open>rt_step\<close> interleaves the iterations of the
  consumer and the workers with the calls of the owner and with changes of the ring memory by
  the plugin, which another process makes.  Sleeps, logging and the metrics thread, which
  only logs, are left out.
\<close>

section \<open>State\<close>

record runtime_config =
  rtc_ring_buffer_path :: string
  rtc_delta_path :: string
  rtc_index_path :: string
  rtc_base_locator_path :: string
  rtc_query_workers :: nat
  rtc_index_workers :: nat
  rtc_rpc_bind :: string
  rtc_enable_metrics :: bool
  rtc_metrics_port :: u16

definition runtime_config_default :: runtime_config where
  "runtime_config_default =
     \<lparr> rtc_ring_buffer_path = ''/dev/shm/synapse-geyser.ring'', rtc_delta_path = ''/tmp/synapse/delta'',
       rtc_index_path = ''/tmp/synapse/indexes'', rtc_base_locator_path = ''/tmp/synapse/base-locator'',
       rtc_query_workers = 8, rtc_index_workers = 4, rtc_rpc_bind = ''0.0.0.0:8898'', rtc_enable_metrics = True,
       rtc_metrics_port = 9090 \<rparr>"

record ('pk, 'b) synapse_runtime =
  rt_slot_reconciler :: slot_reconciler
  rt_index_manager :: "('pk, 'b) index_manager"
  rt_query_planner :: "('pk, 'b) query_planner option"
  rt_running :: bool
  rt_geysers_processed :: u64
  rt_queries_executed :: u64

record runtime_stats =
  rs_geysers_processed :: u64
  rs_accounts_indexed :: u64
  rs_queries_executed :: u64
  rs_current_slot :: u64
  rs_root_slot :: u64
  rs_uptime_secs :: u64

datatype runtime_error = IndexNotAvailable

definition runtime_new :: "('pk, 'b) synapse_runtime" where
  "runtime_new =
     \<lparr> rt_slot_reconciler = reconciler_new 0,
       rt_index_manager = index_manager_new index_manager_config_default,
       rt_query_planner = None, rt_running = False, rt_geysers_processed = 0, rt_queries_executed = 0 \<rparr>"

text \<open>The planner is built and dropped; the call only reports whether all indexes are there.\<close>

definition initialize_query_planner ::
  "('pk, 'b) synapse_runtime \<Rightarrow> (runtime_error, unit) result \<times> ('pk, 'b) synapse_runtime" where
  "initialize_query_planner rt =
     (case manager_planner (rt_index_manager rt) of
        None \<Rightarrow> (Err IndexNotAvailable, rt)
      | Some planner \<Rightarrow> (Ok (), rt))"

text \<open>\<open>start\<close> sets the flag and returns the handles of the consumer, the workers and the metrics thread.\<close>

definition runtime_start :: "nat \<Rightarrow> bool \<Rightarrow> ('pk, 'b) synapse_runtime \<Rightarrow> nat \<times> ('pk, 'b) synapse_runtime" where
  "runtime_start query_workers enable_metrics rt =
     (1 + query_workers + (if enable_metrics then 1 else 0), rt \<lparr> rt_running := True \<rparr>)"

definition runtime_stop :: "('pk, 'b) synapse_runtime \<Rightarrow> ('pk, 'b) synapse_runtime" where
  "runtime_stop rt = rt \<lparr> rt_running := False \<rparr>"

definition runtime_stats_of :: "u64 \<Rightarrow> ('pk, 'b) synapse_runtime \<Rightarrow> runtime_stats" where
  "runtime_stats_of uptime rt =
     \<lparr> rs_geysers_processed = rt_geysers_processed rt, rs_accounts_indexed = fst (im_stats (rt_index_manager rt)),
       rs_queries_executed = rt_queries_executed rt,
       rs_current_slot = st_processed_slot (reconciler_stats (rt_slot_reconciler rt)),
       rs_root_slot = st_root_slot (reconciler_stats (rt_slot_reconciler rt)), rs_uptime_secs = uptime \<rparr>"


section \<open>Thread loops\<close>

datatype consumer_thread = Opening | Reading ring_reader | Waiting | Finished | Panicked

fun geyser_consumer_step ::
  "bool \<Rightarrow> nat \<Rightarrow> ring_mem \<Rightarrow> consumer_thread \<Rightarrow> ('pk, 'b) synapse_runtime \<Rightarrow>
   consumer_thread \<times> ('pk, 'b) synapse_runtime" where
  "geyser_consumer_step io len m Opening rt =
     (case ring_reader_open io len of Ok reader \<Rightarrow> (Reading reader, rt) | _ \<Rightarrow> (Waiting, rt))"
| "geyser_consumer_step io len m (Reading reader) rt =
     (if \<not> rt_running rt then (Finished, rt)
      else case ring_read_next m reader of
          (Ok (Some upd), reader') \<Rightarrow>
            (Reading reader',
             rt \<lparr> rt_slot_reconciler := update_processed (rv_slot upd) (rt_slot_reconciler rt),
                  rt_geysers_processed := rt_geysers_processed rt + 1 \<rparr>)
        | (Ok None, reader') \<Rightarrow> (Reading reader', rt)
        | (Err e, reader') \<Rightarrow> (Reading reader', rt)
        | (Panic, reader') \<Rightarrow> (Panicked, rt))"
| "geyser_consumer_step io len m Waiting rt = (if rt_running rt then Waiting else Finished, rt)"
| "geyser_consumer_step io len m Finished rt = (Finished, rt)"
| "geyser_consumer_step io len m Panicked rt = (Panicked, rt)"

definition query_worker_step :: "('pk, 'b) synapse_runtime \<Rightarrow> ('pk, 'b) synapse_runtime" where
  "query_worker_step rt =
     (if rt_running rt \<and> rt_query_planner rt \<noteq> None
      then rt \<lparr> rt_queries_executed := rt_queries_executed rt + 1 \<rparr> else rt)"

type_synonym ('pk, 'b) rt_state = "('pk, 'b) synapse_runtime \<times> consumer_thread \<times> ring_mem"

inductive rt_step :: "('pk, 'b) rt_state \<Rightarrow> ('pk, 'b) rt_state \<Rightarrow> bool" where
  rt_start: "rt_step (rt, c, m) (snd (runtime_start n e rt), c, m)"
| rt_stop: "rt_step (rt, c, m) (runtime_stop rt, c, m)"
| rt_init: "rt_step (rt, c, m) (snd (initialize_query_planner rt), c, m)"
| rt_consume: "geyser_consumer_step io len m c rt = (c', rt') \<Longrightarrow> rt_step (rt, c, m) (rt', c', m)"
| rt_work: "rt_step (rt, c, m) (query_worker_step rt, c, m)"
| rt_ring: "rt_step (rt, c, m) (rt, c, m')"

inductive_cases rt_stepE: "rt_step (rt, c, m) s'"

inductive rt_reachable :: "('pk, 'b) rt_state \<Rightarrow> bool" where
  rt_initial: "rt_reachable (runtime_new, Opening, m)"
| rt_next: "rt_reachable s \<Longrightarrow> rt_step s s' \<Longrightarrow> rt_reachable s'"

primrec consumer_run ::
  "nat \<Rightarrow> nat \<Rightarrow> ring_mem \<Rightarrow> consumer_thread \<times> ('pk, 'b) synapse_runtime \<Rightarrow>
   consumer_thread \<times> ('pk, 'b) synapse_runtime" where
  "consumer_run 0 len m s = s"
| "consumer_run (Suc n) len m s = consumer_run n len m (geyser_consumer_step True len m (fst s) (snd s))"


section \<open>What the threads leave alone\<close>

lemma consumer_frame:
  assumes "geyser_consumer_step io len m c rt = (c', rt')"
  shows "rt_index_manager rt' = rt_index_manager rt \<and> rt_query_planner rt' = rt_query_planner rt \<and>
    rt_running rt' = rt_running rt \<and> rt_queries_executed rt' = rt_queries_executed rt"
  using assms
  by (cases "(io, len, m, c, rt)" rule: geyser_consumer_step.cases)
    (auto split: result.splits prod.splits option.splits if_splits)

lemma runtime_invariant:
  assumes "rt_reachable (rt, c, m)"
  shows "rt_index_manager rt = index_manager_new index_manager_config_default \<and> rt_query_planner rt = None \<and>
    rt_queries_executed rt = 0"
  using assms
proof (induction "(rt, c, m)" arbitrary: rt c m rule: rt_reachable.induct)
  case rt_initial
  then show ?case by (simp add: runtime_new_def)
next
  case (rt_next s)
  obtain rt0 c0 m0 where s: "s = (rt0, c0, m0)" by (cases s)
  note IH = rt_next(2) [OF s]
  from rt_next(3)[unfolded s] IH show ?case
    by (cases rule: rt_stepE)
      (auto simp: runtime_start_def runtime_stop_def initialize_query_planner_def query_worker_step_def
        split: option.splits dest!: consumer_frame)
qed

text \<open>The consumer that has read \<open>xs\<close> and finds \<open>ys\<close> behind them.\<close>

lemma consumer_run_drains:
  assumes "ring_holds m (xs @ ys)" "rr_read_pos rd = of_nat (entries_size xs)" "rt_running rt"
  shows "\<exists>rd' rt'. consumer_run (length ys + k) len m (Reading rd, rt) = (Reading rd', rt') \<and>
    rt_geysers_processed rt' = rt_geysers_processed rt + of_nat (length ys) \<and>
    rt_slot_reconciler rt' = fold update_processed (map (up_slot \<circ> snd) ys) (rt_slot_reconciler rt)"
  using assms
proof (induction ys arbitrary: xs rd rt)
  case Nil
  have "consumer_run k len m (Reading rd, rt) = (Reading rd, rt)"
    using Nil by (induction k) (simp_all add: ring_read_end)
  then show ?case by simp
next
  case (Cons e ys)
  obtain pad u where e: "e = (pad, u)" by (cases e)
  let ?rd = "rd \<lparr> rr_read_pos := of_nat (entries_size (xs @ [e])) \<rparr>"
  let ?rt = "rt \<lparr> rt_slot_reconciler := update_processed (up_slot u) (rt_slot_reconciler rt),
      rt_geysers_processed := rt_geysers_processed rt + 1 \<rparr>"
  have "geyser_consumer_step True len m (Reading rd) rt = (Reading ?rd, ?rt)"
    using ring_read_entry [of m xs pad u ys rd] Cons.prems by (simp add: e view_of_def)
  then show ?case using Cons.IH [of "xs @ [e]" ?rd ?rt] Cons.prems by (simp add: e algebra_simps)
qed

lemma fold_update_processed:
  assumes "slots \<noteq> []"
  shows "st_processed_slot (rc_state (fold update_processed slots r)) = last slots"
  using assms by (induction slots rule: rev_induct) (simp_all add: update_processed_def Let_def)


section \<open>Properties\<close>

text \<open>C14: a running consumer that opens a ring holding any list of updates counts each of them once,
  moves the processed slot to the slot of the last one and then idles, however many more
  iterations it makes.\<close>

theorem runtime_consumes_ring:
  assumes "ring_holds m us" "RING_HEADER_SIZE \<le> len" "us \<noteq> []"
    and "rt = snd (runtime_start workers metrics runtime_new)"
  shows "\<exists>rd rt'. consumer_run (Suc (length us + idle)) len m (Opening, rt) = (Reading rd, rt') \<and>
    rs_geysers_processed (runtime_stats_of t rt') = of_nat (length us) \<and>
    rs_current_slot (runtime_stats_of t rt') = up_slot (snd (last us))"
proof -
  obtain rd where rd: "ring_reader_open True len = Ok rd" "rr_read_pos rd = of_nat (entries_size [])"
    using assms(2) that [of "\<lparr> rr_read_pos = 0 \<rparr>"] by (simp add: ring_reader_open_def)
  have run: "rt_running rt" "rt_geysers_processed rt = 0"
    by (simp_all add: assms(4) runtime_start_def runtime_new_def)
  show ?thesis
    using consumer_run_drains [of m "[]" us rd rt idle len] assms(1,3) rd run
      fold_update_processed [of "map (up_slot \<circ> snd) us" "rt_slot_reconciler rt"]
    by (auto simp: runtime_stats_of_def reconciler_stats_def last_map)
qed

theorem runtime_consumes_ring_witness:
  "\<exists>rd rt'. consumer_run 5 200 (ring_append \<lparr> rw_capacity = 400 \<rparr> ([0, 0, 0, 0], sample_update [9])
     \<lparr> rb_write_pos = 0, rb_read_pos = 0, rb_capacity = 400, rb_entry_count = 0, rb_state = 1,
       rb_bytes = replicate 272 0 \<rparr>) (Opening, snd (runtime_start 8 True (runtime_new :: (nat, nat) synapse_runtime))) =
     (Reading rd, rt') \<and> rs_geysers_processed (runtime_stats_of 0 rt') = 1"
proof -
  let ?m = "ring_append \<lparr> rw_capacity = 400 \<rparr> ([0, 0, 0, 0], sample_update [9])
     \<lparr> rb_write_pos = 0, rb_read_pos = 0, rb_capacity = 400, rb_entry_count = 0, rb_state = 1,
       rb_bytes = replicate 272 0 \<rparr>"
  have "ring_holds ?m [([0, 0, 0, 0], sample_update [9])]"
    using ring_append_log [of "\<lparr> rw_capacity = 400 \<rparr>" "\<lparr> rb_write_pos = 0, rb_read_pos = 0, rb_capacity = 400,
        rb_entry_count = 0, rb_state = 1, rb_bytes = replicate 272 0 \<rparr>" "[]" "([0, 0, 0, 0], sample_update [9])"]
    by (simp add: ring_log_def ring_holds_def padded_ok_def update_fits_def sample_update_def
        update_size_def ENTRY_SIZE_def)
  from runtime_consumes_ring [OF this _ _ refl, of 200 3 8 True 0, where 'a = nat and 'b = nat]
  show ?thesis by (auto simp: RING_HEADER_SIZE_def numeral_eq_Suc)
qed



end
