(* ===== verification/Lsm_Bitmap.thy ===== *)
theory Lsm_Bitmap
  imports Prelude
begin

text \<open>
  The LSM-style bitmap (\<open>index-fabric/src/lsm_bitmap.rs\<close>): inserts go to a delta, a background
  thread merges the deltas into the base.

  The \<open>roaring\<close> crate's 32-bit bitmap is a record \<open>bitmap32_ops\<close> with the laws of the locale
  \<open>roaring32\<close>.  Every critical section is one step; \<open>lsm_exec i\<close> runs the next step of task
  \<open>i\<close>, so that a schedule is a list of task numbers.  With one writer the compactions never
  overlap and no id is lost; two writers can start two compactions, and then ids are lost.
\<close>

section \<open>The bitmap crate as a parameter\<close>

record 'b bitmap32_ops =
  rb_new :: 'b
  rb_insert :: "u32 \<Rightarrow> 'b \<Rightarrow> 'b"
  rb_remove :: "u32 \<Rightarrow> 'b \<Rightarrow> 'b"
  rb_contains :: "'b \<Rightarrow> u32 \<Rightarrow> bool"
  rb_or :: "'b \<Rightarrow> 'b \<Rightarrow> 'b"
  rb_len :: "'b \<Rightarrow> u64"
  rb_iter :: "'b \<Rightarrow> u32 list"

definition rb_set :: "'b bitmap32_ops \<Rightarrow> 'b \<Rightarrow> u32 set" where
  "rb_set B m = {x. rb_contains B m x}"

text \<open>The documented behaviour of \<open>RoaringBitmap\<close>.\<close>

locale roaring32 =
  fixes B :: "'b bitmap32_ops"
  assumes set_new: "rb_set B (rb_new B) = {}"
    and set_insert: "rb_set B (rb_insert B x m) = insert x (rb_set B m)"
    and set_remove: "rb_set B (rb_remove B x m) = rb_set B m - {x}"
    and set_or: "rb_set B (rb_or B m n) = rb_set B m \<union> rb_set B n"
    and len_set: "rb_len B m = of_nat (card (rb_set B m))"
    and iter_set: "set (rb_iter B m) = rb_set B m"
    and iter_sorted: "sorted_wrt (<) (rb_iter B m)"
begin

lemma iter_eq: "rb_iter B m = sorted_list_of_set (rb_set B m)"
  using iter_sorted [of m] by (simp add: iter_set [symmetric] strict_sorted_iff sorted_list_of_set.idem_if_sorted_distinct)

lemma set_or_all: "rb_set B (fold (\<lambda>d r. rb_or B r d) ds m) = rb_set B m \<union> \<Union> (rb_set B ` set ds)"
  by (induction ds arbitrary: m) (auto simp: set_or)

end

text \<open>A lawful instance on lists of ids.\<close>

definition list_bitmap32 :: "u32 list bitmap32_ops" where
  "list_bitmap32 =
     \<lparr> rb_new = [], rb_insert = List.insert, rb_remove = removeAll, rb_contains = (\<lambda>m x. x \<in> set m),
       rb_or = (\<lambda>m n. m @ n), rb_len = (\<lambda>m. of_nat (length (remdups m))),
       rb_iter = (\<lambda>m. sort (remdups m)) \<rparr>"

interpretation lb: roaring32 list_bitmap32
  by unfold_locales (auto simp: list_bitmap32_def rb_set_def length_remdups_card_conv strict_sorted_iff)


section \<open>The bitmap\<close>

record 'b lsm_bitmap =
  lb_base :: 'b
  lb_deltas :: "'b list"
  lb_max_deltas :: nat
  lb_max_delta_size :: u64
  lb_compaction_counter :: u64
  lb_compaction_in_progress :: bool

definition lsm_with_config :: "'b bitmap32_ops \<Rightarrow> nat \<Rightarrow> u64 \<Rightarrow> 'b lsm_bitmap" where
  "lsm_with_config B max_deltas max_delta_size =
     \<lparr> lb_base = rb_new B, lb_deltas = [rb_new B], lb_max_deltas = max_deltas, lb_max_delta_size = max_delta_size,
       lb_compaction_counter = 0, lb_compaction_in_progress = False \<rparr>"

definition lsm_new :: "'b bitmap32_ops \<Rightarrow> 'b lsm_bitmap" where
  "lsm_new B = lsm_with_config B 4 100000"

text \<open>The part of \<open>insert\<close> under the lock of the deltas; \<open>last_mut().unwrap()\<close> panics without a delta.\<close>

definition lsm_insert_write :: "'b bitmap32_ops \<Rightarrow> u32 \<Rightarrow> 'b lsm_bitmap \<Rightarrow> 'b lsm_bitmap option" where
  "lsm_insert_write B i l =
     (if lb_deltas l = [] then None
      else Some (l \<lparr> lb_deltas := butlast (lb_deltas l) @ [rb_insert B i (last (lb_deltas l))],
                     lb_compaction_counter := lb_compaction_counter l + 1 \<rparr>))"

definition lsm_remove :: "'b bitmap32_ops \<Rightarrow> u32 \<Rightarrow> 'b lsm_bitmap \<Rightarrow> 'b lsm_bitmap" where
  "lsm_remove B i l = l \<lparr> lb_base := rb_remove B i (lb_base l) \<rparr>"

definition lsm_query :: "'b bitmap32_ops \<Rightarrow> 'b lsm_bitmap \<Rightarrow> 'b" where
  "lsm_query B l = fold (\<lambda>delta r. rb_or B r delta) (lb_deltas l) (lb_base l)"

definition lsm_contains :: "'b bitmap32_ops \<Rightarrow> 'b lsm_bitmap \<Rightarrow> u32 \<Rightarrow> bool" where
  "lsm_contains B l i = ((\<exists>delta\<in>set (rev (lb_deltas l)). rb_contains B delta i) \<or> rb_contains B (lb_base l) i)"

text \<open>\<open>should_compact\<close> without the flag, which is read after the counter.\<close>

definition wants_compaction :: "'b bitmap32_ops \<Rightarrow> 'b lsm_bitmap \<Rightarrow> bool" where
  "wants_compaction B l =
     (length (lb_deltas l) \<ge> lb_max_deltas l \<or>
      (lb_deltas l \<noteq> [] \<and> rb_len B (last (lb_deltas l)) \<ge> lb_max_delta_size l) \<or>
      lb_compaction_counter l \<ge> 1000000)"

definition should_compact_lsm :: "'b bitmap32_ops \<Rightarrow> 'b lsm_bitmap \<Rightarrow> bool" where
  "should_compact_lsm B l = (\<not> lb_compaction_in_progress l \<and> wants_compaction B l)"

text \<open>Merge the deltas into a copy of the base and leave one empty delta.\<close>

definition merge_deltas :: "'b bitmap32_ops \<Rightarrow> 'b \<Rightarrow> 'b lsm_bitmap \<Rightarrow> 'b \<times> 'b lsm_bitmap" where
  "merge_deltas B new_base l =
     (fold (\<lambda>delta r. rb_or B r delta) (lb_deltas l) new_base, l \<lparr> lb_deltas := [rb_new B] \<rparr>)"

definition lsm_compact :: "'b bitmap32_ops \<Rightarrow> 'b lsm_bitmap \<Rightarrow> 'b lsm_bitmap" where
  "lsm_compact B l =
     (let (new_base, l1) = merge_deltas B (lb_base l) l
      in l1 \<lparr> lb_base := new_base, lb_compaction_counter := 0 \<rparr>)"

record lsm_bitmap_stats =
  ls_base_cardinality :: u64
  ls_delta_count :: nat
  ls_total_delta_entries :: u64
  ls_estimated_total :: u64
  ls_compaction_in_progress :: bool

definition lsm_stats :: "'b bitmap32_ops \<Rightarrow> 'b lsm_bitmap \<Rightarrow> lsm_bitmap_stats" where
  "lsm_stats B l =
     (let total_delta_entries = sum_list (map (rb_len B) (lb_deltas l)) in
      \<lparr> ls_base_cardinality = rb_len B (lb_base l), ls_delta_count = length (lb_deltas l),
        ls_total_delta_entries = total_delta_entries,
        ls_estimated_total = rb_len B (lb_base l) + total_delta_entries,
        ls_compaction_in_progress = lb_compaction_in_progress l \<rparr>)"


section \<open>Writers and compactions as tasks\<close>

text \<open>
  A writer inserts a list of ids one after the other; a compaction is the background thread,
  or a blocking \<open>compact\<close> call, which leaves the flag alone.
\<close>

datatype 'b lsm_task =
    Insert_next "u32 list"
  | Check_size "u32 list"
  | Check_flag bool "u32 list"
  | Trigger "u32 list"
  | Read_base bool
  | Merge bool 'b
  | Write_base bool 'b
  | Reset_counter bool
  | Clear_flag
  | Stopped

fun lsm_task_step ::
  "'b bitmap32_ops \<Rightarrow> 'b lsm_bitmap \<Rightarrow> 'b lsm_task \<Rightarrow> 'b lsm_bitmap \<times> 'b lsm_task \<times> 'b lsm_task list" where
  "lsm_task_step B l (Insert_next []) = (l, Stopped, [])"
| "lsm_task_step B l (Insert_next (i # ids)) =
     (case lsm_insert_write B i l of
        None \<Rightarrow> (l, Stopped, [])
      | Some l' \<Rightarrow> (l', Check_size ids, []))"
| "lsm_task_step B l (Check_size ids) = (l, Check_flag (wants_compaction B l) ids, [])"
| "lsm_task_step B l (Check_flag wants ids) =
     (l, if wants \<and> \<not> lb_compaction_in_progress l then Trigger ids else Insert_next ids, [])"
| "lsm_task_step B l (Trigger ids) =
     (l \<lparr> lb_compaction_in_progress := True \<rparr>, Insert_next ids, [Read_base True])"
| "lsm_task_step B l (Read_base async) = (l, Merge async (lb_base l), [])"
| "lsm_task_step B l (Merge async new_base) =
     (let (merged, l') = merge_deltas B new_base l in (l', Write_base async merged, []))"
| "lsm_task_step B l (Write_base async new_base) = (l \<lparr> lb_base := new_base \<rparr>, Reset_counter async, [])"
| "lsm_task_step B l (Reset_counter async) =
     (l \<lparr> lb_compaction_counter := 0 \<rparr>, if async then Clear_flag else Stopped, [])"
| "lsm_task_step B l Clear_flag = (l \<lparr> lb_compaction_in_progress := False \<rparr>, Stopped, [])"
| "lsm_task_step B l Stopped = (l, Stopped, [])"

definition lsm_exec ::
  "'b bitmap32_ops \<Rightarrow> nat \<Rightarrow> 'b lsm_bitmap \<times> 'b lsm_task list \<Rightarrow> 'b lsm_bitmap \<times> 'b lsm_task list" where
  "lsm_exec B i s =
     (let (l, ts) = s in
      if i < length ts
      then (let (l', t', spawned) = lsm_task_step B l (ts ! i) in (l', ts[i := t'] @ spawned))
      else s)"


section \<open>One writer\<close>

definition visible :: "'b bitmap32_ops \<Rightarrow> 'b lsm_bitmap \<Rightarrow> u32 set" where
  "visible B l = rb_set B (lsm_query B l)"

fun writer_left :: "'b lsm_task \<Rightarrow> u32 list option" where
  "writer_left (Insert_next ids) = Some ids"
| "writer_left (Check_size ids) = Some ids"
| "writer_left (Check_flag w ids) = Some ids"
| "writer_left (Trigger ids) = Some ids"
| "writer_left Stopped = Some []"
| "writer_left _ = None"

text \<open>What a running compaction knows, \<open>D\<close> being the ids inserted so far.\<close>

fun compaction_ok :: "'b bitmap32_ops \<Rightarrow> 'b lsm_bitmap \<Rightarrow> u32 set \<Rightarrow> 'b lsm_task \<Rightarrow> bool" where
  "compaction_ok B l D (Read_base async) \<longleftrightarrow> async \<and> visible B l = D"
| "compaction_ok B l D (Merge async b) \<longleftrightarrow> async \<and> rb_set B b = rb_set B (lb_base l) \<and> visible B l = D"
| "compaction_ok B l D (Write_base async b) \<longleftrightarrow>
     async \<and> visible B l \<subseteq> D \<and> rb_set B b \<union> \<Union> (rb_set B ` set (lb_deltas l)) = D"
| "compaction_ok B l D (Reset_counter async) \<longleftrightarrow> async \<and> visible B l = D"
| "compaction_ok B l D Clear_flag \<longleftrightarrow> visible B l = D"
| "compaction_ok B l D _ \<longleftrightarrow> False"

definition one_writer :: "'b bitmap32_ops \<Rightarrow> u32 list \<Rightarrow> 'b lsm_bitmap \<Rightarrow> 'b lsm_task list \<Rightarrow> bool" where
  "one_writer B ids l ts \<longleftrightarrow>
     (\<exists>w n cs d left. ts = w # replicate n Stopped @ cs \<and> writer_left w = Some left \<and> ids = d @ left \<and>
       length (lb_deltas l) = 1 \<and>
       (cs = [] \<and> \<not> lb_compaction_in_progress l \<and> visible B l = set d \<or>
        (\<exists>c. cs = [c] \<and> lb_compaction_in_progress l \<and> (\<forall>x. w \<noteq> Trigger x) \<and> compaction_ok B l (set d) c)))"

lemma compaction_ok_frame:
  "lb_base l' = lb_base l \<Longrightarrow> lb_deltas l' = lb_deltas l \<Longrightarrow> compaction_ok B l' D c = compaction_ok B l D c"
  by (cases c) (simp_all add: visible_def lsm_query_def)

context roaring32
begin

lemma visible_eq: "visible B l = rb_set B (lb_base l) \<union> \<Union> (rb_set B ` set (lb_deltas l))"
  by (simp add: visible_def lsm_query_def set_or_all)

lemma visible_insert:
  assumes "length (lb_deltas l) = 1"
  shows "\<exists>l'. lsm_insert_write B i l = Some l' \<and> length (lb_deltas l') = 1 \<and> lb_base l' = lb_base l \<and>
    lb_compaction_in_progress l' = lb_compaction_in_progress l \<and>
    \<Union> (rb_set B ` set (lb_deltas l')) = insert i (\<Union> (rb_set B ` set (lb_deltas l)))"
proof -
  obtain d where "lb_deltas l = [d]" using assms by (cases "lb_deltas l") auto
  then show ?thesis by (simp add: lsm_insert_write_def set_insert)
qed

lemma compaction_ok_insert:
  assumes "compaction_ok B l D c" "lb_base l' = lb_base l"
    and "\<Union> (rb_set B ` set (lb_deltas l')) = insert i (\<Union> (rb_set B ` set (lb_deltas l)))"
  shows "compaction_ok B l' (insert i D) c"
  using assms by (cases c) (auto simp: visible_eq)

lemma writer_step:
  assumes w: "writer_left w = Some left" "lsm_task_step B l w = (l', w', sp)"
    and l: "length (lb_deltas l) = 1" and ids: "ids = d @ left"
    and st: "cs = [] \<and> \<not> lb_compaction_in_progress l \<and> visible B l = set d \<or>
      (\<exists>c. cs = [c] \<and> lb_compaction_in_progress l \<and> (\<forall>x. w \<noteq> Trigger x) \<and> compaction_ok B l (set d) c)"
  shows "one_writer B ids l' (w' # replicate n Stopped @ cs @ sp)"
proof (cases "\<exists>i rest. w = Insert_next (i # rest)")
  case True
  then obtain i rest where i: "w = Insert_next (i # rest)" by blast
  obtain l1 where l1: "lsm_insert_write B i l = Some l1" "length (lb_deltas l1) = 1" "lb_base l1 = lb_base l"
      "lb_compaction_in_progress l1 = lb_compaction_in_progress l"
      "\<Union> (rb_set B ` set (lb_deltas l1)) = insert i (\<Union> (rb_set B ` set (lb_deltas l)))"
    using visible_insert [OF l] by blast
  have step: "l' = l1" "w' = Check_size rest" "sp = []" using w(2) l1(1) by (simp_all add: i)
  have "cs = [] \<and> \<not> lb_compaction_in_progress l1 \<and> visible B l1 = set (d @ [i]) \<or>
      (\<exists>c. cs = [c] \<and> lb_compaction_in_progress l1 \<and> (\<forall>x. w' \<noteq> Trigger x) \<and> compaction_ok B l1 (set (d @ [i])) c)"
    using st compaction_ok_insert [OF _ l1(3,5)] l1(3-5) by (auto simp: visible_eq step)
  moreover have "ids = (d @ [i]) @ rest" using ids w(1) by (simp add: i)
  ultimately show ?thesis unfolding one_writer_def step using l1(2) by fastforce
next
  case False
  note frame = compaction_ok_frame [of l' l B "set d"]
  have "(l' = l \<and> sp = [] \<and> writer_left w' = Some left \<and> (\<forall>x. w' = Trigger x \<longrightarrow> \<not> lb_compaction_in_progress l)) \<or>
      (\<exists>x. w = Trigger x \<and> l' = l \<lparr> lb_compaction_in_progress := True \<rparr> \<and> w' = Insert_next x \<and> sp = [Read_base True])"
    using w False by (cases "(B, l, w)" rule: lsm_task_step.cases) auto
  then show ?thesis
  proof
    assume "l' = l \<and> sp = [] \<and> writer_left w' = Some left \<and> (\<forall>x. w' = Trigger x \<longrightarrow> \<not> lb_compaction_in_progress l)"
    then show ?thesis unfolding one_writer_def using l ids st by fastforce
  next
    assume "\<exists>x. w = Trigger x \<and> l' = l \<lparr> lb_compaction_in_progress := True \<rparr> \<and> w' = Insert_next x \<and> sp = [Read_base True]"
    then obtain x where x: "w = Trigger x" "l' = l \<lparr> lb_compaction_in_progress := True \<rparr>" "w' = Insert_next x" "sp = [Read_base True]"
      by blast
    then have "cs = []" "visible B l = set d" using st by auto
    then show ?thesis unfolding one_writer_def using x l ids w(1) by (fastforce simp: visible_eq)
  qed
qed

lemma compaction_step:
  assumes c: "compaction_ok B l (set d) c" "lsm_task_step B l c = (l', c', sp)"
    and w: "writer_left w = Some left" "\<forall>x. w \<noteq> Trigger x" and l: "length (lb_deltas l) = 1" "lb_compaction_in_progress l"
    and ids: "ids = d @ left"
  shows "one_writer B ids l' (w # replicate n Stopped @ c' # sp)"
proof (cases "c = Clear_flag")
  case True
  then have "l' = l \<lparr> lb_compaction_in_progress := False \<rparr>" "c' = Stopped" "sp = []" "visible B l = set d"
    using c by simp_all
  moreover have "w # replicate n Stopped @ [Stopped] = w # replicate (Suc n) Stopped @ []"
    by (simp add: replicate_append_same)
  ultimately show ?thesis
    unfolding one_writer_def using w(1) l(1) ids
    by (intro exI [of _ w] exI [of _ "Suc n"] exI [of _ "[]"] exI [of _ d] exI [of _ left]) (simp add: visible_eq)
next
  case False
  have "compaction_ok B l' (set d) c' \<and> sp = [] \<and> lb_compaction_in_progress l' \<and> length (lb_deltas l') = 1"
    using c l False
    by (cases "(B, l, c)" rule: lsm_task_step.cases) (auto simp: visible_eq merge_deltas_def set_or_all set_new)
  then show ?thesis
    unfolding one_writer_def using w ids
    by (intro exI [of _ w] exI [of _ n] exI [of _ "[c']"] exI [of _ d] exI [of _ left]) simp
qed

lemma one_writer_exec:
  assumes "one_writer B ids l ts"
  shows "one_writer B ids (fst (lsm_exec B i (l, ts))) (snd (lsm_exec B i (l, ts)))"
proof -
  obtain w n cs d left where ts: "ts = w # replicate n Stopped @ cs" and w: "writer_left w = Some left" "ids = d @ left"
    and l: "length (lb_deltas l) = 1"
    and st: "cs = [] \<and> \<not> lb_compaction_in_progress l \<and> visible B l = set d \<or>
       (\<exists>c. cs = [c] \<and> lb_compaction_in_progress l \<and> (\<forall>x. w \<noteq> Trigger x) \<and> compaction_ok B l (set d) c)"
    using assms unfolding one_writer_def by blast
  obtain l' t' sp where step: "lsm_task_step B l (ts ! i) = (l', t', sp)" by (metis surj_pair)
  consider "length ts \<le> i" | "i = 0" | "0 < i" "i \<le> n" | c where "cs = [c]" "i = Suc n"
    using st ts by (cases "i \<le> n") force+
  then show ?thesis
  proof cases
    case 1
    then show ?thesis using assms by (simp add: lsm_exec_def)
  next
    case 2
    then have "lsm_exec B i (l, ts) = (l', t' # replicate n Stopped @ cs @ sp)"
      using step by (simp add: lsm_exec_def ts)
    then show ?thesis using writer_step [OF w(1) _ l w(2) st] step 2 by (simp add: ts)
  next
    case 3
    then have "ts ! i = Stopped" by (cases i) (simp_all add: ts nth_append)
    then have "lsm_exec B i (l, ts) = (l, ts)"
      by (simp add: lsm_exec_def) (metis list_update_id)
    then show ?thesis using assms by simp
  next
    case 4
    then have "ts ! i = c" and run: "lsm_exec B i (l, ts) = (l', w # replicate n Stopped @ t' # sp)"
      using step by (simp_all add: lsm_exec_def ts nth_append list_update_append)
    then have c: "lsm_task_step B l c = (l', t', sp)" using step by simp
    have "compaction_ok B l (set d) c" "\<forall>x. w \<noteq> Trigger x" "lb_compaction_in_progress l" using st 4 by auto
    from compaction_step [OF this(1) c w(1) this(2) l this(3) w(2)] show ?thesis by (simp add: run)
  qed
qed

lemma one_writer_run:
  assumes "one_writer B ids l ts"
  shows "one_writer B ids (fst (fold (lsm_exec B) sch (l, ts))) (snd (fold (lsm_exec B) sch (l, ts)))"
  using assms
proof (induction sch arbitrary: l ts)
  case (Cons i sch)
  then show ?case using one_writer_exec [OF Cons.prems, of i] by (cases "lsm_exec B i (l, ts)") simp
qed simp

lemma one_writer_new: "one_writer B ids (lsm_with_config B m k) [Insert_next ids]"
  unfolding one_writer_def
  by (intro exI [of _ "Insert_next ids"] exI [of _ 0] exI [of _ "[]"] exI [of _ ids])
    (simp add: lsm_with_config_def visible_eq set_new)

lemma one_writer_visible:
  assumes "one_writer B ids l ts"
  shows "\<exists>d left. ids = d @ left \<and> writer_left (ts ! 0) = Some left \<and> visible B l \<subseteq> set d \<and>
    ((\<forall>b nb. Write_base b nb \<notin> set ts) \<longrightarrow> visible B l = set d)"
proof -
  have "visible B l \<subseteq> D \<and> ((\<forall>b nb. c \<noteq> Write_base b nb) \<longrightarrow> visible B l = D)" if "compaction_ok B l D c" for c D
    using that by (cases c) (auto simp: visible_eq)
  then show ?thesis using assms unfolding one_writer_def by fastforce
qed

end


section \<open>Termination\<close>

fun task_work :: "'b lsm_task \<Rightarrow> nat" where
  "task_work (Insert_next ids) = 10 * length ids + 1"
| "task_work (Check_size ids) = 10 * length ids + 9"
| "task_work (Check_flag w ids) = 10 * length ids + 8"
| "task_work (Trigger ids) = 10 * length ids + 7"
| "task_work (Read_base _) = 5"
| "task_work (Merge _ _) = 4"
| "task_work (Write_base _ _) = 3"
| "task_work (Reset_counter _) = 2"
| "task_work Clear_flag = 1"
| "task_work Stopped = 0"

definition total_work :: "'b lsm_task list \<Rightarrow> nat" where
  "total_work ts = sum_list (map task_work ts)"

lemma task_step_work:
  assumes "lsm_task_step B l t = (l', t', sp)" "t \<noteq> Stopped"
  shows "task_work t' + total_work sp < task_work t"
  using assms
  by (cases "(B, l, t)" rule: lsm_task_step.cases)
    (auto simp: total_work_def split: option.splits if_splits prod.splits)

lemma exec_work:
  assumes "i < length ts" "ts ! i \<noteq> Stopped"
  shows "total_work (snd (lsm_exec B i (l, ts))) < total_work ts"
proof -
  obtain l' t' sp where step: "lsm_task_step B l (ts ! i) = (l', t', sp)" by (metis surj_pair)
  have "sum_list (map task_work (ts[i := t'])) + task_work (ts ! i) = total_work ts + task_work t'"
    using assms(1) member_le_sum_list [of "task_work (ts ! i)" "map task_work ts"]
    by (simp add: total_work_def map_update sum_list_update)
  then show ?thesis
    using task_step_work [OF step assms(2)] assms(1) step by (simp add: lsm_exec_def total_work_def)
qed

text \<open>Every scheduled task is there and has not stopped.\<close>

primrec effective :: "'b bitmap32_ops \<Rightarrow> nat list \<Rightarrow> 'b lsm_bitmap \<times> 'b lsm_task list \<Rightarrow> bool" where
  "effective B [] s = True"
| "effective B (i # sch) s = (i < length (snd s) \<and> snd s ! i \<noteq> Stopped \<and> effective B sch (lsm_exec B i s))"

lemma effective_work: "effective B sch s \<Longrightarrow> length sch + total_work (snd (fold (lsm_exec B) sch s)) \<le> total_work (snd s)"
proof (induction sch arbitrary: s)
  case (Cons i sch)
  then have "total_work (snd (lsm_exec B i s)) < total_work (snd s)"
      "length sch + total_work (snd (fold (lsm_exec B) sch (lsm_exec B i s))) \<le> total_work (snd (lsm_exec B i s))"
    using exec_work [of i "snd s" B "fst s"] by simp_all
  then show ?case by simp
qed simp


section \<open>Sequential facts\<close>

context roaring32
begin

lemma compact_visible: "visible B (lsm_compact B l) = visible B l"
  by (simp add: visible_eq lsm_compact_def merge_deltas_def set_or_all set_new)

lemma contains_visible: "lsm_contains B l i \<longleftrightarrow> i \<in> visible B l"
  by (auto simp: lsm_contains_def visible_eq rb_set_def)

lemma remove_keeps_delta:
  "lsm_contains B (lsm_remove B i l) i \<longleftrightarrow> (\<exists>d\<in>set (lb_deltas l). rb_contains B d i)"
  using set_remove [of i "lb_base l"] by (auto simp: lsm_contains_def lsm_remove_def rb_set_def)

end


section \<open>Properties\<close>

text \<open>C13: with a single writer, under every interleaving with the compactions it triggers, no id is
  ever lost: what a query sees is exactly the ids inserted so far whenever no compaction
  stands between merging the deltas and writing the base, and never more than those; once
  all tasks have stopped it is the set of all ids, and that is so after at most ten steps per
  id and one.\<close>

theorem lsm_single_writer:
  assumes "roaring32 B" "fold (lsm_exec B) schedule (lsm_with_config B max_deltas max_size, [Insert_next ids]) = (l, ts)"
  shows "(\<exists>d left. ids = d @ left \<and> writer_left (ts ! 0) = Some left \<and> visible B l \<subseteq> set d \<and>
      ((\<forall>b nb. Write_base b nb \<notin> set ts) \<longrightarrow> visible B l = set d)) \<and>
    (set ts \<subseteq> {Stopped} \<longrightarrow> visible B l = set ids) \<and>
    (effective B schedule (lsm_with_config B max_deltas max_size, [Insert_next ids]) \<longrightarrow> length schedule \<le> 10 * length ids + 1)"
proof -
  have inv: "one_writer B ids l ts"
    using roaring32.one_writer_run [OF assms(1) roaring32.one_writer_new [OF assms(1), of ids max_deltas max_size], of schedule]
    unfolding assms(2) by simp
  obtain d left where d: "ids = d @ left" "writer_left (ts ! 0) = Some left" "visible B l \<subseteq> set d"
      "(\<forall>b nb. Write_base b nb \<notin> set ts) \<longrightarrow> visible B l = set d"
    using roaring32.one_writer_visible [OF assms(1) inv] by blast
  have "visible B l = set ids" if s: "set ts \<subseteq> {Stopped}"
  proof -
    have "ts \<noteq> []" using inv by (auto simp: one_writer_def)
    then have "ts ! 0 = Stopped" using s nth_mem [of 0 ts] by blast
    then show ?thesis using d s by auto
  qed
  moreover have "length schedule \<le> 10 * length ids + 1"
    if "effective B schedule (lsm_with_config B max_deltas max_size, [Insert_next ids])"
    using effective_work [OF that] by (simp add: total_work_def)
  ultimately show ?thesis using d by blast
qed

theorem lsm_single_writer_witness:
  "effective list_bitmap32 [0, 0, 0, 0, 1, 1, 1, 1, 1, 0] (lsm_with_config list_bitmap32 1 1, [Insert_next [7]]) \<and>
   visible list_bitmap32 (fst (fold (lsm_exec list_bitmap32) [0, 0, 0, 0, 1, 1, 1, 1, 1, 0]
     (lsm_with_config list_bitmap32 1 1, [Insert_next [7]]))) = set [7]"
proof -
  let ?r = "fold (lsm_exec list_bitmap32) [0, 0, 0, 0, 1, 1, 1, 1, 1, 0] (lsm_with_config list_bitmap32 1 1, [Insert_next [7]])"
  have "snd ?r = [Stopped, Stopped]" by code_simp
  moreover have "effective list_bitmap32 [0, 0, 0, 0, 1, 1, 1, 1, 1, 0] (lsm_with_config list_bitmap32 1 1, [Insert_next [7]])"
    by code_simp
  ultimately show ?thesis
    using lsm_single_writer [OF lb.roaring32_axioms, of "[0, 0, 0, 0, 1, 1, 1, 1, 1, 0]" 1 1 "[7]" "fst ?r" "snd ?r"]
    by (metis insert_iff list.set(1,2) prod.collapse subsetI)
qed

text \<open>With two writers ids can be lost for good: there is a schedule after which every insert and
  every compaction has finished and neither of the two inserted ids is in the bitmap.\<close>

theorem lsm_two_writers_lose_ids:
  "\<exists>schedule l ts. fold (lsm_exec list_bitmap32) schedule
      (lsm_with_config list_bitmap32 1 1, [Insert_next [7], Insert_next [8]]) = (l, ts) \<and>
    ts = [Stopped, Stopped, Stopped, Stopped] \<and> \<not> lsm_contains list_bitmap32 l 7 \<and> \<not> lsm_contains list_bitmap32 l 8"
proof -
  let ?sched = "[0, 1, 0, 1, 0, 1, 0, 1, 2, 3, 2, 3, 2, 3, 2, 3, 2, 3, 0, 1]"
  let ?r = "fold (lsm_exec list_bitmap32) ?sched (lsm_with_config list_bitmap32 1 1, [Insert_next [7], Insert_next [8]])"
  have "snd ?r = [Stopped, Stopped, Stopped, Stopped] \<and> \<not> lsm_contains list_bitmap32 (fst ?r) 7 \<and>
      \<not> lsm_contains list_bitmap32 (fst ?r) 8"
    by code_simp
  moreover have "?r = (fst ?r, snd ?r)" by (rule prod.collapse [symmetric])
  ultimately show ?thesis by blast
qed

end
