(* ===== verification/Rpc_Types.thy ===== *)
theory Rpc_Types
  imports Slots Index_Manager
begin

text \<open>
  Types of the RPC interface (\<open>hyperplane-types/src/rpc.rs\<close>) and the conversion of an account
  view to its RPC form.

  \<open>json\<close> is the \<open>Value\<close> of the \<open>serde_json\<close> crate; numbers are integers, the only ones
  the code writes.  The base64 and base58 encoders and the text form of a pubkey come from
  crates and are arguments.
\<close>

section \<open>JSON values\<close>

datatype json =
    JNull
  | JBool bool
  | JNumber int
  | JString string
  | JArray "json list"
  | JObject "(string \<times> json) list"

fun as_array :: "json \<Rightarrow> json list option" where
  "as_array (JArray xs) = Some xs"
| "as_array _ = None"

fun as_str :: "json \<Rightarrow> string option" where
  "as_str (JString s) = Some s"
| "as_str _ = None"

fun as_object :: "json \<Rightarrow> (string \<times> json) list option" where
  "as_object (JObject kvs) = Some kvs"
| "as_object _ = None"

fun as_bool :: "json \<Rightarrow> bool option" where
  "as_bool (JBool b) = Some b"
| "as_bool _ = None"

lemma as_str_eq [simp]: "as_str v = Some s \<longleftrightarrow> v = JString s"
  by (cases v) auto

lemma as_array_eq [simp]: "as_array v = Some xs \<longleftrightarrow> v = JArray xs"
  by (cases v) auto

definition json_opt :: "json option \<Rightarrow> json" where
  "json_opt v = (case v of None \<Rightarrow> JNull | Some x \<Rightarrow> x)"


section \<open>Requests\<close>

datatype account_encoding = Base58 | Base64 | Base64Zstd | Binary | JsonParsed

text \<open>\<open>encoding as u8\<close> and \<open>commitment as u8\<close>: the position of the constructor.\<close>

fun encoding_byte :: "account_encoding \<Rightarrow> byte" where
  "encoding_byte Base58 = 0"
| "encoding_byte Base64 = 1"
| "encoding_byte Base64Zstd = 2"
| "encoding_byte Binary = 3"
| "encoding_byte JsonParsed = 4"

definition account_encoding_default :: account_encoding where
  "account_encoding_default = Base64"

datatype sort_order = Sort_Pubkey | Sort_Lamports | Sort_DataSize | Sort_Slot

record rpc_context =
  rx_commitment :: commitment_level
  rx_encoding :: account_encoding
  rx_with_context :: bool
  rx_limit :: "nat option"
  rx_cursor :: "string option"
  rx_sort :: sort_order

definition rpc_context_default :: rpc_context where
  "rpc_context_default =
     \<lparr> rx_commitment = Processed, rx_encoding = Base64, rx_with_context = True, rx_limit = Some 1000,
       rx_cursor = None, rx_sort = Sort_Pubkey \<rparr>"

record rpc_memcmp_filter =
  rm_offset :: u64
  rm_bytes :: "byte list"
  rm_encoding :: "string option"

record 'pk account_filter =
  af_data_size :: "u64 option"
  af_memcmp :: "rpc_memcmp_filter option"
  af_mint :: "'pk option"
  af_token_owner :: "'pk option"

record 'pk get_program_accounts_request =
  gr_program_id :: 'pk
  gr_filters :: "'pk account_filter list"
  gr_cursor :: "string option"
  gr_limit :: nat
  gr_encoding :: account_encoding
  gr_commitment :: commitment_level
  gr_sort :: sort_order
  gr_with_context :: bool

definition get_program_accounts_request_default :: "'pk \<Rightarrow> 'pk get_program_accounts_request" where
  "get_program_accounts_request_default default_pubkey =
     \<lparr> gr_program_id = default_pubkey, gr_filters = [], gr_cursor = None, gr_limit = 1000, gr_encoding = Base64,
       gr_commitment = Processed, gr_sort = Sort_Pubkey, gr_with_context = True \<rparr>"


section \<open>Responses\<close>

record rpc_account_data =
  rd_encoding :: account_encoding
  rd_data :: string
  rd_data_size :: nat

record rpc_account_info =
  ri_pubkey :: string
  ri_lamports :: u64
  ri_data :: rpc_account_data
  ri_owner :: string
  ri_executable :: bool
  ri_rent_epoch :: u64
  ri_slot :: u64

record rpc_response_context =
  rc_slot :: u64
  rc_api_version :: string

definition rpc_response_context_new :: "u64 \<Rightarrow> rpc_response_context" where
  "rpc_response_context_new slot = \<lparr> rc_slot = slot, rc_api_version = ''synapse-hyperplane/0.1.0'' \<rparr>"

record text_codecs =
  tc_base64 :: "byte list \<Rightarrow> string"
  tc_base58 :: "byte list \<Rightarrow> string"

definition account_view_to_rpc ::
  "text_codecs \<Rightarrow> ('pk \<Rightarrow> string) \<Rightarrow> 'pk account_view \<Rightarrow> account_encoding \<Rightarrow> rpc_account_info" where
  "account_view_to_rpc T to_string view encoding =
     (let (data_str, data_size) =
        (case encoding of
           Base64 \<Rightarrow> (tc_base64 T (av_data view), length (av_data view))
         | Base58 \<Rightarrow> (tc_base58 T (av_data view), length (av_data view))
         | _ \<Rightarrow> (tc_base64 T (av_data view), length (av_data view)))
      in \<lparr> ri_pubkey = to_string (av_pubkey view), ri_lamports = av_lamports view,
           ri_data = \<lparr> rd_encoding = encoding, rd_data = data_str, rd_data_size = data_size \<rparr>,
           ri_owner = to_string (av_owner view), ri_executable = av_executable view,
           ri_rent_epoch = av_rent_epoch view, ri_slot = av_slot view \<rparr>)"

text \<open>Every encoding but \<open>Base58\<close> carries base64, whatever it declares.\<close>

lemma account_view_to_rpc_roundtrip:
  assumes "\<And>xs. decode64 (tc_base64 T xs) = Some xs"
  shows "encoding \<noteq> Base58 \<Longrightarrow>
    decode64 (rd_data (ri_data (account_view_to_rpc T to_string view encoding))) = Some (av_data view)"
  using assms by (cases encoding) (simp_all add: account_view_to_rpc_def)

end
