(* ===== verification/Cache_Plane.thy ===== *)
theory Cache_Plane
  imports Rpc_Types
begin

text \<open>
  The cache plane (\<open>cache-plane/src\<close>: \<open>l1.rs\<close>, \<open>encoded_cache.rs\<close>, \<open>invalidation.rs\<close>).

  The clock is an argument in milliseconds: one value for each call that reads it.  The
  access counter of an entry is shared by its clones; the model keeps it in the stored entry.
  Calls are modelled one at a time.  SHA-256, the bytes of a pubkey and the pubkey of a hash
  come from crates and are arguments.
\<close>

section \<open>What a cache may forget\<close>

text \<open>
  A cache keeps what was put last under a key or loses it; it never makes anything up.
\<close>

locale lossy_cache =
  fixes content :: "'c \<Rightarrow> 'k \<Rightarrow> 'v option"
    and put :: "'k \<Rightarrow> 'v \<Rightarrow> 'c \<Rightarrow> 'c"
    and invar :: "'c \<Rightarrow> bool"
  assumes content_put: "invar c \<Longrightarrow> content (put k v c) k = Some v"
    and content_put_other: "invar c \<Longrightarrow> k' \<noteq> k \<Longrightarrow> content (put k v c) k' = Some v' \<Longrightarrow> content c k' = Some v'"
    and invar_put: "invar c \<Longrightarrow> invar (put k v c)"
begin

lemma put_within:
  assumes "invar c" "content c \<subseteq>\<^sub>m m"
  shows "content (put k v c) \<subseteq>\<^sub>m m(k \<mapsto> v)"
  unfolding map_le_def
proof (intro ballI)
  fix x assume "x \<in> dom (content (put k v c))"
  then obtain w where "content (put k v c) x = Some w" by blast
  then show "content (put k v c) x = (m(k \<mapsto> v)) x"
    using assms(2) content_put [OF assms(1), of k v] content_put_other [OF assms(1), of x k v w]
    by (cases "x = k") (auto simp: map_le_def dom_def)
qed

end


section \<open>The hot account cache\<close>

record l1_cache_entry =
  ce_data :: "byte list"
  ce_encoding :: account_encoding
  ce_cached_slot :: u64
  ce_cached_write_version :: u64
  ce_cached_at :: nat
  ce_access_count :: u64

definition l1_entry_new :: "nat \<Rightarrow> byte list \<Rightarrow> account_encoding \<Rightarrow> u64 \<Rightarrow> u64 \<Rightarrow> l1_cache_entry" where
  "l1_entry_new now data encoding slot write_version =
     \<lparr> ce_data = data, ce_encoding = encoding, ce_cached_slot = slot, ce_cached_write_version = write_version,
       ce_cached_at = now, ce_access_count = 1 \<rparr>"

definition l1_is_stale :: "l1_cache_entry \<Rightarrow> u64 \<Rightarrow> u64 \<Rightarrow> bool" where
  "l1_is_stale e current_slot current_write_version \<longleftrightarrow>
     current_slot > ce_cached_slot e \<or>
     current_slot = ce_cached_slot e \<and> current_write_version > ce_cached_write_version e"

definition l1_touch :: "l1_cache_entry \<Rightarrow> l1_cache_entry" where
  "l1_touch e = e \<lparr> ce_access_count := ce_access_count e + 1 \<rparr>"

definition age_ms :: "nat \<Rightarrow> l1_cache_entry \<Rightarrow> nat" where
  "age_ms now e = now - ce_cached_at e"

record 'pk cache_key =
  ck_pubkey :: 'pk
  ck_encoding :: account_encoding
  ck_commitment :: commitment_level

definition cache_key_new :: "'pk \<Rightarrow> account_encoding \<Rightarrow> commitment_level \<Rightarrow> 'pk cache_key" where
  "cache_key_new pubkey encoding commitment =
     \<lparr> ck_pubkey = pubkey, ck_encoding = encoding, ck_commitment = commitment \<rparr>"

definition cache_key_from_account :: "'pk account_view \<Rightarrow> account_encoding \<Rightarrow> commitment_level \<Rightarrow> 'pk cache_key" where
  "cache_key_from_account account encoding commitment = cache_key_new (av_pubkey account) encoding commitment"

record l1_cache_config =
  lc_max_entries :: nat
  lc_processed_ttl_ms :: u64
  lc_confirmed_ttl_ms :: u64
  lc_finalized_ttl_ms :: u64
  lc_eviction_batch_size :: nat

definition l1_cache_config_default :: l1_cache_config where
  "l1_cache_config_default =
     \<lparr> lc_max_entries = 1000000, lc_processed_ttl_ms = 60000, lc_confirmed_ttl_ms = 300000,
       lc_finalized_ttl_ms = 3600000, lc_eviction_batch_size = 1000 \<rparr>"

record l1_cache_stats =
  cs_hits :: u64
  cs_misses :: u64
  cs_inserts :: u64
  cs_evictions :: u64
  cs_invalidations :: u64

definition l1_hit_rate :: "(rat \<Rightarrow> rat) \<Rightarrow> l1_cache_stats \<Rightarrow> rat" where
  "l1_hit_rate rnd s =
     (let sum = cs_hits s + cs_misses s
      in if sum = 0 then 0 else rnd (rnd (of_nat (unat (cs_hits s))) / rnd (of_nat (unat sum))))"

record 'pk l1_hot_cache =
  hc_cache :: "('pk cache_key, l1_cache_entry) hmap"
  hc_config :: l1_cache_config
  hc_stats :: l1_cache_stats
  hc_access_tracker :: "('pk cache_key, u64) hmap"

definition l1_new :: "l1_cache_config \<Rightarrow> 'pk l1_hot_cache" where
  "l1_new config =
     \<lparr> hc_cache = [], hc_config = config,
       hc_stats = \<lparr> cs_hits = 0, cs_misses = 0, cs_inserts = 0, cs_evictions = 0, cs_invalidations = 0 \<rparr>,
       hc_access_tracker = [] \<rparr>"

definition l1_get :: "'pk cache_key \<Rightarrow> 'pk l1_hot_cache \<Rightarrow> l1_cache_entry option \<times> 'pk l1_hot_cache" where
  "l1_get key c =
     (case hm_get (hc_cache c) key of
        Some e \<Rightarrow>
          (Some (l1_touch e),
           c \<lparr> hc_cache := hm_insert key (l1_touch e) (hc_cache c),
               hc_stats := (hc_stats c) \<lparr> cs_hits := cs_hits (hc_stats c) + 1 \<rparr> \<rparr>)
      | None \<Rightarrow> (None, c \<lparr> hc_stats := (hc_stats c) \<lparr> cs_misses := cs_misses (hc_stats c) + 1 \<rparr> \<rparr>))"

definition commitment_ttl :: "l1_cache_config \<Rightarrow> commitment_level \<Rightarrow> u64" where
  "commitment_ttl config commitment =
     (case commitment of
        Processed \<Rightarrow> lc_processed_ttl_ms config
      | Confirmed \<Rightarrow> lc_confirmed_ttl_ms config
      | Finalized \<Rightarrow> lc_finalized_ttl_ms config)"

definition outlived :: "l1_cache_config \<Rightarrow> nat \<Rightarrow> 'pk cache_key \<Rightarrow> l1_cache_entry \<Rightarrow> bool" where
  "outlived config now key e \<longleftrightarrow> age_ms now e > unat (commitment_ttl config (ck_commitment key))"

definition evict_stale_entries :: "nat \<Rightarrow> 'pk l1_hot_cache \<Rightarrow> 'pk l1_hot_cache" where
  "evict_stale_entries now c =
     c \<lparr> hc_cache := filter (\<lambda>(key, e). \<not> outlived (hc_config c) now key e) (hc_cache c) \<rparr>"

definition l1_insert :: "nat \<Rightarrow> 'pk cache_key \<Rightarrow> l1_cache_entry \<Rightarrow> 'pk l1_hot_cache \<Rightarrow> 'pk l1_hot_cache" where
  "l1_insert now key e c0 =
     (let c1 = (if length (hc_cache c0) \<ge> lc_max_entries (hc_config c0) then evict_stale_entries now c0 else c0)
      in c1 \<lparr> hc_access_tracker := hm_insert key 1 (hc_access_tracker c1),
              hc_cache := hm_insert key e (hc_cache c1),
              hc_stats := (hc_stats c1) \<lparr> cs_inserts := cs_inserts (hc_stats c1) + 1 \<rparr> \<rparr>)"

definition remove_matching :: "('pk \<Rightarrow> bool) \<Rightarrow> 'pk l1_hot_cache \<Rightarrow> 'pk l1_hot_cache" where
  "remove_matching P c =
     (let keys_to_remove = filter (P \<circ> ck_pubkey) (map fst (hc_cache c))
      in c \<lparr> hc_cache := fold hm_remove keys_to_remove (hc_cache c),
             hc_stats := (hc_stats c) \<lparr> cs_invalidations := cs_invalidations (hc_stats c) + of_nat (length keys_to_remove) \<rparr> \<rparr>)"

definition l1_invalidate :: "'pk \<Rightarrow> 'pk l1_hot_cache \<Rightarrow> 'pk l1_hot_cache" where
  "l1_invalidate pubkey = remove_matching (\<lambda>p. p = pubkey)"

definition l1_invalidate_batch :: "'pk list \<Rightarrow> 'pk l1_hot_cache \<Rightarrow> 'pk l1_hot_cache" where
  "l1_invalidate_batch pubkeys = remove_matching (\<lambda>p. p \<in> set pubkeys)"

definition l1_clear :: "'pk l1_hot_cache \<Rightarrow> 'pk l1_hot_cache" where
  "l1_clear c = c \<lparr> hc_cache := [], hc_access_tracker := [] \<rparr>"

definition l1_len :: "'pk l1_hot_cache \<Rightarrow> nat" where
  "l1_len c = length (hc_cache c)"

definition l1_is_empty :: "'pk l1_hot_cache \<Rightarrow> bool" where
  "l1_is_empty c \<longleftrightarrow> hc_cache c = []"


section \<open>The encoded response cache\<close>

record response_cache_config =
  rp_max_entries :: nat
  rp_ttl_ms :: u64

definition response_cache_config_default :: response_cache_config where
  "response_cache_config_default = \<lparr> rp_max_entries = 500000, rp_ttl_ms = 60000 \<rparr>"

record 'pk encoded_response_cache =
  er_cache :: "'pk l1_hot_cache"
  er_config :: response_cache_config

definition encoded_l1_config :: "response_cache_config \<Rightarrow> l1_cache_config" where
  "encoded_l1_config config =
     \<lparr> lc_max_entries = rp_max_entries config, lc_processed_ttl_ms = rp_ttl_ms config,
       lc_confirmed_ttl_ms = rp_ttl_ms config * 5, lc_finalized_ttl_ms = rp_ttl_ms config * 60,
       lc_eviction_batch_size = 500 \<rparr>"

definition encoded_cache_new :: "response_cache_config \<Rightarrow> 'pk encoded_response_cache" where
  "encoded_cache_new config = \<lparr> er_cache = l1_new (encoded_l1_config config), er_config = config \<rparr>"

definition get_account_info_key :: "'pk \<Rightarrow> account_encoding \<Rightarrow> commitment_level \<Rightarrow> 'pk cache_key" where
  "get_account_info_key pubkey encoding commitment = cache_key_new pubkey encoding commitment"

text \<open>The bytes given to the hasher for a query, and its key.\<close>

definition commitment_byte :: "commitment_level \<Rightarrow> byte" where
  "commitment_byte commitment = of_nat (commitment_rank commitment)"

definition program_accounts_feed ::
  "('pk \<Rightarrow> byte list) \<Rightarrow> 'pk \<Rightarrow> byte list \<Rightarrow> account_encoding \<Rightarrow> commitment_level \<Rightarrow> u64 \<Rightarrow> byte list option \<Rightarrow> byte list" where
  "program_accounts_feed to_bytes program_id filters_hash encoding commitment limit cursor =
     to_bytes program_id @ filters_hash @ [encoding_byte encoding] @ [commitment_byte commitment] @ le_bytes 8 limit @
     (case cursor of None \<Rightarrow> [] | Some c \<Rightarrow> c)"

definition get_program_accounts_key ::
  "(byte list \<Rightarrow> byte list) \<Rightarrow> ('pk \<Rightarrow> byte list) \<Rightarrow> (byte list \<Rightarrow> 'pk option) \<Rightarrow> 'pk \<Rightarrow>
   'pk \<Rightarrow> byte list \<Rightarrow> account_encoding \<Rightarrow> commitment_level \<Rightarrow> u64 \<Rightarrow> byte list option \<Rightarrow> 'pk cache_key" where
  "get_program_accounts_key sha256 to_bytes try_from default_pubkey program_id filters_hash encoding commitment limit cursor =
     (let hash = sha256 (program_accounts_feed to_bytes program_id filters_hash encoding commitment limit cursor);
          pseudo_pubkey = (case try_from (take 32 hash) of Some p \<Rightarrow> p | None \<Rightarrow> default_pubkey)
      in cache_key_new pseudo_pubkey encoding commitment)"

definition cache_account_info ::
  "nat \<Rightarrow> 'pk \<Rightarrow> 'pk account_view \<Rightarrow> account_encoding \<Rightarrow> commitment_level \<Rightarrow> byte list \<Rightarrow>
   'pk encoded_response_cache \<Rightarrow> 'pk encoded_response_cache" where
  "cache_account_info now pubkey account encoding commitment response_json c =
     (let key = get_account_info_key pubkey encoding commitment;
          entry = l1_entry_new now response_json encoding (av_slot account) (av_write_version account)
      in c \<lparr> er_cache := l1_insert now key entry (er_cache c) \<rparr>)"

definition get_account_info ::
  "'pk \<Rightarrow> account_encoding \<Rightarrow> commitment_level \<Rightarrow> 'pk encoded_response_cache \<Rightarrow>
   byte list option \<times> 'pk encoded_response_cache" where
  "get_account_info pubkey encoding commitment c =
     (let (entry, l1) = l1_get (get_account_info_key pubkey encoding commitment) (er_cache c)
      in (map_option ce_data entry, c \<lparr> er_cache := l1 \<rparr>))"

definition encoded_invalidate :: "'pk \<Rightarrow> 'pk encoded_response_cache \<Rightarrow> 'pk encoded_response_cache" where
  "encoded_invalidate pubkey c = c \<lparr> er_cache := l1_invalidate pubkey (er_cache c) \<rparr>"

definition encoded_invalidate_batch :: "'pk list \<Rightarrow> 'pk encoded_response_cache \<Rightarrow> 'pk encoded_response_cache" where
  "encoded_invalidate_batch pubkeys c = c \<lparr> er_cache := l1_invalidate_batch pubkeys (er_cache c) \<rparr>"

definition encoding_json :: "account_encoding \<Rightarrow> json" where
  "encoding_json e =
     JString (case e of Base58 \<Rightarrow> ''Base58'' | Base64 \<Rightarrow> ''Base64'' | Base64Zstd \<Rightarrow> ''Base64Zstd''
       | Binary \<Rightarrow> ''Binary'' | JsonParsed \<Rightarrow> ''JsonParsed'')"

text \<open>The derived serialisation of \<open>RpcAccountInfo\<close>.\<close>

definition account_info_json :: "rpc_account_info \<Rightarrow> json" where
  "account_info_json i =
     JObject [(''pubkey'', JString (ri_pubkey i)), (''lamports'', JNumber (uint (ri_lamports i))),
       (''data'', JObject [(''encoding'', encoding_json (rd_encoding (ri_data i))), (''data'', JString (rd_data (ri_data i))),
          (''data_size'', JNumber (int (rd_data_size (ri_data i))))]),
       (''owner'', JString (ri_owner i)), (''executable'', JBool (ri_executable i)),
       (''rent_epoch'', JNumber (uint (ri_rent_epoch i))), (''slot'', JNumber (uint (ri_slot i)))]"

definition encode_account_info ::
  "text_codecs \<Rightarrow> (json \<Rightarrow> byte list option) \<Rightarrow> ('pk \<Rightarrow> string) \<Rightarrow> 'pk account_view \<Rightarrow> account_encoding \<Rightarrow> u64 \<Rightarrow> byte list" where
  "encode_account_info T to_vec to_string account encoding slot =
     (case to_vec
        (JObject [(''jsonrpc'', JString ''2.0''),
          (''result'', JObject
             [(''context'', JObject [(''slot'', JNumber (uint slot)), (''apiVersion'', JString ''synapse-hyperplane/0.1.0'')]),
              (''value'', account_info_json (account_view_to_rpc T to_string account encoding))]),
          (''id'', JNumber 1)]) of
        Some bytes \<Rightarrow> bytes
      | None \<Rightarrow> [])"

definition str_bytes :: "string \<Rightarrow> byte list" where
  "str_bytes s = map of_char s"

definition filter_feed :: "('pk \<Rightarrow> byte list) \<Rightarrow> 'pk account_filter \<Rightarrow> byte list" where
  "filter_feed to_bytes f =
     (case af_data_size f of None \<Rightarrow> [] | Some n \<Rightarrow> str_bytes ''data_size'' @ le_bytes 8 n) @
     (case af_memcmp f of None \<Rightarrow> [] | Some m \<Rightarrow> str_bytes ''memcmp'' @ le_bytes 8 (rm_offset m) @ rm_bytes m) @
     (case af_mint f of None \<Rightarrow> [] | Some p \<Rightarrow> str_bytes ''mint'' @ to_bytes p) @
     (case af_token_owner f of None \<Rightarrow> [] | Some p \<Rightarrow> str_bytes ''token_owner'' @ to_bytes p)"

definition compute_filters_hash ::
  "(byte list \<Rightarrow> byte list) \<Rightarrow> ('pk \<Rightarrow> byte list) \<Rightarrow> 'pk account_filter list \<Rightarrow> byte list" where
  "compute_filters_hash sha256 to_bytes filters = sha256 (concat (map (filter_feed to_bytes) filters))"


section \<open>What the cache holds\<close>

definition l1_stored :: "'pk l1_hot_cache \<Rightarrow> 'pk cache_key \<Rightarrow> (nat \<times> byte list) option" where
  "l1_stored c key = map_option (\<lambda>e. (ce_cached_at e, ce_data e)) (hm_get (hc_cache c) key)"

definition l1_ok :: "l1_cache_config \<Rightarrow> 'pk l1_hot_cache \<Rightarrow> bool" where
  "l1_ok config c \<longleftrightarrow> hm_invar (hc_cache c) \<and> hc_config c = config"

lemma hm_invar_remove_all: "hm_invar m \<Longrightarrow> hm_invar (fold hm_remove ks m)"
  by (induction ks arbitrary: m) (auto simp: hm.invar_del)

lemma evict_ok: "l1_ok config c \<Longrightarrow> l1_ok config (evict_stale_entries now c)"
  by (simp add: l1_ok_def evict_stale_entries_def hm_invar_filter)

lemma evict_stored:
  assumes "l1_ok config c"
  shows "l1_stored (evict_stale_entries now c) key =
    (case l1_stored c key of
       Some (t, d) \<Rightarrow> if now - t > unat (commitment_ttl config (ck_commitment key)) then None else Some (t, d)
     | None \<Rightarrow> None)"
  using assms
  by (auto simp: l1_ok_def l1_stored_def evict_stale_entries_def hm_get_filter outlived_def age_ms_def split: option.splits)

lemma insert_ok: "l1_ok config c \<Longrightarrow> l1_ok config (l1_insert now key e c)"
  using evict_ok [of config c now] by (auto simp: l1_insert_def l1_ok_def Let_def hm.invar_ins)

lemma insert_stored:
  assumes "l1_ok config c"
  shows "l1_stored (l1_insert now key e c) key' =
    (if key' = key then Some (ce_cached_at e, ce_data e)
     else if length (hc_cache c) \<ge> lc_max_entries config then l1_stored (evict_stale_entries now c) key'
     else l1_stored c key')"
  using assms evict_ok [OF assms, of now]
  by (auto simp: l1_insert_def l1_stored_def l1_ok_def Let_def hm.get_ins)

lemma remove_matching_ok: "l1_ok config c \<Longrightarrow> l1_ok config (remove_matching P c)"
  by (simp add: remove_matching_def l1_ok_def Let_def hm_invar_remove_all)

lemma remove_matching_stored:
  assumes "l1_ok config c"
  shows "l1_stored (remove_matching P c) key = (if P (ck_pubkey key) then None else l1_stored c key)"
proof -
  have "hm_get (hc_cache c) key = None" if "key \<notin> fst ` set (hc_cache c)"
    using that by (simp add: hm_get_None)
  then show ?thesis
    using assms by (auto simp: remove_matching_def l1_stored_def l1_ok_def Let_def hm.get_del_all)
qed

lemma get_ok: "l1_ok config c \<Longrightarrow> l1_ok config (snd (l1_get key c))"
  by (auto simp: l1_get_def l1_ok_def hm.invar_ins split: option.splits)

lemma get_stored: "l1_ok config c \<Longrightarrow> l1_stored (snd (l1_get key c)) key' = l1_stored c key'"
  by (auto simp: l1_get_def l1_stored_def l1_ok_def hm.get_ins l1_touch_def split: option.splits)

interpretation l1: lossy_cache l1_stored
  "\<lambda>key v. l1_insert now key (l1_entry_new (fst v) (snd v) encoding slot write_version)" "l1_ok config"
  for now encoding slot write_version config
  by unfold_locales
    (auto simp: insert_ok insert_stored evict_stored l1_entry_new_def split: if_splits option.splits)

text \<open>An entry within its time to live leaves no room: the capacity is not enforced.\<close>

lemma l1_exceeds_capacity:
  assumes "l1_ok config c" "\<forall>(key, e)\<in>set (hc_cache c). \<not> outlived config now key e" "hm_get (hc_cache c) key = None"
  shows "l1_len (l1_insert now key e c) = Suc (l1_len c)"
proof -
  have "evict_stale_entries now c = c"
    using assms(1,2) by (auto simp: evict_stale_entries_def l1_ok_def filter_id_conv case_prod_beta)
  then show ?thesis using assms(3) by (simp add: l1_len_def l1_insert_def Let_def length_hm_insert)
qed


section \<open>Histories of the response cache\<close>

datatype 'pk response_op =
    Cache_Info nat 'pk "'pk account_view" account_encoding commitment_level "byte list"
  | Read_Info 'pk account_encoding commitment_level
  | Drop_Info 'pk
  | Drop_Infos "'pk list"

primrec apply_response :: "'pk response_op \<Rightarrow> 'pk encoded_response_cache \<Rightarrow> 'pk encoded_response_cache" where
  "apply_response (Cache_Info now p a e k d) c = cache_account_info now p a e k d c"
| "apply_response (Read_Info p e k) c = snd (get_account_info p e k c)"
| "apply_response (Drop_Info p) c = encoded_invalidate p c"
| "apply_response (Drop_Infos ps) c = encoded_invalidate_batch ps c"

text \<open>The response cached last under a key and not invalidated since, with the time of the call.\<close>

primrec spec_response :: "'pk response_op \<Rightarrow> ('pk cache_key \<Rightarrow> (nat \<times> byte list) option) \<Rightarrow> 'pk cache_key \<Rightarrow> (nat \<times> byte list) option" where
  "spec_response (Cache_Info now p a e k d) m = m(cache_key_new p e k \<mapsto> (now, d))"
| "spec_response (Read_Info p e k) m = m"
| "spec_response (Drop_Info p) m = (\<lambda>key. if ck_pubkey key = p then None else m key)"
| "spec_response (Drop_Infos ps) m = (\<lambda>key. if ck_pubkey key \<in> set ps then None else m key)"

definition latest_response :: "'pk response_op list \<Rightarrow> 'pk cache_key \<Rightarrow> (nat \<times> byte list) option" where
  "latest_response ops = fold spec_response ops Map.empty"

fun caching_time :: "'pk response_op \<Rightarrow> nat option" where
  "caching_time (Cache_Info now p a e k d) = Some now"
| "caching_time _ = None"

definition caching_times :: "'pk response_op list \<Rightarrow> nat set" where
  "caching_times ops = {t. Some t \<in> caching_time ` set ops}"

definition response_ttl :: "response_cache_config \<Rightarrow> 'pk cache_key \<Rightarrow> nat" where
  "response_ttl config key = unat (commitment_ttl (encoded_l1_config config) (ck_commitment key))"

definition response_ok ::
  "response_cache_config \<Rightarrow> 'pk response_op list \<Rightarrow> 'pk encoded_response_cache \<Rightarrow> bool" where
  "response_ok config ops c \<longleftrightarrow>
     l1_ok (encoded_l1_config config) (er_cache c) \<and> l1_stored (er_cache c) \<subseteq>\<^sub>m latest_response ops \<and>
     (\<forall>key t d. latest_response ops key = Some (t, d) \<and> l1_stored (er_cache c) key = None \<longrightarrow>
        (\<exists>now\<in>caching_times ops. now - t > response_ttl config key))"

lemma latest_snoc: "latest_response (ops @ [x]) = spec_response x (latest_response ops)"
  by (simp add: latest_response_def)

lemma caching_times_snoc: "caching_times (ops @ [x]) = caching_times ops \<union> {t. caching_time x = Some t}"
  by (auto simp: caching_times_def)

lemma response_ok_new: "response_ok config [] (encoded_cache_new config)"
  by (simp add: response_ok_def encoded_cache_new_def l1_new_def l1_ok_def l1_stored_def
      latest_response_def hm.invar_empty hm.get_empty map_le_def)

lemma response_ok_cache:
  assumes "response_ok config ops c"
  shows "response_ok config (ops @ [Cache_Info now p a e k d]) (cache_account_info now p a e k d c)"
proof -
  let ?key = "cache_key_new p e k"
  let ?m = "latest_response ops" and ?l = "l1_insert now (cache_key_new p e k) (l1_entry_new now d e (av_slot a) (av_write_version a)) (er_cache c)"
  have ok: "l1_ok (encoded_l1_config config) (er_cache c)" and le: "l1_stored (er_cache c) \<subseteq>\<^sub>m ?m"
    using assms by (auto simp: response_ok_def)
  have "l1_stored ?l \<subseteq>\<^sub>m ?m(?key \<mapsto> (now, d))"
    using l1.put_within [OF ok le, of now ?key "(now, d)"] by simp
  moreover have "\<exists>now'\<in>caching_times (ops @ [Cache_Info now p a e k d]). now' - t > response_ttl config key"
    if new: "(?m(?key \<mapsto> (now, d))) key = Some (t, x)" "l1_stored ?l key = None" for key t x
  proof -
    have m: "key \<noteq> ?key" "?m key = Some (t, x)"
      using that by (auto simp: insert_stored [OF ok] split: if_splits)
    have "now - t > response_ttl config key" if st: "l1_stored (er_cache c) key \<noteq> None"
    proof -
      have "l1_stored (er_cache c) key = Some (t, x)" using le st m(2) by (auto simp: map_le_def dom_def)
      then show ?thesis
        using new(2) m(1) by (simp add: insert_stored [OF ok] evict_stored [OF ok] response_ttl_def split: if_splits)
    qed
    then consider "l1_stored (er_cache c) key = None" | "now - t > response_ttl config key" by blast
    then show ?thesis
    proof cases
      case 1
      then show ?thesis using assms m(2) by (auto simp: response_ok_def caching_times_snoc)
    next
      case 2
      then show ?thesis by (auto simp: caching_times_snoc)
    qed
  qed
  ultimately show ?thesis
    by (simp add: response_ok_def latest_snoc cache_account_info_def get_account_info_key_def Let_def insert_ok [OF ok])
qed

lemma response_ok_drop:
  assumes "response_ok config ops c" "caching_time x = None"
    and "er_cache (apply_response x c) = remove_matching P (er_cache c)"
    and "spec_response x (latest_response ops) = (\<lambda>key. if P (ck_pubkey key) then None else latest_response ops key)"
  shows "response_ok config (ops @ [x]) (apply_response x c)"
  using assms(1,2) remove_matching_ok [of "encoded_l1_config config" "er_cache c" P]
    remove_matching_stored [of "encoded_l1_config config" "er_cache c" P]
  unfolding response_ok_def latest_snoc assms(3,4)
  by (auto simp: caching_times_snoc map_le_def dom_def split: if_splits)

lemma response_ok_read:
  assumes "response_ok config ops c"
  shows "response_ok config (ops @ [Read_Info p e k]) (snd (get_account_info p e k c))"
proof -
  have "er_cache (snd (get_account_info p e k c)) = snd (l1_get (cache_key_new p e k) (er_cache c))"
    by (simp add: get_account_info_def get_account_info_key_def case_prod_beta Let_def)
  moreover have ok: "l1_ok (encoded_l1_config config) (er_cache c)" using assms by (simp add: response_ok_def)
  ultimately show ?thesis
    using assms get_ok [OF ok, of "cache_key_new p e k"] get_stored [OF ok, of "cache_key_new p e k"]
    by (auto simp: response_ok_def latest_snoc caching_times_snoc map_le_def dom_def)
qed

lemma response_ok_apply:
  assumes "response_ok config ops c"
  shows "response_ok config (ops @ [x]) (apply_response x c)"
proof (cases x)
  case (Cache_Info now p a e k d)
  then show ?thesis using response_ok_cache [OF assms] by simp
next
  case (Read_Info p e k)
  then show ?thesis using response_ok_read [OF assms] by simp
next
  case (Drop_Info p)
  then show ?thesis
    by (intro response_ok_drop [OF assms, where P = "\<lambda>q. q = p"]) (simp_all add: encoded_invalidate_def l1_invalidate_def)
next
  case (Drop_Infos ps)
  then show ?thesis
    by (intro response_ok_drop [OF assms, where P = "\<lambda>q. q \<in> set ps"])
      (simp_all add: encoded_invalidate_batch_def l1_invalidate_batch_def)
qed

lemma response_ok_run: "response_ok config ops (fold apply_response ops (encoded_cache_new config))"
  by (induction ops rule: rev_induct) (simp_all add: response_ok_new response_ok_apply)

lemma get_account_info_stored:
  "fst (get_account_info p e k c) = map_option snd (l1_stored (er_cache c) (cache_key_new p e k))"
  by (simp add: get_account_info_def get_account_info_key_def l1_get_def l1_stored_def l1_touch_def split: option.splits)


section \<open>Properties\<close>

text \<open>C18: After any history of caching, reading and invalidating calls, a read of the response
  cache returns the response cached last for its pubkey, encoding and commitment if that was
  not invalidated since, and nothing otherwise; the response is lost only if some caching
  call came when its time to live was over.\<close>

theorem response_cache_coherent:
  "case latest_response ops (cache_key_new p e k) of
     None \<Rightarrow> fst (get_account_info p e k (fold apply_response ops (encoded_cache_new config))) = None
   | Some (t, response) \<Rightarrow>
       fst (get_account_info p e k (fold apply_response ops (encoded_cache_new config))) = Some response \<or>
       fst (get_account_info p e k (fold apply_response ops (encoded_cache_new config))) = None \<and>
         (\<exists>now\<in>caching_times ops. now - t > response_ttl config (cache_key_new p e k))"
proof -
  let ?s = "l1_stored (er_cache (fold apply_response ops (encoded_cache_new config))) (cache_key_new p e k)"
  have "?s = None \<or> ?s = latest_response ops (cache_key_new p e k)"
    using response_ok_run [of config ops] unfolding response_ok_def map_le_def by (cases ?s) (auto dest!: bspec)
  then show ?thesis
    using response_ok_run [of config ops] unfolding response_ok_def get_account_info_stored
    by (auto split: option.splits)
qed

end
