(* ===== verification/Query_Cache.thy ===== *)
theory Query_Cache
  imports Cache_Plane
begin

text \<open>
  The query result cache (\<open>index-fabric/src/query_cache.rs\<close>): two bounded levels in memory
  and a third one on disk.

  Each call reads the clock, in seconds, once.  The eviction loops run over a hash map in the
  order \<open>iter\<close>, an argument.  The directory of the third level is part of its state; whether a
  file operation succeeds is an argument of the calls that use the disk.  The two levels in
  memory differ only in what they evict; both are lossy caches.
\<close>

section \<open>Entries\<close>

record cache_entry =
  qe_data :: "byte list"
  qe_created_at :: u64
  qe_slot :: u64
  qe_access_count :: u64
  qe_last_access :: u64
  qe_ttl_secs :: u64

definition cache_entry_new :: "u64 \<Rightarrow> byte list \<Rightarrow> u64 \<Rightarrow> u64 \<Rightarrow> cache_entry" where
  "cache_entry_new now data slot ttl_secs =
     \<lparr> qe_data = data, qe_created_at = now, qe_slot = slot, qe_access_count = 0, qe_last_access = now,
       qe_ttl_secs = ttl_secs \<rparr>"

definition is_expired :: "u64 \<Rightarrow> cache_entry \<Rightarrow> bool" where
  "is_expired now e \<longleftrightarrow> qe_ttl_secs e = 0 \<or> now > qe_created_at e + qe_ttl_secs e"

definition is_invalidated_by_slot :: "cache_entry \<Rightarrow> u64 \<Rightarrow> u64 \<Rightarrow> bool" where
  "is_invalidated_by_slot e current_slot slot_threshold \<longleftrightarrow> current_slot > qe_slot e + slot_threshold"

definition entry_access :: "u64 \<Rightarrow> cache_entry \<Rightarrow> cache_entry" where
  "entry_access now e = e \<lparr> qe_access_count := qe_access_count e + 1, qe_last_access := now \<rparr>"


section \<open>The levels in memory\<close>

record mem_level =
  ml_entries :: "(u64, cache_entry) hmap"
  ml_max_size :: nat
  ml_current_size :: nat

definition level_new :: "nat \<Rightarrow> mem_level" where
  "level_new max_size = \<lparr> ml_entries = [], ml_max_size = max_size, ml_current_size = 0 \<rparr>"

type_synonym entry_order = "(u64 \<times> cache_entry) list \<Rightarrow> (u64 \<times> cache_entry) list"

text \<open>\<open>min_by_key\<close>: the first of the smallest elements.\<close>

fun min_by_key :: "('a \<Rightarrow> 'b::linorder) \<Rightarrow> 'a list \<Rightarrow> 'a option" where
  "min_by_key f [] = None"
| "min_by_key f (x # xs) = Some (foldl (\<lambda>m y. if f y < f m then y else m) x xs)"

definition evict_lru :: "entry_order \<Rightarrow> (u64, cache_entry) hmap \<Rightarrow> (u64, cache_entry) hmap" where
  "evict_lru iter entries =
     (case min_by_key (qe_last_access \<circ> snd) (iter entries) of Some (key, _) \<Rightarrow> hm_remove key entries | None \<Rightarrow> entries)"

definition evict_lfu :: "entry_order \<Rightarrow> (u64, cache_entry) hmap \<Rightarrow> (u64, cache_entry) hmap" where
  "evict_lfu iter entries =
     (case min_by_key (qe_access_count \<circ> snd) (iter entries) of Some (key, _) \<Rightarrow> hm_remove key entries | None \<Rightarrow> entries)"

definition level_insert ::
  "((u64, cache_entry) hmap \<Rightarrow> (u64, cache_entry) hmap) \<Rightarrow> u64 \<Rightarrow> cache_entry \<Rightarrow> mem_level \<Rightarrow> cache_entry option \<times> mem_level" where
  "level_insert evict key e c =
     (let entries = (if length (ml_entries c) \<ge> ml_max_size c then evict (ml_entries c) else ml_entries c);
          entries' = hm_insert key e entries
      in (hm_get entries key, c \<lparr> ml_entries := entries', ml_current_size := length entries' \<rparr>))"

definition l1c_insert :: "entry_order \<Rightarrow> u64 \<Rightarrow> cache_entry \<Rightarrow> mem_level \<Rightarrow> cache_entry option \<times> mem_level" where
  "l1c_insert iter = level_insert (evict_lru iter)"

definition l2c_insert :: "entry_order \<Rightarrow> u64 \<Rightarrow> cache_entry \<Rightarrow> mem_level \<Rightarrow> cache_entry option \<times> mem_level" where
  "l2c_insert iter = level_insert (evict_lfu iter)"

definition level_get :: "u64 \<Rightarrow> u64 \<Rightarrow> mem_level \<Rightarrow> cache_entry option \<times> mem_level" where
  "level_get now key c =
     (case hm_get (ml_entries c) key of
        Some e \<Rightarrow>
          if is_expired now e
          then (let entries = hm_remove key (ml_entries c)
                in (None, c \<lparr> ml_entries := entries, ml_current_size := length entries \<rparr>))
          else (Some (entry_access now e), c \<lparr> ml_entries := hm_insert key (entry_access now e) (ml_entries c) \<rparr>)
      | None \<Rightarrow> (None, c))"

definition l1c_remove :: "u64 \<Rightarrow> mem_level \<Rightarrow> cache_entry option \<times> mem_level" where
  "l1c_remove key c =
     (let entries = hm_remove key (ml_entries c)
      in (hm_get (ml_entries c) key, c \<lparr> ml_entries := entries, ml_current_size := length entries \<rparr>))"


section \<open>The level on disk\<close>

record l3_cache =
  l3_files :: "(u64, byte list) hmap"
  l3_metadata :: "(u64, cache_entry) hmap"

text \<open>\<open>fs::write\<close> may fail before it opens the file or after it has written a part.\<close>

datatype write_outcome = Written | Not_Opened | Cut_Off nat

fun cache_file_write :: "write_outcome \<Rightarrow> u64 \<Rightarrow> byte list \<Rightarrow> (u64, byte list) hmap \<Rightarrow> bool \<times> (u64, byte list) hmap" where
  "cache_file_write Written key data files = (True, hm_insert key data files)"
| "cache_file_write Not_Opened key data files = (False, files)"
| "cache_file_write (Cut_Off n) key data files = (False, hm_insert key (take n data) files)"

definition l3c_insert :: "write_outcome \<Rightarrow> u64 \<Rightarrow> cache_entry \<Rightarrow> l3_cache \<Rightarrow> (unit, unit) result \<times> l3_cache" where
  "l3c_insert w key e c =
     (let (ok, files) = cache_file_write w key (qe_data e) (l3_files c)
      in if ok then (Ok (), \<lparr> l3_files = files, l3_metadata = hm_insert key e (l3_metadata c) \<rparr>)
         else (Err (), c \<lparr> l3_files := files \<rparr>))"

definition l3c_get :: "bool \<Rightarrow> bool \<Rightarrow> u64 \<Rightarrow> u64 \<Rightarrow> l3_cache \<Rightarrow> cache_entry option \<times> l3_cache" where
  "l3c_get remove_ok read_ok now key c =
     (case hm_get (l3_metadata c) key of
        Some e \<Rightarrow>
          if is_expired now e
          then (None, \<lparr> l3_files = if remove_ok then hm_remove key (l3_files c) else l3_files c,
                        l3_metadata = hm_remove key (l3_metadata c) \<rparr>)
          else (Some (entry_access now e), c \<lparr> l3_metadata := hm_insert key (entry_access now e) (l3_metadata c) \<rparr>)
      | None \<Rightarrow>
          (case (if read_ok then hm_get (l3_files c) key else None) of
             Some data \<Rightarrow>
               (let e = cache_entry_new now data 0 3600 in (Some e, c \<lparr> l3_metadata := hm_insert key e (l3_metadata c) \<rparr>))
           | None \<Rightarrow> (None, c)))"


section \<open>The cache manager\<close>

record query_result_cache =
  qr_l1 :: mem_level
  qr_l2 :: mem_level
  qr_l3 :: l3_cache
  qr_current_slot :: u64
  qr_slot_threshold :: u64
  qr_hits :: u64
  qr_misses :: u64

text \<open>The directory may hold files of an earlier process.\<close>

definition query_cache_new :: "(u64, byte list) hmap \<Rightarrow> nat \<Rightarrow> nat \<Rightarrow> u64 \<Rightarrow> query_result_cache" where
  "query_cache_new files l1_size l2_size slot_threshold =
     \<lparr> qr_l1 = level_new l1_size, qr_l2 = level_new l2_size, qr_l3 = \<lparr> l3_files = files, l3_metadata = [] \<rparr>,
       qr_current_slot = 0, qr_slot_threshold = slot_threshold, qr_hits = 0, qr_misses = 0 \<rparr>"

definition query_cache_get ::
  "entry_order \<Rightarrow> bool \<Rightarrow> bool \<Rightarrow> u64 \<Rightarrow> u64 \<Rightarrow> query_result_cache \<Rightarrow> cache_entry option \<times> query_result_cache" where
  "query_cache_get iter remove_ok read_ok now key c0 =
     (let (found1, l1) = level_get now key (qr_l1 c0); c1 = c0 \<lparr> qr_l1 := l1 \<rparr>
      in case found1 of
           Some e \<Rightarrow> (Some e, c1 \<lparr> qr_hits := qr_hits c1 + 1 \<rparr>)
         | None \<Rightarrow>
             (let (found2, l2) = level_get now key (qr_l2 c1); c2 = c1 \<lparr> qr_l2 := l2 \<rparr>
              in case found2 of
                   Some e \<Rightarrow> (Some e, c2 \<lparr> qr_hits := qr_hits c2 + 1, qr_l1 := snd (l1c_insert iter key e (qr_l1 c2)) \<rparr>)
                 | None \<Rightarrow>
                     (let (found3, l3) = l3c_get remove_ok read_ok now key (qr_l3 c2); c3 = c2 \<lparr> qr_l3 := l3 \<rparr>
                      in case found3 of
                           Some e \<Rightarrow> (Some e, c3 \<lparr> qr_hits := qr_hits c3 + 1, qr_l2 := snd (l2c_insert iter key e (qr_l2 c3)) \<rparr>)
                         | None \<Rightarrow> (None, c3 \<lparr> qr_misses := qr_misses c3 + 1 \<rparr>))))"

definition query_cache_insert ::
  "entry_order \<Rightarrow> write_outcome \<Rightarrow> u64 \<Rightarrow> u64 \<Rightarrow> byte list \<Rightarrow> u64 \<Rightarrow> u64 \<Rightarrow> query_result_cache \<Rightarrow> query_result_cache" where
  "query_cache_insert iter w now key data slot ttl_secs c =
     (let entry = cache_entry_new now data slot ttl_secs
      in c \<lparr> qr_l1 := snd (l1c_insert iter key entry (qr_l1 c)), qr_l2 := snd (l2c_insert iter key entry (qr_l2 c)),
             qr_l3 := snd (l3c_insert w key entry (qr_l3 c)) \<rparr>)"

definition invalidate_by_slot :: "u64 \<Rightarrow> query_result_cache \<Rightarrow> query_result_cache" where
  "invalidate_by_slot current_slot c = c"

definition query_cache_update_slot :: "u64 \<Rightarrow> query_result_cache \<Rightarrow> query_result_cache" where
  "query_cache_update_slot slot c = invalidate_by_slot slot (c \<lparr> qr_current_slot := slot \<rparr>)"

definition query_cache_hit_rate :: "(rat \<Rightarrow> rat) \<Rightarrow> query_result_cache \<Rightarrow> rat" where
  "query_cache_hit_rate rnd c =
     (if qr_hits c + qr_misses c = 0 then 0
      else rnd (rnd (of_nat (unat (qr_hits c))) / rnd (of_nat (unat (qr_hits c + qr_misses c)))))"

record query_cache_stats =
  qs_l1_count :: nat
  qs_l2_count :: nat
  qs_l3_count :: nat
  qs_hit_rate :: rat
  qs_total_hits :: u64
  qs_total_misses :: u64

definition query_cache_stats_of :: "(rat \<Rightarrow> rat) \<Rightarrow> query_result_cache \<Rightarrow> query_cache_stats" where
  "query_cache_stats_of rnd c =
     \<lparr> qs_l1_count = ml_current_size (qr_l1 c), qs_l2_count = ml_current_size (qr_l2 c),
       qs_l3_count = length (l3_metadata (qr_l3 c)), qs_hit_rate = query_cache_hit_rate rnd c,
       qs_total_hits = qr_hits c, qs_total_misses = qr_misses c \<rparr>"


section \<open>What a level holds\<close>

text \<open>The part of an entry that reading leaves alone.\<close>

datatype entry_core = Core "byte list" u64 u64 u64

definition core :: "cache_entry \<Rightarrow> entry_core" where
  "core e = Core (qe_data e) (qe_created_at e) (qe_slot e) (qe_ttl_secs e)"

definition entry_of :: "u64 \<Rightarrow> u64 \<Rightarrow> entry_core \<Rightarrow> cache_entry" where
  "entry_of access_count last_access v =
     (case v of Core data created slot ttl \<Rightarrow>
        \<lparr> qe_data = data, qe_created_at = created, qe_slot = slot, qe_access_count = access_count,
          qe_last_access = last_access, qe_ttl_secs = ttl \<rparr>)"

definition core_expired :: "u64 \<Rightarrow> entry_core \<Rightarrow> bool" where
  "core_expired now v \<longleftrightarrow> (case v of Core data created slot ttl \<Rightarrow> ttl = 0 \<or> now > created + ttl)"

definition level_content :: "mem_level \<Rightarrow> u64 \<Rightarrow> entry_core option" where
  "level_content c key = map_option core (hm_get (ml_entries c) key)"

definition level_ok :: "nat \<Rightarrow> mem_level \<Rightarrow> bool" where
  "level_ok cap c \<longleftrightarrow> hm_invar (ml_entries c) \<and> ml_max_size c = cap \<and> ml_current_size c = length (ml_entries c)"

lemma core_simps [simp]:
  "core (entry_of a l v) = v" "core (entry_access now e) = core e" "core_expired now (core e) = is_expired now e"
  "core (cache_entry_new now d s t) = Core d now s t"
  by (auto simp: core_def entry_of_def entry_access_def core_expired_def is_expired_def cache_entry_new_def split: entry_core.splits)

lemma entry_new_data [simp]: "qe_data (cache_entry_new now data slot ttl) = data"
  by (simp add: cache_entry_new_def)

lemma no_ttl_expired [simp]: "is_expired now (cache_entry_new stored data slot 0)"
  by (simp add: is_expired_def cache_entry_new_def)

lemma entry_of_core: "entry_of (qe_access_count e) (qe_last_access e) (core e) = e"
  by (simp add: entry_of_def core_def)

lemma core_expired_mono: "core_expired now v \<Longrightarrow> now \<le> now' \<Longrightarrow> core_expired now' v"
  by (auto simp: core_expired_def split: entry_core.splits)

definition entry_order_ok :: "entry_order \<Rightarrow> bool" where
  "entry_order_ok iter \<longleftrightarrow> (\<forall>m. set (iter m) = set m)"

lemma min_by_key_mem: "min_by_key f xs = Some x \<Longrightarrow> x \<in> set xs"
proof (cases xs)
  case (Cons y ys)
  have "foldl (\<lambda>m z. if f z < f m then z else m) y ys \<in> insert y (set ys)"
    by (induction ys arbitrary: y) auto
  then show "min_by_key f xs = Some x \<Longrightarrow> x \<in> set xs" using Cons by auto
qed simp

text \<open>Both evictions remove one key, and a key that is there when the map is not empty.\<close>

definition removes :: "((u64, cache_entry) hmap \<Rightarrow> (u64, cache_entry) hmap) \<Rightarrow> bool" where
  "removes evict \<longleftrightarrow> (\<forall>m. evict m = m \<or> (\<exists>k. evict m = hm_remove k m))"

lemma evict_removes: "removes (evict_lru iter)" "removes (evict_lfu iter)"
  by (auto simp: removes_def evict_lru_def evict_lfu_def split: option.splits)

lemma evict_by_length:
  assumes "entry_order_ok iter" "hm_invar m" "m \<noteq> []"
    and "evict = (case min_by_key f (iter m) of Some (key, _) \<Rightarrow> hm_remove key m | None \<Rightarrow> m)"
  shows "length evict < length m"
proof -
  have set_iter: "set (iter m) = set m" using assms(1) by (simp add: entry_order_ok_def)
  then have "iter m \<noteq> []" using assms(3) by auto
  then obtain p where p: "min_by_key f (iter m) = Some p" by (cases "iter m") simp_all
  obtain k e where "p = (k, e)" by (cases p)
  then have k: "min_by_key f (iter m) = Some (k, e)" using p by simp
  have "(k, e) \<in> set m" using min_by_key_mem [OF k] set_iter by simp
  then have "k \<in> fst ` set m" by (rule image_eqI [rotated]) simp
  then have "hm_get m k \<noteq> None" by (simp add: hm_get_None)
  then show ?thesis using assms(3) k by (simp add: assms(4) length_hm_remove [OF assms(2)])
qed

lemma evict_length:
  assumes "entry_order_ok iter" "hm_invar m" "m \<noteq> []"
  shows "length (evict_lru iter m) < length m" "length (evict_lfu iter m) < length m"
  by (rule evict_by_length [OF assms], simp add: evict_lru_def evict_lfu_def)+

lemma level_insert_ok:
  assumes "removes evict" "level_ok cap c"
  shows "level_ok cap (snd (level_insert evict key e c))"
proof -
  have "hm_invar (evict (ml_entries c))"
    using assms unfolding removes_def level_ok_def by (metis hm.invar_del)
  then show ?thesis using assms(2) by (simp add: level_insert_def level_ok_def Let_def hm.invar_ins)
qed

lemma level_insert_content:
  assumes "removes evict" "level_ok cap c"
  shows "level_content (snd (level_insert evict key e c)) key = Some (core e)"
    "k \<noteq> key \<Longrightarrow> level_content (snd (level_insert evict key e c)) k = Some v \<Longrightarrow> level_content c k = Some v"
proof -
  have ev: "hm_invar (evict (ml_entries c))" "\<And>k w. hm_get (evict (ml_entries c)) k = Some w \<Longrightarrow> hm_get (ml_entries c) k = Some w"
    using assms unfolding removes_def level_ok_def by (metis hm.invar_del, metis hm.get_del option.distinct(1))
  show "level_content (snd (level_insert evict key e c)) key = Some (core e)"
    using assms(2) ev(1) by (simp add: level_insert_def level_content_def level_ok_def Let_def hm.get_ins)
  show "level_content c k = Some v" if "k \<noteq> key" "level_content (snd (level_insert evict key e c)) k = Some v"
    using assms(2) that ev by (auto simp: level_insert_def level_content_def level_ok_def Let_def hm.get_ins split: if_splits)
qed

interpretation l1c: lossy_cache level_content
  "\<lambda>key v c. snd (l1c_insert iter key (entry_of access_count last_access v) c)" "level_ok cap"
  for iter access_count last_access cap
  using level_insert_ok [OF evict_removes(1)] level_insert_content [OF evict_removes(1)]
  by unfold_locales (auto simp: l1c_insert_def)

interpretation l2c: lossy_cache level_content
  "\<lambda>key v c. snd (l2c_insert iter key (entry_of access_count last_access v) c)" "level_ok cap"
  for iter access_count last_access cap
  using level_insert_ok [OF evict_removes(2)] level_insert_content [OF evict_removes(2)]
  by unfold_locales (auto simp: l2c_insert_def)

lemma level_insert_length:
  assumes "\<And>m. hm_invar m \<Longrightarrow> m \<noteq> [] \<Longrightarrow> length (evict m) < length m" "evict [] = []"
    and "level_ok cap c" "length (ml_entries c) \<le> max 1 cap"
  shows "length (ml_entries (snd (level_insert evict key e c))) \<le> max 1 cap"
proof -
  have "length (evict (ml_entries c)) < length (ml_entries c) \<or> ml_entries c = [] \<and> evict (ml_entries c) = []"
    using assms(1) [of "ml_entries c"] assms(2,3) by (cases "ml_entries c = []") (simp_all add: level_ok_def)
  then show ?thesis
    using assms(3,4) by (auto simp: level_insert_def Let_def length_hm_insert level_ok_def)
qed

lemma level_get_result:
  assumes "level_ok cap c"
  shows "map_option core (fst (level_get now key c)) =
      (case level_content c key of Some v \<Rightarrow> if core_expired now v then None else Some v | None \<Rightarrow> None)"
    "level_ok cap (snd (level_get now key c))" "length (ml_entries (snd (level_get now key c))) \<le> length (ml_entries c)"
    "level_content (snd (level_get now key c)) k =
      (if k = key then map_option core (fst (level_get now key c)) else level_content c k)"
  using assms
  by (auto simp: level_get_def level_content_def level_ok_def Let_def hm.get_ins hm.get_del hm.invar_ins hm.invar_del
      length_hm_insert length_hm_remove split: option.splits)


section \<open>The manager as one map with a time to live\<close>

definition l3_content :: "l3_cache \<Rightarrow> u64 \<Rightarrow> entry_core option" where
  "l3_content c key = map_option core (hm_get (l3_metadata c) key)"

text \<open>
  \<open>m\<close> maps a key to what was inserted last under it.  The third level holds all of it but what
  has expired and was removed together with its file.
\<close>

definition qr_ok :: "nat \<Rightarrow> nat \<Rightarrow> u64 \<Rightarrow> (u64 \<Rightarrow> entry_core option) \<Rightarrow> query_result_cache \<Rightarrow> bool" where
  "qr_ok cap1 cap2 prev m c \<longleftrightarrow>
     level_ok cap1 (qr_l1 c) \<and> level_content (qr_l1 c) \<subseteq>\<^sub>m m \<and> length (ml_entries (qr_l1 c)) \<le> max 1 cap1 \<and>
     level_ok cap2 (qr_l2 c) \<and> level_content (qr_l2 c) \<subseteq>\<^sub>m m \<and> length (ml_entries (qr_l2 c)) \<le> max 1 cap2 \<and>
     hm_invar (l3_metadata (qr_l3 c)) \<and> hm_invar (l3_files (qr_l3 c)) \<and> l3_content (qr_l3 c) \<subseteq>\<^sub>m m \<and>
     (\<forall>key. l3_content (qr_l3 c) key = None \<longrightarrow>
        hm_get (l3_files (qr_l3 c)) key = None \<and> (\<forall>v. m key = Some v \<longrightarrow> core_expired prev v))"

definition live :: "u64 \<Rightarrow> entry_core option \<Rightarrow> entry_core option" where
  "live now v = (case v of Some x \<Rightarrow> if core_expired now x then None else Some x | None \<Rightarrow> None)"

lemma qr_ok_new: "qr_ok cap1 cap2 prev Map.empty (query_cache_new [] cap1 cap2 threshold)"
  by (simp add: qr_ok_def query_cache_new_def level_new_def level_ok_def level_content_def l3_content_def
      hm.invar_empty hm.get_empty map_le_def)

lemma evict_empty: "evict_lru iter [] = []" "evict_lfu iter [] = []"
  by (simp_all add: evict_lru_def evict_lfu_def hm_remove_def split: option.splits prod.splits)

text \<open>An entry without time to live is stored and dropped by the next lookup.\<close>

lemma level_no_ttl:
  assumes "evict [] = []"
  shows "level_get now key (snd (level_insert evict key (cache_entry_new stored data slot 0) (level_new n))) = (None, level_new n)"
  by (simp add: level_insert_def level_new_def assms level_get_def is_expired_def cache_entry_new_def Let_def
      hm_get_def hm_insert_def hm_remove_def)

lemma level_get_new: "level_get now key (level_new n) = (None, level_new n)"
  by (simp add: level_get_def level_new_def hm_get_def)

lemma l1c_insert_level:
  assumes "entry_order_ok iter" "level_ok cap c" "level_content c \<subseteq>\<^sub>m m" "length (ml_entries c) \<le> max 1 cap"
  shows "level_ok cap (snd (l1c_insert iter key e c))" "level_content (snd (l1c_insert iter key e c)) \<subseteq>\<^sub>m m(key \<mapsto> core e)"
    "length (ml_entries (snd (l1c_insert iter key e c))) \<le> max 1 cap"
  using l1c.put_within [OF assms(2,3), of iter key "qe_access_count e" "qe_last_access e" "core e"]
    level_insert_ok [OF evict_removes(1) assms(2)]
    level_insert_length [OF evict_length(1) [OF assms(1)] evict_empty(1) assms(2,4)]
  by (simp_all add: l1c_insert_def entry_of_core)

lemma l2c_insert_level:
  assumes "entry_order_ok iter" "level_ok cap c" "level_content c \<subseteq>\<^sub>m m" "length (ml_entries c) \<le> max 1 cap"
  shows "level_ok cap (snd (l2c_insert iter key e c))" "level_content (snd (l2c_insert iter key e c)) \<subseteq>\<^sub>m m(key \<mapsto> core e)"
    "length (ml_entries (snd (l2c_insert iter key e c))) \<le> max 1 cap"
  using l2c.put_within [OF assms(2,3), of iter key "qe_access_count e" "qe_last_access e" "core e"]
    level_insert_ok [OF evict_removes(2) assms(2)]
    level_insert_length [OF evict_length(2) [OF assms(1)] evict_empty(2) assms(2,4)]
  by (simp_all add: l2c_insert_def entry_of_core)

lemma qr_ok_insert:
  assumes "qr_ok cap1 cap2 prev m c" "entry_order_ok iter"
  shows "qr_ok cap1 cap2 prev (m(key \<mapsto> Core data now slot ttl)) (query_cache_insert iter Written now key data slot ttl c)"
proof -
  have l3: "l3_content (snd (l3c_insert Written key e (qr_l3 c))) = (l3_content (qr_l3 c))(key \<mapsto> core e)"
    "hm_invar (l3_metadata (snd (l3c_insert Written key e (qr_l3 c))))" "hm_invar (l3_files (snd (l3c_insert Written key e (qr_l3 c))))"
    "k \<noteq> key \<Longrightarrow> hm_get (l3_files (snd (l3c_insert Written key e (qr_l3 c)))) k = hm_get (l3_files (qr_l3 c)) k" for e k
    using assms(1) by (auto simp: l3c_insert_def l3_content_def qr_ok_def hm.get_ins hm.invar_ins fun_eq_iff)
  have le: "(l3_content (qr_l3 c))(key \<mapsto> v) \<subseteq>\<^sub>m m(key \<mapsto> v)" for v
    using assms(1) by (auto simp: qr_ok_def map_le_def)
  show ?thesis
    using assms(1) l3 le l1c_insert_level [OF assms(2), of cap1 "qr_l1 c" m key "cache_entry_new now data slot ttl"]
      l2c_insert_level [OF assms(2), of cap2 "qr_l2 c" m key "cache_entry_new now data slot ttl"]
    by (simp add: qr_ok_def query_cache_insert_def Let_def)
qed


lemma level_get_live:
  assumes "level_ok cap c" "level_content c \<subseteq>\<^sub>m m" "level_get now key c = (found, c')"
  shows "level_ok cap c'" "level_content c' \<subseteq>\<^sub>m m" "length (ml_entries c') \<le> length (ml_entries c)"
    "found = Some e \<Longrightarrow> m key = Some (core e) \<and> \<not> is_expired now e"
proof -
  note r = level_get_result [OF assms(1), of now key, unfolded assms(3) fst_conv snd_conv]
  show "level_ok cap c'" "length (ml_entries c') \<le> length (ml_entries c)" by (rule r)+
  have found: "m key = Some (core e) \<and> \<not> is_expired now e" if "found = Some e" for e
  proof (cases "level_content c key")
    case None
    then show ?thesis using r(1) that by simp
  next
    case (Some v)
    then have "v = core e" "\<not> core_expired now v" using r(1) that by (simp_all split: if_splits)
    moreover have "m key = Some v" using assms(2) Some by (metis domI map_le_def)
    ultimately show ?thesis by simp
  qed
  then show "found = Some e \<Longrightarrow> m key = Some (core e) \<and> \<not> is_expired now e" .
  show "level_content c' \<subseteq>\<^sub>m m"
    unfolding map_le_def
  proof
    fix k assume "k \<in> dom (level_content c')"
    then show "level_content c' k = m k"
      using r(4) [of k] found assms(2) by (cases "k = key"; cases found) (auto simp: map_le_def dom_def)
  qed
qed

lemma l3c_get_live:
  assumes "hm_invar (l3_metadata c)" "hm_invar (l3_files c)" "l3_content c \<subseteq>\<^sub>m m" "prev \<le> now"
    and "\<forall>k. l3_content c k = None \<longrightarrow> hm_get (l3_files c) k = None \<and> (\<forall>v. m k = Some v \<longrightarrow> core_expired prev v)"
    and "l3c_get True read_ok now key c = (found, c')"
  shows "hm_invar (l3_metadata c')" "hm_invar (l3_files c')" "l3_content c' \<subseteq>\<^sub>m m"
    "\<forall>k. l3_content c' k = None \<longrightarrow> hm_get (l3_files c') k = None \<and> (\<forall>v. m k = Some v \<longrightarrow> core_expired now v)"
    "map_option core found = live now (m key)"
proof -
  have exp: "core_expired now v" if "l3_content c k = None" "m k = Some v" for k v
    using assms(4,5) that core_expired_mono by blast
  have "hm_invar (l3_metadata c') \<and> hm_invar (l3_files c') \<and> l3_content c' \<subseteq>\<^sub>m m \<and>
    (\<forall>k. l3_content c' k = None \<longrightarrow> hm_get (l3_files c') k = None \<and> (\<forall>v. m k = Some v \<longrightarrow> core_expired now v)) \<and>
    map_option core found = live now (m key)"
  proof (cases "hm_get (l3_metadata c) key")
    case None
    then have "l3_content c key = None" by (simp add: l3_content_def)
    then have "found = None" "c' = c" using assms(5,6) None by (auto simp: l3c_get_def split: if_splits)
    then show ?thesis
      using assms exp \<open>l3_content c key = None\<close> by (auto simp: live_def split: option.splits)
  next
    case (Some e)
    then have key: "m key = Some (core e)" using assms(3) by (auto simp: l3_content_def map_le_def dom_def)
    show ?thesis
    proof (cases "is_expired now e")
      case True
      then have "found = None" and c': "c' = \<lparr> l3_files = hm_remove key (l3_files c), l3_metadata = hm_remove key (l3_metadata c) \<rparr>"
        using assms(6) Some by (auto simp: l3c_get_def)
      moreover have "l3_content c' = (\<lambda>k. if k = key then None else l3_content c k)"
        using assms(1) by (auto simp: c' l3_content_def hm.get_del)
      moreover have "v = core e" if "m key = Some v" for v using that key by simp
      then have "\<forall>v. m key = Some v \<longrightarrow> core_expired now v" using True core_simps(3) by metis
      ultimately show ?thesis
        using assms(1,2,3,5) exp key True by (auto simp: live_def hm.invar_del hm.get_del map_le_def dom_def)
    next
      case False
      then have "found = Some (entry_access now e)" and c': "c' = c \<lparr> l3_metadata := hm_insert key (entry_access now e) (l3_metadata c) \<rparr>"
        using assms(6) Some by (auto simp: l3c_get_def)
      moreover have "l3_content c' = l3_content c"
        using assms(1) Some by (auto simp: c' l3_content_def hm.get_ins)
      ultimately show ?thesis
        using assms(1,2,3,5) exp key False by (auto simp: live_def hm.invar_ins)
    qed
  qed
  then show "hm_invar (l3_metadata c')" "hm_invar (l3_files c')" "l3_content c' \<subseteq>\<^sub>m m"
    "\<forall>k. l3_content c' k = None \<longrightarrow> hm_get (l3_files c') k = None \<and> (\<forall>v. m k = Some v \<longrightarrow> core_expired now v)"
    "map_option core found = live now (m key)"
    by blast+
qed

text \<open>A lookup that misses both levels in memory.\<close>

definition disk_get :: "entry_order \<Rightarrow> bool \<Rightarrow> u64 \<Rightarrow> u64 \<Rightarrow> query_result_cache \<Rightarrow> cache_entry option \<times> query_result_cache" where
  "disk_get iter remove_ok now key c =
     (let (found, l3) = l3c_get remove_ok True now key (qr_l3 c)
      in case found of
           Some e \<Rightarrow> (Some e, c \<lparr> qr_l3 := l3, qr_hits := qr_hits c + 1, qr_l2 := snd (l2c_insert iter key e (qr_l2 c)) \<rparr>)
         | None \<Rightarrow> (None, c \<lparr> qr_l3 := l3, qr_misses := qr_misses c + 1 \<rparr>))"

lemma query_cache_get_miss:
  assumes "level_get now key (qr_l1 c) = (None, l1)" "level_get now key (qr_l2 c) = (None, l2)"
  shows "query_cache_get iter remove_ok True now key c = disk_get iter remove_ok now key (c \<lparr> qr_l1 := l1, qr_l2 := l2 \<rparr>)"
  using assms by (auto simp: query_cache_get_def disk_get_def Let_def split: option.splits prod.splits)

lemma qr_ok_later: "qr_ok cap1 cap2 prev m c \<Longrightarrow> prev \<le> now \<Longrightarrow> qr_ok cap1 cap2 now m c"
  unfolding qr_ok_def using core_expired_mono by blast

lemma qr_ok_get:
  assumes "qr_ok cap1 cap2 prev m c" "entry_order_ok iter" "prev \<le> now"
  shows "map_option core (fst (query_cache_get iter True read_ok now key c)) = live now (m key) \<and>
    qr_ok cap1 cap2 now m (snd (query_cache_get iter True read_ok now key c))"
proof -
  have ok: "qr_ok cap1 cap2 now m c" by (rule qr_ok_later [OF assms(1,3)])
  obtain f1 l1 where g1: "level_get now key (qr_l1 c) = (f1, l1)" by fastforce
  obtain f2 l2 where g2: "level_get now key (qr_l2 c) = (f2, l2)" by fastforce
  obtain f3 l3 where g3: "l3c_get True read_ok now key (qr_l3 c) = (f3, l3)" by fastforce
  have parts: "level_ok cap1 (qr_l1 c)" "level_content (qr_l1 c) \<subseteq>\<^sub>m m" "level_ok cap2 (qr_l2 c)" "level_content (qr_l2 c) \<subseteq>\<^sub>m m"
    using ok by (auto simp: qr_ok_def)
  note L1 = level_get_live [OF parts(1,2) g1] and L2 = level_get_live [OF parts(3,4) g2]
  have L3: "hm_invar (l3_metadata l3)" "hm_invar (l3_files l3)" "l3_content l3 \<subseteq>\<^sub>m m"
    "\<forall>k. l3_content l3 k = None \<longrightarrow> hm_get (l3_files l3) k = None \<and> (\<forall>v. m k = Some v \<longrightarrow> core_expired now v)"
    "map_option core f3 = live now (m key)"
    using l3c_get_live [OF _ _ _ assms(3) _ g3, of m] assms(1) by (auto simp: qr_ok_def)
  have len: "length (ml_entries l1) \<le> max 1 cap1" "length (ml_entries l2) \<le> max 1 cap2"
    using L1(3) L2(3) ok by (auto simp: qr_ok_def)
  have upd: "m(key \<mapsto> core e) = m" if "m key = Some (core e)" for e using that by auto
  show ?thesis
  proof (cases f1)
    case (Some e)
    then show ?thesis
      using L1 len ok g1 by (simp add: query_cache_get_def live_def qr_ok_def)
  next
    case None
    note f1 = None
    show ?thesis
    proof (cases f2)
      case (Some e)
      then show ?thesis
        using L1(1,2) L2 len ok g1 g2 f1 l1c_insert_level [OF assms(2) L1(1,2) len(1), of key e] upd [of e]
        by (simp add: query_cache_get_def live_def qr_ok_def)
    next
      case None
      note f2 = None
      show ?thesis
      proof (cases f3)
        case (Some e)
        then have "m key = Some (core e)" using L3(5) by (auto simp: live_def split: option.splits if_splits)
        then show ?thesis
          using Some L1(1,2) L2(1,2) L3 len g1 g2 g3 f1 f2 l2c_insert_level [OF assms(2) L2(1,2) len(2), of key e] upd [of e]
          by (simp add: query_cache_get_def qr_ok_def)
      next
        case None
        then show ?thesis
          using L1(1,2) L2(1,2) L3 len g1 g2 g3 f1 f2 by (simp add: query_cache_get_def qr_ok_def)
      qed
    qed
  qed
qed


section \<open>Histories\<close>

datatype query_cache_op =
    Store u64 u64 "byte list" u64 u64
  | Fetch u64 u64
  | Move_Slot u64 u64

fun qop_time :: "query_cache_op \<Rightarrow> u64" where
  "qop_time (Store now key data slot ttl) = now"
| "qop_time (Fetch now key) = now"
| "qop_time (Move_Slot now slot) = now"

primrec apply_query_cache :: "entry_order \<Rightarrow> query_cache_op \<Rightarrow> query_result_cache \<Rightarrow> query_result_cache" where
  "apply_query_cache iter (Store now key data slot ttl) c = query_cache_insert iter Written now key data slot ttl c"
| "apply_query_cache iter (Fetch now key) c = snd (query_cache_get iter True True now key c)"
| "apply_query_cache iter (Move_Slot now slot) c = query_cache_update_slot slot c"

primrec spec_query_cache :: "query_cache_op \<Rightarrow> (u64 \<Rightarrow> entry_core option) \<Rightarrow> (u64 \<Rightarrow> entry_core option)" where
  "spec_query_cache (Store now key data slot ttl) m = m(key \<mapsto> Core data now slot ttl)"
| "spec_query_cache (Fetch now key) m = m"
| "spec_query_cache (Move_Slot now slot) m = m"

lemma qr_ok_apply:
  assumes "qr_ok cap1 cap2 prev m c" "entry_order_ok iter" "prev \<le> qop_time x"
  shows "qr_ok cap1 cap2 (qop_time x) (spec_query_cache x m) (apply_query_cache iter x c)"
proof (cases x)
  case (Store now key data slot ttl)
  then show ?thesis using qr_ok_insert [OF qr_ok_later [OF assms(1,3)] assms(2)] by simp
next
  case (Fetch now key)
  then show ?thesis using qr_ok_get [OF assms] by simp
next
  case (Move_Slot now slot)
  then show ?thesis
    using qr_ok_later [OF assms(1,3)] by (simp add: query_cache_update_slot_def invalidate_by_slot_def qr_ok_def)
qed

lemma qr_ok_run:
  assumes "qr_ok cap1 cap2 prev m c" "entry_order_ok iter" "sorted (prev # map qop_time ops)"
  shows "qr_ok cap1 cap2 (last (prev # map qop_time ops)) (fold spec_query_cache ops m) (fold (apply_query_cache iter) ops c)"
  using assms(1,3)
proof (induction ops arbitrary: prev m c)
  case (Cons x ops)
  then show ?case using Cons.IH [OF qr_ok_apply [OF Cons.prems(1) assms(2), of x]] by (simp split: if_splits)
qed simp


section \<open>Properties\<close>

text \<open>C17: While the disk works and starts empty, the three levels behave as one unbounded map with
  a time to live: after any history with non-decreasing times, whatever was evicted or promoted,
  a lookup returns the data stored last under its key, with its slot, exactly until it expires;
  and the levels in memory stay within their capacities.\<close>

theorem query_cache_exact:
  assumes "entry_order_ok iter" "sorted (map qop_time ops @ [now])"
    and "c = fold (apply_query_cache iter) ops (query_cache_new [] l1_size l2_size threshold)"
  shows "map_option (\<lambda>e. (qe_data e, qe_slot e)) (fst (query_cache_get iter True True now key c)) =
      (case fold spec_query_cache ops Map.empty key of
         Some (Core data stored slot ttl) \<Rightarrow> if ttl = 0 \<or> now > stored + ttl then None else Some (data, slot)
       | None \<Rightarrow> None) \<and>
    qs_l1_count (query_cache_stats_of rnd c) \<le> max 1 l1_size \<and> qs_l2_count (query_cache_stats_of rnd c) \<le> max 1 l2_size"
proof -
  have ok: "qr_ok l1_size l2_size (last (0 # map qop_time ops)) (fold spec_query_cache ops Map.empty) c"
    unfolding assms(3) by (rule qr_ok_run [OF qr_ok_new assms(1)]) (use assms(2) in \<open>simp add: sorted_append\<close>)
  have "\<forall>t\<in>set (0 # map qop_time ops). t \<le> now" using assms(2) by (auto simp: sorted_append)
  then have "last (0 # map qop_time ops) \<le> now" using last_in_set by blast
  note get = conjunct1 [OF qr_ok_get [OF ok assms(1) this, of True key]]
  have "map_option (\<lambda>e. (qe_data e, qe_slot e)) f = map_option (\<lambda>v. case v of Core d t s ttl \<Rightarrow> (d, s)) (map_option core f)" for f
    by (cases f) (simp_all add: core_def)
  then show ?thesis
    using ok unfolding get
    by (auto simp: get live_def core_expired_def query_cache_stats_of_def qr_ok_def level_ok_def
        split: option.splits entry_core.splits)
qed

definition sample_query_ops :: "query_cache_op list" where
  "sample_query_ops = [Store 5 1 [1, 2] 100 60, Store 6 2 [3] 101 60, Fetch 7 1, Store 8 1 [4] 102 60]"

theorem query_cache_exact_witness:
  "map_option (\<lambda>e. (qe_data e, qe_slot e)) (fst (query_cache_get id True True 50 1
     (fold (apply_query_cache id) sample_query_ops (query_cache_new [] 1 1 10)))) = Some ([4], 102)"
  using query_cache_exact [of id sample_query_ops 50 _ 1 1 10 1 id, OF _ _ refl]
  by (simp add: entry_order_ok_def sample_query_ops_def)


end
