(* ===== verification/Invalidation.thy ===== *)
theory Invalidation
  imports Query_Planner "HOL-Library.List_Lexorder"
begin

text \<open>
  The invalidation tracker of the cache plane (\<open>cache-plane/src/invalidation.rs\<close>).

  A hash set is a set; the two loops over hash sets take their iteration orders as arguments
  (\<open>hash_order\<close>).  The specification is a relation between pubkeys and queries; the tracker
  keeps it as two hash maps of sets.  The time of a materialisation is never read and is left
  out.  Calls are modelled one at a time.
\<close>

section \<open>The tracker\<close>

type_synonym query_hash = "byte list"

record 'b materialized_query_result =
  mq_response :: "byte list"
  mq_materialized_slot :: u64
  mq_affected_bitmap :: "'b pubkey_bitmap"

definition materialized_new :: "byte list \<Rightarrow> u64 \<Rightarrow> 'b pubkey_bitmap \<Rightarrow> 'b materialized_query_result" where
  "materialized_new response slot affected_bitmap =
     \<lparr> mq_response = response, mq_materialized_slot = slot, mq_affected_bitmap = affected_bitmap \<rparr>"

definition materialized_is_stale :: "'b materialized_query_result \<Rightarrow> u64 \<Rightarrow> bool" where
  "materialized_is_stale r current_slot \<longleftrightarrow> current_slot > mq_materialized_slot r + 100"

definition age_slots :: "'b materialized_query_result \<Rightarrow> u64 \<Rightarrow> u64" where
  "age_slots r current_slot = current_slot - mq_materialized_slot r"

record ('pk, 'b) invalidation_tracker =
  it_query_pubkeys :: "(query_hash, 'pk set) hmap"
  it_pubkey_queries :: "('pk, query_hash set) hmap"
  it_materialized_cache :: "(query_hash, 'b materialized_query_result) hmap"

definition tracker_new :: "('pk, 'b) invalidation_tracker" where
  "tracker_new = \<lparr> it_query_pubkeys = [], it_pubkey_queries = [], it_materialized_cache = [] \<rparr>"

definition link_query :: "query_hash \<Rightarrow> 'pk \<Rightarrow> ('pk, query_hash set) hmap \<Rightarrow> ('pk, query_hash set) hmap" where
  "link_query q p m = hm_insert p (insert q (case hm_get m p of None \<Rightarrow> {} | Some s \<Rightarrow> s)) m"

definition register_query :: "query_hash \<Rightarrow> 'pk list \<Rightarrow> ('pk, 'b) invalidation_tracker \<Rightarrow> ('pk, 'b) invalidation_tracker" where
  "register_query q affected_pubkeys t =
     t \<lparr> it_query_pubkeys := hm_insert q (set affected_pubkeys) (it_query_pubkeys t),
         it_pubkey_queries := fold (link_query q) affected_pubkeys (it_pubkey_queries t) \<rparr>"

definition get_affected_queries ::
  "(query_hash set \<Rightarrow> query_hash list) \<Rightarrow> 'pk \<Rightarrow> ('pk, 'b) invalidation_tracker \<Rightarrow> query_hash list" where
  "get_affected_queries q_order p t = (case hm_get (it_pubkey_queries t) p of Some s \<Rightarrow> q_order s | None \<Rightarrow> [])"

definition get_affected_queries_batch :: "'pk list \<Rightarrow> ('pk, 'b) invalidation_tracker \<Rightarrow> query_hash set" where
  "get_affected_queries_batch pubkeys t =
     fold (\<lambda>p affected. case hm_get (it_pubkey_queries t) p of Some s \<Rightarrow> affected \<union> s | None \<Rightarrow> affected) pubkeys {}"

definition unlink_query :: "query_hash \<Rightarrow> 'pk \<Rightarrow> ('pk, query_hash set) hmap \<Rightarrow> ('pk, query_hash set) hmap" where
  "unlink_query q p m =
     (case hm_get m p of
        None \<Rightarrow> m
      | Some s \<Rightarrow> if s - {q} = {} then hm_remove p m else hm_insert p (s - {q}) m)"

definition drop_query ::
  "('pk set \<Rightarrow> 'pk list) \<Rightarrow> query_hash \<Rightarrow> ('pk, 'b) invalidation_tracker \<Rightarrow> ('pk, 'b) invalidation_tracker" where
  "drop_query p_order q t0 =
     (let t = t0 \<lparr> it_materialized_cache := hm_remove q (it_materialized_cache t0) \<rparr>
      in case hm_get (it_query_pubkeys t) q of
           None \<Rightarrow> t
         | Some ps \<Rightarrow>
             t \<lparr> it_query_pubkeys := hm_remove q (it_query_pubkeys t),
                 it_pubkey_queries := fold (unlink_query q) (p_order ps) (it_pubkey_queries t) \<rparr>)"

definition invalidate_for_pubkeys ::
  "(query_hash set \<Rightarrow> query_hash list) \<Rightarrow> ('pk set \<Rightarrow> 'pk list) \<Rightarrow> 'pk list \<Rightarrow>
   ('pk, 'b) invalidation_tracker \<Rightarrow> nat \<times> ('pk, 'b) invalidation_tracker" where
  "invalidate_for_pubkeys q_order p_order pubkeys t =
     (let affected_queries = get_affected_queries_batch pubkeys t
      in (card affected_queries, fold (drop_query p_order) (q_order affected_queries) t))"

definition cache_materialized_result ::
  "query_hash \<Rightarrow> 'b materialized_query_result \<Rightarrow> ('pk, 'b) invalidation_tracker \<Rightarrow> ('pk, 'b) invalidation_tracker" where
  "cache_materialized_result q r t = t \<lparr> it_materialized_cache := hm_insert q r (it_materialized_cache t) \<rparr>"

definition get_materialized_result ::
  "query_hash \<Rightarrow> ('pk, 'b) invalidation_tracker \<Rightarrow> 'b materialized_query_result option" where
  "get_materialized_result q t = hm_get (it_materialized_cache t) q"

definition query_count :: "('pk, 'b) invalidation_tracker \<Rightarrow> nat" where
  "query_count t = length (it_query_pubkeys t)"

definition materialized_count :: "('pk, 'b) invalidation_tracker \<Rightarrow> nat" where
  "materialized_count t = length (it_materialized_cache t)"

definition tracker_clear :: "('pk, 'b) invalidation_tracker \<Rightarrow> ('pk, 'b) invalidation_tracker" where
  "tracker_clear t = \<lparr> it_query_pubkeys = [], it_pubkey_queries = [], it_materialized_cache = [] \<rparr>"


section \<open>The specification\<close>

record ('pk, 'b) tracker_spec =
  ts_registered :: "query_hash \<Rightarrow> 'pk set option"
  ts_affects :: "('pk \<times> query_hash) set"
  ts_results :: "query_hash \<Rightarrow> 'b materialized_query_result option"

definition ts_empty :: "('pk, 'b) tracker_spec" where
  "ts_empty = \<lparr> ts_registered = Map.empty, ts_affects = {}, ts_results = Map.empty \<rparr>"

definition spec_register :: "query_hash \<Rightarrow> 'pk list \<Rightarrow> ('pk, 'b) tracker_spec \<Rightarrow> ('pk, 'b) tracker_spec" where
  "spec_register q ps a =
     a \<lparr> ts_registered := (ts_registered a)(q \<mapsto> set ps), ts_affects := ts_affects a \<union> set ps \<times> {q} \<rparr>"

text \<open>The queries of \<open>A\<close> lose their results and registrations, and the pairs these registered.\<close>

definition spec_drop :: "query_hash set \<Rightarrow> ('pk, 'b) tracker_spec \<Rightarrow> ('pk, 'b) tracker_spec" where
  "spec_drop A a =
     \<lparr> ts_registered = ts_registered a |` (- A),
       ts_affects = ts_affects a - {(p, q). q \<in> A \<and> (\<exists>ps. ts_registered a q = Some ps \<and> p \<in> ps)},
       ts_results = ts_results a |` (- A) \<rparr>"

definition spec_invalidate :: "'pk list \<Rightarrow> ('pk, 'b) tracker_spec \<Rightarrow> ('pk, 'b) tracker_spec" where
  "spec_invalidate ps a = spec_drop (ts_affects a `` set ps) a"

definition tracker_abs :: "('pk, 'b) invalidation_tracker \<Rightarrow> ('pk, 'b) tracker_spec" where
  "tracker_abs t =
     \<lparr> ts_registered = hm_get (it_query_pubkeys t),
       ts_affects = {(p, q). \<exists>s. hm_get (it_pubkey_queries t) p = Some s \<and> q \<in> s},
       ts_results = hm_get (it_materialized_cache t) \<rparr>"

definition tracker_ok :: "('pk, 'b) invalidation_tracker \<Rightarrow> bool" where
  "tracker_ok t \<longleftrightarrow>
     hm_invar (it_query_pubkeys t) \<and> hm_invar (it_pubkey_queries t) \<and> hm_invar (it_materialized_cache t) \<and>
     (\<forall>q ps. hm_get (it_query_pubkeys t) q = Some ps \<longrightarrow> finite ps) \<and>
     (\<forall>p s. hm_get (it_pubkey_queries t) p = Some s \<longrightarrow> finite s)"


section \<open>Refinement of the operations\<close>

definition affects :: "('pk, query_hash set) hmap \<Rightarrow> ('pk \<times> query_hash) set" where
  "affects m = {(p, q). \<exists>s. hm_get m p = Some s \<and> q \<in> s}"

definition sets_ok :: "('pk, query_hash set) hmap \<Rightarrow> bool" where
  "sets_ok m \<longleftrightarrow> hm_invar m \<and> (\<forall>p s. hm_get m p = Some s \<longrightarrow> finite s)"

lemma link_query_ok: "sets_ok m \<Longrightarrow> sets_ok (link_query q p m)"
  by (auto simp: sets_ok_def link_query_def hm.invar_ins hm.get_ins split: option.splits if_splits)

lemma link_query_affects: "sets_ok m \<Longrightarrow> affects (link_query q p m) = insert (p, q) (affects m)"
  by (auto simp: affects_def sets_ok_def link_query_def hm.get_ins split: option.splits if_splits)

lemma unlink_query_ok: "sets_ok m \<Longrightarrow> sets_ok (unlink_query q p m)"
  by (auto simp: sets_ok_def unlink_query_def hm.invar_ins hm.get_ins hm.invar_del hm.get_del split: option.splits if_splits)

lemma unlink_query_affects: "sets_ok m \<Longrightarrow> affects (unlink_query q p m) = affects m - {(p, q)}"
  by (auto simp: affects_def sets_ok_def unlink_query_def hm.get_ins hm.get_del split: option.splits if_splits)

lemma link_all: "sets_ok m \<Longrightarrow> sets_ok (fold (link_query q) ps m) \<and> affects (fold (link_query q) ps m) = affects m \<union> set ps \<times> {q}"
  by (induction ps arbitrary: m) (auto simp: link_query_ok link_query_affects)

lemma unlink_all: "sets_ok m \<Longrightarrow> sets_ok (fold (unlink_query q) ps m) \<and> affects (fold (unlink_query q) ps m) = affects m - set ps \<times> {q}"
  by (induction ps arbitrary: m) (auto simp: unlink_query_ok unlink_query_affects)

lemma tracker_ok_sets:
  "tracker_ok t \<longleftrightarrow> hm_invar (it_query_pubkeys t) \<and> sets_ok (it_pubkey_queries t) \<and> hm_invar (it_materialized_cache t) \<and>
     (\<forall>q ps. hm_get (it_query_pubkeys t) q = Some ps \<longrightarrow> finite ps)"
  by (auto simp: tracker_ok_def sets_ok_def)

lemma tracker_abs_affects: "ts_affects (tracker_abs t) = affects (it_pubkey_queries t)"
  by (simp add: tracker_abs_def affects_def)

lemma register_query_refines:
  assumes "tracker_ok t"
  shows "tracker_ok (register_query q ps t)" "tracker_abs (register_query q ps t) = spec_register q ps (tracker_abs t)"
proof -
  have s: "sets_ok (it_pubkey_queries t)" using assms by (simp add: tracker_ok_sets)
  show "tracker_ok (register_query q ps t)"
    using assms link_all [OF s, of q ps] by (auto simp: tracker_ok_sets register_query_def hm.invar_ins hm.get_ins split: if_splits)
  have "hm_get (hm_insert q (set ps) (it_query_pubkeys t)) = (hm_get (it_query_pubkeys t))(q \<mapsto> set ps)"
    using assms by (auto simp: tracker_ok_def hm.get_ins)
  then show "tracker_abs (register_query q ps t) = spec_register q ps (tracker_abs t)"
    using link_all [OF s, of q ps] by (simp add: tracker_abs_def register_query_def spec_register_def affects_def)
qed

lemma get_remove_restrict: "hm_invar m \<Longrightarrow> hm_get (hm_remove k m) = hm_get m |` (- {k})"
  by (auto simp: hm.get_del restrict_map_def)

lemma restrict_None: "m k = None \<Longrightarrow> m |` (- {k}) = m"
  by (auto simp: restrict_map_def)

lemma drop_query_refines:
  assumes "tracker_ok t" "hash_order p_order"
  shows "tracker_ok (drop_query p_order q t)" "tracker_abs (drop_query p_order q t) = spec_drop {q} (tracker_abs t)"
proof -
  have s: "sets_ok (it_pubkey_queries t)" using assms(1) by (simp add: tracker_ok_sets)
  have set_order: "set (p_order ps) = ps" if "hm_get (it_query_pubkeys t) q = Some ps" for ps
    using assms that by (auto simp: hash_order_def tracker_ok_def)
  note unlink = unlink_all [OF s]
  show "tracker_ok (drop_query p_order q t)"
    using assms(1) unlink by (auto simp: tracker_ok_sets drop_query_def Let_def hm.invar_del hm.get_del split: option.splits if_splits)
  show "tracker_abs (drop_query p_order q t) = spec_drop {q} (tracker_abs t)"
  proof (cases "hm_get (it_query_pubkeys t) q")
    case None
    then show ?thesis
      using assms(1) by (auto simp: drop_query_def tracker_abs_def spec_drop_def get_remove_restrict tracker_ok_def restrict_None)
  next
    case (Some ps)
    have "affects (fold (unlink_query q) (p_order ps) (it_pubkey_queries t)) = affects (it_pubkey_queries t) - ps \<times> {q}"
      using unlink set_order [OF Some] by simp
    then show ?thesis
      using assms(1) Some
      by (auto simp: drop_query_def tracker_abs_def spec_drop_def get_remove_restrict tracker_ok_def affects_def)
  qed
qed

lemma spec_drop_insert: "spec_drop A (spec_drop {q} a) = spec_drop (insert q A) a"
  by (auto simp: spec_drop_def restrict_map_def fun_eq_iff)

lemma drop_queries_refine:
  assumes "tracker_ok t" "hash_order p_order"
  shows "tracker_ok (fold (drop_query p_order) qs t) \<and> tracker_abs (fold (drop_query p_order) qs t) = spec_drop (set qs) (tracker_abs t)"
  using assms(1)
proof (induction qs arbitrary: t)
  case Nil
  then show ?case by (simp add: spec_drop_def restrict_map_def tracker_abs_def)
next
  case (Cons q qs)
  then show ?case using drop_query_refines [OF Cons.prems assms(2)] by (simp add: spec_drop_insert)
qed

lemma affected_batch_eq: "get_affected_queries_batch ps t = ts_affects (tracker_abs t) `` set ps"
proof -
  have "fold (\<lambda>p affected. case hm_get m p of Some s \<Rightarrow> affected \<union> s | None \<Rightarrow> affected) ps A = A \<union> affects m `` set ps"
    for m :: "('a, query_hash set) hmap" and A
    by (induction ps arbitrary: A) (auto simp: affects_def split: option.splits)
  then show ?thesis by (simp add: get_affected_queries_batch_def tracker_abs_affects)
qed

lemma finite_affected:
  assumes "tracker_ok t"
  shows "finite (ts_affects (tracker_abs t) `` set ps)"
proof -
  have "affects (it_pubkey_queries t) `` {p} = (case hm_get (it_pubkey_queries t) p of None \<Rightarrow> {} | Some s \<Rightarrow> s)" for p
    by (auto simp: affects_def split: option.splits)
  then have "finite (affects (it_pubkey_queries t) `` {p})" for p
    using assms by (auto simp: tracker_ok_def split: option.splits)
  then show ?thesis unfolding tracker_abs_affects Image_eq_UN [of _ "set ps"] by blast
qed

lemma invalidate_refines:
  assumes "tracker_ok t" "hash_order q_order" "hash_order p_order"
  shows "tracker_ok (snd (invalidate_for_pubkeys q_order p_order ps t))"
    "tracker_abs (snd (invalidate_for_pubkeys q_order p_order ps t)) = spec_invalidate ps (tracker_abs t)"
    "fst (invalidate_for_pubkeys q_order p_order ps t) = card (ts_affects (tracker_abs t) `` set ps)"
proof -
  have "set (q_order (ts_affects (tracker_abs t) `` set ps)) = ts_affects (tracker_abs t) `` set ps"
    using assms(2) finite_affected [OF assms(1)] by (simp add: hash_order_def)
  then show "tracker_ok (snd (invalidate_for_pubkeys q_order p_order ps t))"
    "tracker_abs (snd (invalidate_for_pubkeys q_order p_order ps t)) = spec_invalidate ps (tracker_abs t)"
    "fst (invalidate_for_pubkeys q_order p_order ps t) = card (ts_affects (tracker_abs t) `` set ps)"
    using drop_queries_refine [OF assms(1,3)]
    by (simp_all add: invalidate_for_pubkeys_def affected_batch_eq spec_invalidate_def Let_def)
qed


section \<open>Histories\<close>

datatype ('pk, 'b) tracker_op =
    Register query_hash "'pk list"
  | Materialize query_hash "'b materialized_query_result"
  | Invalidate "'pk list"
  | Clear

primrec apply_tracker ::
  "(query_hash set \<Rightarrow> query_hash list) \<Rightarrow> ('pk set \<Rightarrow> 'pk list) \<Rightarrow> ('pk, 'b) tracker_op \<Rightarrow>
   ('pk, 'b) invalidation_tracker \<Rightarrow> ('pk, 'b) invalidation_tracker" where
  "apply_tracker q_order p_order (Register q ps) t = register_query q ps t"
| "apply_tracker q_order p_order (Materialize q r) t = cache_materialized_result q r t"
| "apply_tracker q_order p_order (Invalidate ps) t = snd (invalidate_for_pubkeys q_order p_order ps t)"
| "apply_tracker q_order p_order Clear t = tracker_clear t"

primrec spec_tracker :: "('pk, 'b) tracker_op \<Rightarrow> ('pk, 'b) tracker_spec \<Rightarrow> ('pk, 'b) tracker_spec" where
  "spec_tracker (Register q ps) a = spec_register q ps a"
| "spec_tracker (Materialize q r) a = a \<lparr> ts_results := (ts_results a)(q \<mapsto> r) \<rparr>"
| "spec_tracker (Invalidate ps) a = spec_invalidate ps a"
| "spec_tracker Clear a = ts_empty"

lemma tracker_new_refines: "tracker_ok tracker_new" "tracker_abs tracker_new = ts_empty"
  by (simp_all add: tracker_ok_def tracker_abs_def tracker_new_def ts_empty_def hm.invar_empty hm.get_empty fun_eq_iff)

lemma tracker_clear_refines: "tracker_ok (tracker_clear t)" "tracker_abs (tracker_clear t) = ts_empty"
  using tracker_new_refines by (simp_all add: tracker_clear_def tracker_new_def)

lemma materialize_refines:
  assumes "tracker_ok t"
  shows "tracker_ok (cache_materialized_result q r t)"
    "tracker_abs (cache_materialized_result q r t) = (tracker_abs t) \<lparr> ts_results := (ts_results (tracker_abs t))(q \<mapsto> r) \<rparr>"
  using assms
  by (auto simp: tracker_ok_def tracker_abs_def cache_materialized_result_def hm.invar_ins hm.get_ins fun_eq_iff)

lemmas tracker_refines =
  register_query_refines materialize_refines invalidate_refines tracker_clear_refines

lemma apply_tracker_refines:
  assumes "tracker_ok t" "hash_order q_order" "hash_order p_order"
  shows "tracker_ok (apply_tracker q_order p_order x t) \<and>
    tracker_abs (apply_tracker q_order p_order x t) = spec_tracker x (tracker_abs t)"
  by (cases x) (simp_all add: tracker_refines assms)

lemma tracker_run_refines:
  assumes "hash_order q_order" "hash_order p_order"
  shows "tracker_ok (fold (apply_tracker q_order p_order) ops tracker_new) \<and>
    tracker_abs (fold (apply_tracker q_order p_order) ops tracker_new) = fold spec_tracker ops ts_empty"
proof (induction ops rule: rev_induct)
  case Nil
  then show ?case by (simp add: tracker_new_refines)
next
  case (snoc x ops)
  then show ?case
    using apply_tracker_refines [OF _ assms, of "fold (apply_tracker q_order p_order) ops tracker_new" x] by simp
qed

text \<open>A registered query is affected by its pubkeys, and only by pubkeys it was registered with.\<close>

lemma spec_registered_affects:
  assumes "ts_registered (fold spec_tracker ops ts_empty) q = Some ps" "p \<in> ps"
  shows "(p, q) \<in> ts_affects (fold spec_tracker ops ts_empty)"
  using assms
proof (induction ops arbitrary: q ps rule: rev_induct)
  case Nil
  then show ?case by (simp add: ts_empty_def)
next
  case (snoc x ops)
  then show ?case
    by (cases x)
      (auto simp: spec_register_def spec_invalidate_def spec_drop_def ts_empty_def restrict_map_def split: if_splits)
qed

lemma spec_affects_registered:
  assumes "(p, q) \<in> ts_affects (fold spec_tracker ops ts_empty)"
  shows "\<exists>ps. Register q ps \<in> set ops \<and> p \<in> set ps"
  using assms
proof (induction ops rule: rev_induct)
  case Nil
  then show ?case by (simp add: ts_empty_def)
next
  case (snoc x ops)
  then show ?case
    by (cases x) (auto simp: spec_register_def spec_invalidate_def spec_drop_def ts_empty_def)
qed

lemma card_hm_dom: "hm_invar m \<Longrightarrow> card (dom (hm_get m)) = length m"
  using distinct_card [of "map fst m"] by (simp add: hm_get_def [abs_def] hm_invar_def dom_map_of_conv_image_fst)


section \<open>Properties\<close>

text \<open>After any history of registrations, materialised results, invalidations and clears
  and for all iteration orders, the tracker answers as the relation between pubkeys and
  queries that the history describes.\<close>

theorem invalidation_tracker_refines_relation:
  assumes "hash_order q_order" "hash_order p_order"
    and "t = fold (apply_tracker q_order p_order) ops tracker_new" "a = fold spec_tracker ops ts_empty"
  shows "get_materialized_result q t = ts_results a q \<and> set (get_affected_queries q_order p t) = ts_affects a `` {p} \<and>
    get_affected_queries_batch ps t = ts_affects a `` set ps \<and> query_count t = card (dom (ts_registered a)) \<and>
    materialized_count t = card (dom (ts_results a))"
proof -
  have ok: "tracker_ok t" and abs: "tracker_abs t = a" using tracker_run_refines [OF assms(1,2), of ops] assms(3,4) by auto
  have "set (get_affected_queries q_order p t) = ts_affects a `` {p}"
    using assms(1) ok unfolding abs [symmetric]
    by (cases "hm_get (it_pubkey_queries t) p")
      (auto simp: get_affected_queries_def tracker_abs_def hash_order_def tracker_ok_def)
  then show ?thesis
    using ok unfolding abs [symmetric]
    by (simp add: affected_batch_eq get_materialized_result_def query_count_def materialized_count_def tracker_abs_def
        card_hm_dom tracker_ok_def)
qed

text \<open>C19: In every reachable state an invalidation for changed pubkeys removes the result of every
  query registered for one of them, keeps the result of every query never registered for one
  of them, and reports at least as many queries as it unregisters.\<close>

theorem invalidation_exact:
  assumes "hash_order q_order" "hash_order p_order"
    and "t = fold (apply_tracker q_order p_order) ops tracker_new"
    and "invalidate_for_pubkeys q_order p_order changed t = (n, t')"
  shows "(\<forall>q ps. hm_get (it_query_pubkeys t) q = Some ps \<and> ps \<inter> set changed \<noteq> {} \<longrightarrow>
      get_materialized_result q t' = None \<and> hm_get (it_query_pubkeys t') q = None) \<and>
    (\<forall>q. (\<forall>ps. Register q ps \<in> set ops \<longrightarrow> set ps \<inter> set changed = {}) \<longrightarrow>
      get_materialized_result q t' = get_materialized_result q t \<and>
      hm_get (it_query_pubkeys t') q = hm_get (it_query_pubkeys t) q) \<and>
    query_count t \<le> query_count t' + n"
proof -
  let ?a = "fold spec_tracker ops ts_empty" and ?A = "ts_affects (fold spec_tracker ops ts_empty) `` set changed"
  have ok: "tracker_ok t" and abs: "tracker_abs t = ?a" using tracker_run_refines [OF assms(1,2), of ops] assms(3) by auto
  note inv = invalidate_refines [OF ok assms(1,2), of changed, unfolded assms(4) abs fst_conv snd_conv]
  have get: "hm_get (it_query_pubkeys t) = ts_registered ?a" "hm_get (it_materialized_cache t) = ts_results ?a"
    unfolding abs [symmetric] by (simp_all add: tracker_abs_def)
  have get': "hm_get (it_query_pubkeys t') = ts_registered ?a |` (- ?A)" "hm_get (it_materialized_cache t') = ts_results ?a |` (- ?A)"
    using inv(2) by (auto simp: tracker_abs_def spec_invalidate_def spec_drop_def)
  have "query_count t = card (dom (ts_registered ?a))" "query_count t' = card (dom (ts_registered ?a) - ?A)"
    using ok inv(1) unfolding query_count_def tracker_ok_def
    by (simp_all add: card_hm_dom [symmetric] get get' Diff_eq)
  moreover have "finite ?A" using finite_affected [OF ok, of changed] by (simp add: abs)
  ultimately have "query_count t \<le> query_count t' + n"
    using inv(3) diff_card_le_card_Diff [of ?A "dom (ts_registered ?a)"] by simp
  moreover have "q \<in> ?A" if "ts_registered ?a q = Some ps" "ps \<inter> set changed \<noteq> {}" for q ps
    using spec_registered_affects [OF that(1)] that(2) by blast
  moreover have "q \<notin> ?A" if "\<forall>ps. Register q ps \<in> set ops \<longrightarrow> set ps \<inter> set changed = {}" for q
    using spec_affects_registered [of _ q ops] that by blast
  ultimately show ?thesis unfolding get_materialized_result_def get get' by (simp add: restrict_map_def)
qed


definition sample_result :: "u64 list materialized_query_result" where
  "sample_result = materialized_new [1] 5 (pb_new list_treemap)"

theorem invalidation_tracker_refines_relation_witness:
  "query_count (fold (apply_tracker sorted_list_of_set sorted_list_of_set)
     [Register [1] [10 :: nat, 11], Materialize [1] sample_result] tracker_new) = 1"
  using invalidation_tracker_refines_relation [OF hash_order_sorted hash_order_sorted refl refl,
      where ops = "[Register [1] [10 :: nat, 11], Materialize [1] sample_result]" and q = "[1]" and p = 10 and ps = "[]"]
  by (simp add: spec_register_def ts_empty_def)

theorem invalidation_exact_witness:
  "get_materialized_result [1] (snd (invalidate_for_pubkeys sorted_list_of_set sorted_list_of_set [11]
     (fold (apply_tracker sorted_list_of_set sorted_list_of_set)
        [Register [1] [10 :: nat, 11], Materialize [1] sample_result] tracker_new))) = None"
proof -
  let ?t = "fold (apply_tracker sorted_list_of_set sorted_list_of_set)
        [Register [1] [10 :: nat, 11], Materialize [1] sample_result] tracker_new"
  have "hm_get (it_query_pubkeys ?t) [1] = Some {10, 11}"
    by (simp add: register_query_def cache_materialized_result_def tracker_new_def hm_get_def hm_insert_def)
  moreover have "{10, 11} \<inter> set [11 :: nat] \<noteq> {}" by simp
  ultimately show ?thesis
    using invalidation_exact [OF hash_order_sorted hash_order_sorted refl prod.collapse [symmetric],
        of "[Register [1] [10 :: nat, 11], Materialize [1] sample_result]" "[11]"] by blast
qed

end
