(* ===== verification/Rate_Limiter.thy ===== *)
theory Rate_Limiter
  imports Prelude
begin

text \<open>
  The rate limiter of the RPC server (\<open>rpc-read-provider/src/middleware.rs\<close>).

  Instants are nanoseconds, so that \<open>duration_since\<close>, which saturates at zero, is subtraction
  on naturals.  Each operation reads the clock once; the time it reads is its argument.  The
  write lock makes \<open>allow\<close> atomic.  The request logger only logs and is left out.
\<close>

section \<open>The limiter\<close>

record ip_rate_limit_state =
  iw_timestamps :: "nat list"
  iw_window_start :: nat

record rate_limiter =
  rl_limit :: nat
  rl_ip_windows :: "(string, ip_rate_limit_state) hmap"

definition rate_limiter_new :: "nat \<Rightarrow> rate_limiter" where
  "rate_limiter_new limit = \<lparr> rl_limit = limit, rl_ip_windows = [] \<rparr>"

definition window_duration :: nat where
  "window_duration = 1000000000"

definition reset_window :: "nat \<Rightarrow> ip_rate_limit_state \<Rightarrow> ip_rate_limit_state" where
  "reset_window now s =
     (if now - iw_window_start s > window_duration then \<lparr> iw_timestamps = [], iw_window_start = now \<rparr> else s)"

definition ip_allow :: "nat \<Rightarrow> nat \<Rightarrow> ip_rate_limit_state option \<Rightarrow> bool \<times> ip_rate_limit_state" where
  "ip_allow limit now entry =
     (let s0 = (case entry of None \<Rightarrow> \<lparr> iw_timestamps = [], iw_window_start = now \<rparr> | Some s \<Rightarrow> s);
          s1 = reset_window now s0;
          s2 = s1 \<lparr> iw_timestamps := filter (\<lambda>ts. now - ts < window_duration) (iw_timestamps s1) \<rparr>
      in if length (iw_timestamps s2) \<ge> limit then (False, s2)
         else (True, s2 \<lparr> iw_timestamps := iw_timestamps s2 @ [now] \<rparr>))"

definition allow :: "nat \<Rightarrow> string \<Rightarrow> rate_limiter \<Rightarrow> bool \<times> rate_limiter" where
  "allow now ip rl =
     (let (ok, s) = ip_allow (rl_limit rl) now (hm_get (rl_ip_windows rl) ip)
      in (ok, rl \<lparr> rl_ip_windows := hm_insert ip s (rl_ip_windows rl) \<rparr>))"

definition get_count :: "nat \<Rightarrow> string \<Rightarrow> rate_limiter \<Rightarrow> nat" where
  "get_count now ip rl =
     (case hm_get (rl_ip_windows rl) ip of
        Some s \<Rightarrow> length (filter (\<lambda>ts. now - ts < window_duration) (iw_timestamps s))
      | None \<Rightarrow> 0)"

definition rate_limiter_clear :: "rate_limiter \<Rightarrow> rate_limiter" where
  "rate_limiter_clear rl = rl \<lparr> rl_ip_windows := [] \<rparr>"


section \<open>Sequences of requests\<close>

text \<open>A log of the admitted requests beside the limiter; \<open>admitted\<close> are the times of one address.\<close>

definition rl_step :: "nat \<times> string \<Rightarrow> rate_limiter \<times> (nat \<times> string) list \<Rightarrow> rate_limiter \<times> (nat \<times> string) list" where
  "rl_step c s = (let (ok, rl) = allow (fst c) (snd c) (fst s) in (rl, if ok then snd s @ [c] else snd s))"

definition rl_run :: "nat \<Rightarrow> (nat \<times> string) list \<Rightarrow> rate_limiter \<times> (nat \<times> string) list" where
  "rl_run limit calls = fold rl_step calls (rate_limiter_new limit, [])"

definition admitted :: "string \<Rightarrow> (nat \<times> string) list \<Rightarrow> nat list" where
  "admitted ip log = map fst (filter (\<lambda>c. snd c = ip) log)"

definition in_second :: "nat \<Rightarrow> nat \<Rightarrow> bool" where
  "in_second t x \<longleftrightarrow> t \<le> x \<and> x < t + window_duration"


section \<open>The state of one address\<close>

text \<open>
  \<open>old\<close> are the requests admitted before the window was last reset and \<open>cur\<close> those since; the
  timestamps are the recent ones of \<open>cur\<close>.
\<close>

definition window_split :: "nat \<Rightarrow> nat \<Rightarrow> ip_rate_limit_state \<Rightarrow> nat list \<Rightarrow> nat list \<Rightarrow> bool" where
  "window_split limit prev s old cur \<longleftrightarrow>
     iw_window_start s \<le> prev \<and> (\<forall>x\<in>set old. x \<le> iw_window_start s) \<and> (\<forall>x\<in>set cur. iw_window_start s \<le> x \<and> x \<le> prev) \<and>
     (\<forall>now\<ge>prev. filter (\<lambda>x. now - x < window_duration) (iw_timestamps s) = filter (\<lambda>x. now - x < window_duration) cur) \<and>
     (\<forall>t. cnt (in_second t) cur \<le> limit) \<and>
     cnt (\<lambda>x. iw_window_start s - x < window_duration) old \<le> limit \<and>
     (\<forall>t. cnt (in_second t) (old @ cur) \<le> 2 * limit)"

definition ip_ok :: "nat \<Rightarrow> nat \<Rightarrow> ip_rate_limit_state option \<Rightarrow> nat list \<Rightarrow> bool" where
  "ip_ok limit prev entry acc \<longleftrightarrow>
     (case entry of None \<Rightarrow> acc = [] | Some s \<Rightarrow> \<exists>old cur. acc = old @ cur \<and> window_split limit prev s old cur)"

lemma cnt_append [simp]: "cnt P (xs @ ys) = cnt P xs + cnt P ys"
  by (simp add: cnt_def)

lemma cnt_Nil [simp]: "cnt P [] = 0"
  by (simp add: cnt_def)

lemma cnt_single [simp]: "cnt P [x] = of_bool (P x)"
  by (simp add: cnt_def)

lemma cnt_mono: "(\<And>x. x \<in> set xs \<Longrightarrow> P x \<Longrightarrow> Q x) \<Longrightarrow> cnt P xs \<le> cnt Q xs"
  unfolding cnt_def by (induction xs) (auto simp: le_Suc_eq)

lemma cnt_none: "(\<And>x. x \<in> set xs \<Longrightarrow> \<not> P x) \<Longrightarrow> cnt P xs = 0"
  by (simp add: cnt_def filter_empty_conv)

lemma window_pos: "0 < window_duration"
  by (simp add: window_duration_def)

lemma window_split_recent:
  "window_split limit prev s old cur \<Longrightarrow> prev \<le> now \<Longrightarrow>
     filter (\<lambda>x. now - x < window_duration) (iw_timestamps s) = filter (\<lambda>x. now - x < window_duration) cur"
  unfolding window_split_def by blast

lemma window_split_later: "window_split limit prev s old cur \<Longrightarrow> prev \<le> now \<Longrightarrow> window_split limit now s old cur"
  unfolding window_split_def by (auto intro: order_trans)

text \<open>A reset moves the admitted requests to the old ones.\<close>

lemma window_split_reset:
  assumes "window_split limit prev s old cur" "prev \<le> now" "now - iw_window_start s > window_duration"
  shows "window_split limit now \<lparr> iw_timestamps = [], iw_window_start = now \<rparr> (old @ cur) []"
proof -
  have "cnt (\<lambda>x. now - x < window_duration) old = 0"
    using assms unfolding window_split_def by (intro cnt_none) force
  moreover have "cnt (\<lambda>x. now - x < window_duration) cur \<le> cnt (in_second (now + 1 - window_duration)) cur"
    using assms unfolding window_split_def in_second_def by (intro cnt_mono) (force simp: window_duration_def)
  ultimately have "cnt (\<lambda>x. now - x < window_duration) (old @ cur) \<le> limit"
    using assms(1) unfolding window_split_def by (metis add_0 cnt_append order_trans)
  then show ?thesis using assms unfolding window_split_def by (auto intro: order_trans)
qed

lemma window_split_new:
  "window_split limit now \<lparr> iw_timestamps = [], iw_window_start = now \<rparr> [] []"
  by (simp add: window_split_def)

lemma window_split_prune:
  assumes "window_split limit now s old cur"
  shows "window_split limit now (s \<lparr> iw_timestamps := filter (\<lambda>ts. now - ts < window_duration) (iw_timestamps s) \<rparr>) old cur"
proof -
  have "filter (\<lambda>x. t - x < window_duration) (filter (\<lambda>ts. now - ts < window_duration) xs) =
      filter (\<lambda>x. t - x < window_duration) xs" if "now \<le> t" for t xs
    using that by (induction xs) auto
  then show ?thesis using assms unfolding window_split_def by simp
qed

lemma window_split_admit:
  assumes "window_split limit now s old cur" "length (iw_timestamps s) < limit"
    and pruned: "filter (\<lambda>x. now - x < window_duration) (iw_timestamps s) = iw_timestamps s"
  shows "window_split limit now (s \<lparr> iw_timestamps := iw_timestamps s @ [now] \<rparr>) old (cur @ [now])"
proof -
  have recent: "cnt (\<lambda>x. now - x < window_duration) cur < limit"
    unfolding cnt_def window_split_recent [OF assms(1) order_refl, symmetric] pruned by (rule assms(2))
  have cur: "cnt (in_second t) cur + of_bool (in_second t now) \<le> limit" for t
  proof (cases "in_second t now")
    case True
    have "cnt (in_second t) cur \<le> cnt (\<lambda>x. now - x < window_duration) cur"
      using assms(1) True by (intro cnt_mono) (auto simp: in_second_def window_split_def)
    with recent True show ?thesis by simp
  next
    case False
    then show ?thesis using assms(1) by (simp add: window_split_def)
  qed
  have old: "cnt (in_second t) old \<le> limit" if "in_second t now" for t
  proof -
    have "cnt (in_second t) old \<le> cnt (\<lambda>x. iw_window_start s - x < window_duration) old"
      using assms(1) that window_pos by (intro cnt_mono) (auto simp: in_second_def window_split_def)
    then show ?thesis using assms(1) by (auto simp: window_split_def)
  qed
  have "cnt (in_second t) old + (cnt (in_second t) cur + of_bool (in_second t now)) \<le> 2 * limit" for t
  proof (cases "in_second t now")
    case True
    then show ?thesis using cur [of t] old [of t] by simp
  next
    case False
    then show ?thesis using assms(1) by (simp add: window_split_def)
  qed
  then show ?thesis using assms(1) cur by (auto simp: window_split_def)
qed

lemma ip_allow_ok:
  assumes "ip_ok limit prev entry acc" "prev \<le> now" "ip_allow limit now entry = (ok, s)"
  shows "ip_ok limit now (Some s) (if ok then acc @ [now] else acc) \<and>
    (\<not> ok \<longrightarrow> limit \<le> cnt (\<lambda>x. now - x < window_duration) acc)"
proof -
  define s0 where "s0 = (case entry of None \<Rightarrow> \<lparr> iw_timestamps = [], iw_window_start = now \<rparr> | Some s \<Rightarrow> s)"
  define s1 where "s1 = reset_window now s0"
  define s2 where "s2 = s1 \<lparr> iw_timestamps := filter (\<lambda>ts. now - ts < window_duration) (iw_timestamps s1) \<rparr>"
  have "\<exists>old cur. acc = old @ cur \<and> window_split limit now s0 old cur"
  proof (cases entry)
    case None
    then show ?thesis using assms(1) window_split_new [of limit now] by (auto simp: ip_ok_def s0_def)
  next
    case (Some s)
    then obtain old cur where "acc = old @ cur" "window_split limit prev s old cur"
      using assms(1) unfolding ip_ok_def by auto
    moreover have "s0 = s" by (simp add: s0_def Some)
    ultimately show ?thesis using window_split_later [OF _ assms(2)] by blast
  qed
  then obtain old0 cur0 where 0: "acc = old0 @ cur0" "window_split limit now s0 old0 cur0" by blast
  have "\<exists>old cur. acc = old @ cur \<and> window_split limit now s1 old cur"
  proof (cases "now - iw_window_start s0 > window_duration")
    case True
    then have "window_split limit now s1 (old0 @ cur0) []"
      using window_split_reset [OF 0(2) order_refl] by (simp add: s1_def reset_window_def)
    moreover have "acc = (old0 @ cur0) @ []" using 0(1) by simp
    ultimately show ?thesis by blast
  next
    case False
    then have "s1 = s0" by (simp add: s1_def reset_window_def)
    then show ?thesis using 0 by blast
  qed
  then obtain old cur where acc: "acc = old @ cur" and "window_split limit now s1 old cur" by blast
  then have 2: "window_split limit now s2 old cur" unfolding s2_def by (intro window_split_prune)
  have s: "(ok, s) = (if length (iw_timestamps s2) \<ge> limit then (False, s2)
      else (True, s2 \<lparr> iw_timestamps := iw_timestamps s2 @ [now] \<rparr>))"
    using assms(3) unfolding ip_allow_def Let_def s0_def s1_def s2_def by simp
  have pruned: "filter (\<lambda>x. now - x < window_duration) (iw_timestamps s2) = iw_timestamps s2" by (simp add: s2_def)
  have "length (iw_timestamps s2) = cnt (\<lambda>x. now - x < window_duration) cur"
    unfolding cnt_def window_split_recent [OF 2 order_refl, symmetric] pruned ..
  then have full: "length (iw_timestamps s2) \<le> cnt (\<lambda>x. now - x < window_duration) acc" by (simp add: acc)
  show ?thesis
  proof (cases "length (iw_timestamps s2) \<ge> limit")
    case True
    then have "\<not> ok" "s = s2" using s by simp_all
    moreover have "ip_ok limit now (Some s2) acc" unfolding ip_ok_def option.case using acc 2 by blast
    ultimately show ?thesis using full True by simp
  next
    case False
    then have "window_split limit now (s2 \<lparr> iw_timestamps := iw_timestamps s2 @ [now] \<rparr>) old (cur @ [now])"
      using window_split_admit [OF 2 _ pruned] by simp
    then have "ip_ok limit now (Some (s2 \<lparr> iw_timestamps := iw_timestamps s2 @ [now] \<rparr>)) (acc @ [now])"
      unfolding ip_ok_def option.case acc append_assoc by blast
    moreover have "ok" "s = s2 \<lparr> iw_timestamps := iw_timestamps s2 @ [now] \<rparr>" using s False by simp_all
    ultimately show ?thesis by simp
  qed
qed


section \<open>Whole runs\<close>

lemma admitted_snoc: "admitted ip (log @ [c]) = (if snd c = ip then admitted ip log @ [fst c] else admitted ip log)"
  by (simp add: admitted_def)

lemma rl_run_snoc: "rl_run limit (calls @ [c]) = rl_step c (rl_run limit calls)"
  by (simp add: rl_run_def)

text \<open>No request comes before \<open>calls_end\<close>, the time of the last one.\<close>

definition calls_end :: "(nat \<times> string) list \<Rightarrow> nat" where
  "calls_end calls = (if calls = [] then 0 else fst (last calls))"

lemma rl_run_ok:
  assumes "sorted (map fst calls)"
  shows "rl_limit (fst (rl_run limit calls)) = limit \<and> hm_invar (rl_ip_windows (fst (rl_run limit calls))) \<and>
    (\<forall>ip. ip_ok limit (calls_end calls) (hm_get (rl_ip_windows (fst (rl_run limit calls))) ip)
       (admitted ip (snd (rl_run limit calls))))"
  using assms
proof (induction calls rule: rev_induct)
  case Nil
  then show ?case
    by (simp add: rl_run_def rate_limiter_new_def hm.invar_empty hm.get_empty ip_ok_def admitted_def)
next
  case (snoc c calls)
  obtain now ip0 where c: "c = (now, ip0)" by (cases c)
  obtain rl log where r: "rl_run limit calls = (rl, log)" by (cases "rl_run limit calls")
  obtain ok s where a: "ip_allow (rl_limit rl) now (hm_get (rl_ip_windows rl) ip0) = (ok, s)" by (metis surj_pair)
  have IH: "rl_limit rl = limit" "hm_invar (rl_ip_windows rl)"
      "ip_ok limit (calls_end calls) (hm_get (rl_ip_windows rl) ip) (admitted ip log)" for ip
    using snoc by (simp_all add: r sorted_append)
  have le: "calls_end calls \<le> now"
    using snoc.prems by (auto simp: calls_end_def c sorted_append)
  have step: "rl_run limit (calls @ [c]) =
      (rl \<lparr> rl_ip_windows := hm_insert ip0 s (rl_ip_windows rl) \<rparr>, if ok then log @ [c] else log)"
    unfolding rl_run_snoc r by (simp add: rl_step_def allow_def c a)
  have later: "ip_ok limit now (hm_get (rl_ip_windows rl) ip) (admitted ip log)" for ip
    using IH(3) [of ip] le window_split_later by (fastforce simp: ip_ok_def split: option.splits)
  have "ip_ok limit now (Some s) (if ok then admitted ip0 log @ [now] else admitted ip0 log)"
    using ip_allow_ok [OF IH(3) le] a IH(1) by blast
  then show ?case
    unfolding step using IH(1,2) later
    by (auto simp: hm.invar_ins hm.get_ins admitted_snoc c calls_end_def)
qed

text \<open>Filling the window of one address at one instant.\<close>

lemma rl_fill:
  assumes "rl_limit rl = limit" "hm_invar (rl_ip_windows rl)" "hm_get (rl_ip_windows rl) ip = Some s"
    and "now - iw_window_start s \<le> window_duration" "iw_timestamps s = replicate j now" "j + k \<le> limit"
  shows "\<exists>rl'. fold rl_step (replicate k (now, ip)) (rl, log) = (rl', log @ replicate k (now, ip)) \<and>
    rl_limit rl' = limit \<and> hm_invar (rl_ip_windows rl') \<and>
    hm_get (rl_ip_windows rl') ip = Some (s \<lparr> iw_timestamps := replicate (j + k) now \<rparr>)"
  using assms
proof (induction k arbitrary: rl s j log)
  case 0
  then show ?case by simp
next
  case (Suc k)
  let ?s = "s \<lparr> iw_timestamps := replicate (Suc j) now \<rparr>"
  let ?rl = "rl \<lparr> rl_ip_windows := hm_insert ip ?s (rl_ip_windows rl) \<rparr>"
  have "ip_allow limit now (Some s) = (True, ?s)"
    using Suc.prems window_pos
    by (simp add: ip_allow_def reset_window_def filter_replicate replicate_append_same)
  then have "rl_step (now, ip) (rl, log) = (?rl, log @ [(now, ip)])"
    using Suc.prems by (simp add: rl_step_def allow_def)
  then show ?case
    using Suc.IH [of ?rl ?s "Suc j" "log @ [(now, ip)]"] Suc.prems by (simp add: hm.invar_ins hm.get_ins)
qed


text \<open>One request, then the limit exactly one second later and again right after that.\<close>

lemma rl_admit:
  assumes "rl_limit rl = limit" "hm_invar (rl_ip_windows rl)" "ip_allow limit now (hm_get (rl_ip_windows rl) ip) = (True, s)"
  obtains rl' where "rl_step (now, ip) (rl, log) = (rl', log @ [(now, ip)])" "rl_limit rl' = limit"
    "hm_invar (rl_ip_windows rl')" "hm_get (rl_ip_windows rl') ip = Some s"
  using assms by (simp add: rl_step_def allow_def hm.invar_ins hm.get_ins)

lemma rl_burst:
  assumes "limit = Suc n"
  shows "snd (rl_run limit ((0, ip) # replicate limit (window_duration, ip) @ replicate limit (Suc window_duration, ip))) =
    (0, ip) # replicate limit (window_duration, ip) @ replicate limit (Suc window_duration, ip)"
proof -
  let ?W = window_duration and ?s = "\<lambda>ts w. \<lparr> iw_timestamps = ts, iw_window_start = w \<rparr>"
  have new: "rl_limit (rate_limiter_new limit) = limit" "hm_invar (rl_ip_windows (rate_limiter_new limit))"
    by (simp_all add: rate_limiter_new_def hm.invar_empty)
  have first: "ip_allow limit 0 (hm_get (rl_ip_windows (rate_limiter_new limit)) ip) = (True, ?s [0] 0)"
    by (simp add: ip_allow_def reset_window_def rate_limiter_new_def hm.get_empty assms)
  obtain rl0 where 0: "rl_step (0, ip) (rate_limiter_new limit, []) = (rl0, [] @ [(0, ip)])" "rl_limit rl0 = limit"
      "hm_invar (rl_ip_windows rl0)" "hm_get (rl_ip_windows rl0) ip = Some (?s [0] 0)"
    by (rule rl_admit [OF new first])
  have "ip_allow limit ?W (hm_get (rl_ip_windows rl0) ip) = (True, ?s [?W] 0)"
    using window_pos by (simp add: 0(4) ip_allow_def reset_window_def assms)
  then obtain rl1 where 1: "rl_step (?W, ip) (rl0, [(0, ip)]) = (rl1, [(0, ip)] @ [(?W, ip)])" "rl_limit rl1 = limit"
      "hm_invar (rl_ip_windows rl1)" "hm_get (rl_ip_windows rl1) ip = Some (?s [?W] 0)"
    by (rule rl_admit [OF 0(2,3)])
  obtain rl2 where 2: "fold rl_step (replicate n (?W, ip)) (rl1, [(0, ip), (?W, ip)]) =
        (rl2, [(0, ip), (?W, ip)] @ replicate n (?W, ip))" "rl_limit rl2 = limit"
      "hm_invar (rl_ip_windows rl2)" "hm_get (rl_ip_windows rl2) ip = Some (?s (replicate (Suc n) ?W) 0)"
    using rl_fill [OF 1(2,3,4), of ?W 1 n "[(0, ip), (?W, ip)]"] assms by auto
  have "ip_allow limit (Suc ?W) (hm_get (rl_ip_windows rl2) ip) = (True, ?s [Suc ?W] (Suc ?W))"
    by (simp add: 2(4) ip_allow_def reset_window_def assms)
  then obtain rl3 where 3: "rl_step (Suc ?W, ip) (rl2, (0, ip) # replicate limit (?W, ip)) =
        (rl3, ((0, ip) # replicate limit (?W, ip)) @ [(Suc ?W, ip)])" "rl_limit rl3 = limit"
      "hm_invar (rl_ip_windows rl3)" "hm_get (rl_ip_windows rl3) ip = Some (?s [Suc ?W] (Suc ?W))"
    by (rule rl_admit [OF 2(2,3)])
  have "\<exists>rl4. fold rl_step (replicate n (Suc ?W, ip)) (rl3, ((0, ip) # replicate limit (?W, ip)) @ [(Suc ?W, ip)]) =
        (rl4, (((0, ip) # replicate limit (?W, ip)) @ [(Suc ?W, ip)]) @ replicate n (Suc ?W, ip))"
    using rl_fill [OF 3(2,3,4), of "Suc ?W" 1 n "((0, ip) # replicate limit (?W, ip)) @ [(Suc ?W, ip)]"] assms by auto
  then show ?thesis unfolding rl_run_def using 0(1) 1(1) 2(1) 3(1) by (auto simp: assms)
qed

lemma rl_burst_count:
  "\<exists>burst. sorted (map fst burst) \<and> cnt (in_second window_duration) (admitted ip (snd (rl_run limit burst))) = 2 * limit"
proof (cases limit)
  case 0
  then show ?thesis by (intro exI [of _ "[]"]) (simp add: rl_run_def admitted_def)
next
  case (Suc n)
  let ?burst = "(0, ip) # replicate limit (window_duration, ip) @ replicate limit (Suc window_duration, ip)"
  have "sorted (map fst ?burst)" by (auto simp: sorted_append)
  moreover have "cnt (in_second window_duration) (admitted ip ?burst) = 2 * limit"
    by (simp add: admitted_def cnt_def in_second_def window_duration_def filter_replicate)
  ultimately show ?thesis using rl_burst [OF Suc, of ip] by metis
qed


lemma rl_second_bound:
  assumes "sorted (map fst calls)"
  shows "cnt (in_second t) (admitted ip (snd (rl_run limit calls))) \<le> 2 * limit"
  using rl_run_ok [OF assms, of limit]
  by (auto simp: ip_ok_def window_split_def split: option.splits dest!: spec [of _ ip])


section \<open>Properties\<close>

text \<open>C21: In any order of requests of any addresses with non-decreasing times, at most twice
  the limit of one address is admitted within any second, and a request is rejected only when
  the limit was admitted within the second before it; the factor two is reached for every
  limit, because an expired window forgets the requests of the last second.\<close>

theorem rate_limiter_bounds:
  assumes "sorted (map fst calls)"
  shows "cnt (in_second t) (admitted ip (snd (rl_run limit calls))) \<le> 2 * limit \<and>
    (calls_end calls \<le> now \<and> \<not> fst (allow now ip (fst (rl_run limit calls))) \<longrightarrow>
       limit \<le> cnt (\<lambda>x. now - x < window_duration) (admitted ip (snd (rl_run limit calls)))) \<and>
    (\<exists>burst. sorted (map fst burst) \<and>
       cnt (in_second window_duration) (admitted ip (snd (rl_run limit burst))) = 2 * limit)"
proof -
  note run = rl_run_ok [OF assms, of limit]
  have "limit \<le> cnt (\<lambda>x. now - x < window_duration) (admitted ip (snd (rl_run limit calls)))"
    if "calls_end calls \<le> now" "\<not> fst (allow now ip (fst (rl_run limit calls)))"
  proof -
    obtain ok s where a: "ip_allow limit now (hm_get (rl_ip_windows (fst (rl_run limit calls))) ip) = (ok, s)"
      by (metis surj_pair)
    then have "\<not> ok" using that(2) run by (simp add: allow_def)
    then show ?thesis using ip_allow_ok [OF _ that(1) a] run by blast
  qed
  then show ?thesis using rl_second_bound [OF assms] rl_burst_count by blast
qed

theorem rate_limiter_bounds_witness:
  "\<not> fst (allow 2 ''a'' (fst (rl_run 2 [(0, ''a''), (1, ''a'')]))) \<and>
   2 \<le> cnt (\<lambda>x. 2 - x < window_duration) (admitted ''a'' (snd (rl_run 2 [(0, ''a''), (1, ''a'')])))"
proof -
  have "\<not> fst (allow 2 ''a'' (fst (rl_run 2 [(0, ''a''), (1, ''a'')])))" 
    by (simp add: rl_run_def rate_limiter_new_def rl_step_def allow_def ip_allow_def reset_window_def window_duration_def
        hm_get_def hm_insert_def)
  moreover have "calls_end [(0, ''a''), (1, ''a'')] \<le> 2" "sorted (map fst [(0 :: nat, ''a''), (1, ''a'')])"
    by (simp_all add: calls_end_def)
  ultimately show ?thesis using rate_limiter_bounds [of "[(0, ''a''), (1, ''a'')]" 0 "''a''" 2 2] by blast
qed

end
