(* ===== verification/Rpc_Server.thy ===== *)
theory Rpc_Server
  imports Rpc_Types Rate_Limiter Std_Text
begin

text \<open>
  The RPC server: method handlers (\<open>rpc-read-provider/src/methods.rs\<close>), errors, state and the
  request handler (\<open>server.rs\<close>).

  From crates and therefore arguments: parsing a pubkey (\<open>from_str\<close>, with the text of its
  error), parsing a request body (\<open>from_slice\<close>) and writing a JSON value (\<open>to_vec\<close>,
  \<open>to_text\<close>).  The clock is read by the rate limiter.  The accept
  loop spawns a task per connection; tasks share the limiter and the counter.
\<close>

section \<open>Errors\<close>

datatype rpc_error =
    MethodNotFound string
  | InvalidParams string
  | InternalError string
  | RateLimited
  | ParseError string

fun rpc_error_string :: "rpc_error \<Rightarrow> string" where
  "rpc_error_string (MethodNotFound m) = ''Method not found: '' @ m"
| "rpc_error_string (InvalidParams m) = ''Invalid params: '' @ m"
| "rpc_error_string (InternalError m) = ''Internal error: '' @ m"
| "rpc_error_string RateLimited = ''Rate limited''"
| "rpc_error_string (ParseError m) = ''Parse error: '' @ m"

fun rpc_error_code :: "rpc_error \<Rightarrow> int \<times> string" where
  "rpc_error_code (MethodNotFound m) = (- 32601, ''Method not found'')"
| "rpc_error_code (InvalidParams m) = (- 32602, ''Invalid params'')"
| "rpc_error_code (InternalError m) = (- 32603, ''Internal error'')"
| "rpc_error_code RateLimited = (- 32005, ''Rate limited'')"
| "rpc_error_code (ParseError m) = (- 32700, ''Parse error'')"

definition to_json_rpc_error :: "rpc_error \<Rightarrow> json option \<Rightarrow> json" where
  "to_json_rpc_error err rid =
     (let (code, message) = rpc_error_code err
      in JObject [(''jsonrpc'', JString ''2.0''),
           (''error'', JObject [(''code'', JNumber code), (''message'', JString message), (''data'', JString (rpc_error_string err))]),
           (''id'', json_opt rid)])"


section \<open>Method handlers\<close>

definition response_context_json :: json where
  "response_context_json = JObject [(''slot'', JNumber 0), (''apiVersion'', JString ''synapse-hyperplane/0.1.0'')]"

definition handle_get_account_info :: "(string \<Rightarrow> (string, 'pk) result) \<Rightarrow> json \<Rightarrow> (rpc_error, json) result" where
  "handle_get_account_info from_str params0 =
     (case as_array params0 of
        None \<Rightarrow> Err (InvalidParams ''Expected array'')
      | Some params \<Rightarrow>
          if params = [] then Err (InvalidParams ''Missing pubkey'')
          else case as_str (params ! 0) of
              None \<Rightarrow> Err (InvalidParams ''Pubkey must be string'')
            | Some pubkey_str \<Rightarrow>
                (case from_str pubkey_str of
                   Err e \<Rightarrow> Err (InvalidParams (''Invalid pubkey: '' @ e))
                 | Panic \<Rightarrow> Panic
                 | Ok pubkey \<Rightarrow> Ok (JObject [(''context'', response_context_json), (''value'', JNull)])))"

fun parse_pubkeys :: "(string \<Rightarrow> (string, 'pk) result) \<Rightarrow> json list \<Rightarrow> (rpc_error, 'pk list) result" where
  "parse_pubkeys from_str [] = Ok []"
| "parse_pubkeys from_str (v # vs) =
     (case as_str v of
        None \<Rightarrow> Err (InvalidParams ''Pubkey must be string'')
      | Some pk_str \<Rightarrow>
          (case from_str pk_str of
             Err e \<Rightarrow> Err (InvalidParams (''Invalid pubkey '' @ pk_str @ '': '' @ e))
           | Panic \<Rightarrow> Panic
           | Ok pubkey \<Rightarrow> rbind (parse_pubkeys from_str vs) (\<lambda>pubkeys. Ok (pubkey # pubkeys))))"

definition handle_get_multiple_accounts :: "(string \<Rightarrow> (string, 'pk) result) \<Rightarrow> json \<Rightarrow> (rpc_error, json) result" where
  "handle_get_multiple_accounts from_str params0 =
     (case as_array params0 of
        None \<Rightarrow> Err (InvalidParams ''Expected array'')
      | Some params \<Rightarrow>
          if params = [] then Err (InvalidParams ''Missing pubkeys'')
          else case as_array (params ! 0) of
              None \<Rightarrow> Err (InvalidParams ''Pubkeys must be array'')
            | Some pubkeys_arr \<Rightarrow>
                rbind (parse_pubkeys from_str pubkeys_arr) (\<lambda>pubkeys.
                  if length pubkeys > 1000 then Err (InvalidParams ''Batch size exceeds limit of 1000'')
                  else Ok (JObject [(''context'', response_context_json), (''value'', JArray (replicate (length pubkeys) JNull))])))"


section \<open>The server\<close>

record rpc_server_config =
  sv_bind :: string
  sv_workers :: nat
  sv_max_concurrent :: nat
  sv_rate_limit_per_ip :: nat
  sv_enable_cors :: bool
  sv_health_endpoint :: bool
  sv_metrics_endpoint :: bool

definition rpc_server_config_default :: rpc_server_config where
  "rpc_server_config_default =
     \<lparr> sv_bind = ''0.0.0.0:8898'', sv_workers = 32, sv_max_concurrent = 1000, sv_rate_limit_per_ip = 100, sv_enable_cors = True,
       sv_health_endpoint = True, sv_metrics_endpoint = True \<rparr>"

record rpc_server_state =
  ss_request_count :: u64
  ss_rate_limiter :: rate_limiter

definition server_state_new :: "rpc_server_config \<Rightarrow> rpc_server_state" where
  "server_state_new config =
     \<lparr> ss_request_count = 0, ss_rate_limiter = rate_limiter_new (sv_rate_limit_per_ip config) \<rparr>"

definition increment_request_count :: "rpc_server_state \<Rightarrow> u64 \<times> rpc_server_state" where
  "increment_request_count s = (ss_request_count s, s \<lparr> ss_request_count := ss_request_count s + 1 \<rparr>)"

record rpc_request =
  rq_jsonrpc :: string
  rq_method :: string
  rq_params :: json
  rq_id :: "json option"

definition rpc_response_json :: "json option \<Rightarrow> json option \<Rightarrow> json option \<Rightarrow> json" where
  "rpc_response_json value error rid =
     JObject [(''jsonrpc'', JString ''2.0''), (''result'', json_opt value), (''error'', json_opt error), (''id'', json_opt rid)]"

datatype http_method = GET | POST | Other_Method string

record http_response =
  hr_status :: nat
  hr_headers :: "(string \<times> string) list"
  hr_body :: "byte list"

record rpc_codecs =
  cd_from_slice :: "byte list \<Rightarrow> (string, rpc_request) result"
  cd_to_vec :: "json \<Rightarrow> byte list option"
  cd_to_text :: "json \<Rightarrow> byte list"

definition json_bytes :: "rpc_codecs \<Rightarrow> json \<Rightarrow> byte list" where
  "json_bytes C v = (case cd_to_vec C v of Some bytes \<Rightarrow> bytes | None \<Rightarrow> [])"

definition ascii :: "string \<Rightarrow> byte list" where
  "ascii s = map of_char s"

definition json_response :: "byte list \<Rightarrow> nat \<Rightarrow> http_response" where
  "json_response body status =
     \<lparr> hr_status = status, hr_headers = [(''Content-Type'', ''application/json''), (''Access-Control-Allow-Origin'', ''*'')],
       hr_body = body \<rparr>"

definition handle_health :: "rpc_codecs \<Rightarrow> http_response" where
  "handle_health C =
     \<lparr> hr_status = 200, hr_headers = [(''Content-Type'', ''application/json'')],
       hr_body = cd_to_text C (JObject [(''status'', JString ''ok''), (''version'', JString ''synapse-hyperplane/0.1.0'')]) \<rparr>"

definition newline :: string where
  "newline = [char_of (10 :: nat)]"

definition handle_metrics :: "rpc_server_state \<Rightarrow> http_response" where
  "handle_metrics s =
     \<lparr> hr_status = 200, hr_headers = [(''Content-Type'', ''text/plain; version=0.0.4'')],
       hr_body = ascii (''# HELP synapse_requests_total Total RPC requests'' @ newline @
         ''# TYPE synapse_requests_total counter'' @ newline @
         ''synapse_requests_total '' @ decimal (unat (ss_request_count s)) @ newline) \<rparr>"

definition plain_response :: "nat \<Rightarrow> string \<Rightarrow> http_response" where
  "plain_response status body = \<lparr> hr_status = status, hr_headers = [], hr_body = ascii body \<rparr>"

definition route_method :: "(string \<Rightarrow> (string, 'pk) result) \<Rightarrow> rpc_request \<Rightarrow> (rpc_error, json) result" where
  "route_method from_str req =
     (if rq_method req = ''getAccountInfo'' then handle_get_account_info from_str (rq_params req)
      else if rq_method req = ''getMultipleAccounts'' then handle_get_multiple_accounts from_str (rq_params req)
      else Err (MethodNotFound (rq_method req)))"

text \<open>\<open>body\<close> is \<open>None\<close> when the connection breaks before the body is read, a transport error.\<close>

definition handle_request ::
  "rpc_codecs \<Rightarrow> (string \<Rightarrow> (string, 'pk) result) \<Rightarrow> nat \<Rightarrow> http_method \<Rightarrow> string \<Rightarrow> string \<Rightarrow> byte list option \<Rightarrow>
   rpc_server_state \<Rightarrow> (unit, http_response) result \<times> rpc_server_state" where
  "handle_request C from_str now meth path ip body s =
     (if meth = GET then
        (Ok (if path = ''/health'' then handle_health C
             else if path = ''/metrics'' then handle_metrics s
             else plain_response 404 ''Not found''), s)
      else if meth \<noteq> POST then (Ok (plain_response 405 ''Method not allowed''), s)
      else
        (let (allowed, limiter) = allow now ip (ss_rate_limiter s); s1 = s \<lparr> ss_rate_limiter := limiter \<rparr>
         in if \<not> allowed then (Ok (json_response (json_bytes C (to_json_rpc_error RateLimited None)) 429), s1)
            else case body of
                None \<Rightarrow> (Err (), s1)
              | Some body_bytes \<Rightarrow>
                  (case cd_from_slice C body_bytes of
                     Err e \<Rightarrow> (Ok (json_response (json_bytes C (to_json_rpc_error (ParseError e) None)) 400), s1)
                   | Panic \<Rightarrow> (Panic, s1)
                   | Ok req \<Rightarrow>
                       (case route_method from_str req of
                          Ok v \<Rightarrow> (Ok (json_response (json_bytes C (rpc_response_json (Some v) None (rq_id req))) 200), s1)
                        | Err e \<Rightarrow> (Ok (json_response (json_bytes C (to_json_rpc_error e (rq_id req))) 200), s1)
                        | Panic \<Rightarrow> (Panic, s1)))))"

text \<open>
  The accept loop, run on what the listener returns: it spawns a task for each peer and ends
  only with the first failing accept.  \<open>None\<close> means that the server is still running.
\<close>

datatype accept_event = Accepted string | Accept_Failed string

fun accept_loop :: "accept_event list \<Rightarrow> string list \<times> (string, unit) result option" where
  "accept_loop [] = ([], None)"
| "accept_loop (Accepted peer # events) = (let (peers, r) = accept_loop events in (peer # peers, r))"
| "accept_loop (Accept_Failed e # events) = ([], Some (Err e))"

definition rpc_server_run ::
  "(string \<Rightarrow> (string, unit) result) \<Rightarrow> rpc_server_config \<Rightarrow> accept_event list \<Rightarrow> string list \<times> (string, unit) result option" where
  "rpc_server_run bind_address config events =
     (case bind_address (sv_bind config) of Ok _ \<Rightarrow> accept_loop events | Err e \<Rightarrow> ([], Some (Err e)) | Panic \<Rightarrow> ([], Some Panic))"

text \<open>The first failing accept ends the server, whatever would come behind it.\<close>

lemma accept_error_ends_server:
  "accept_loop (map Accepted peers @ Accept_Failed e # events) = (peers, Some (Err e))"
  by (induction peers) simp_all


section \<open>The request a client makes\<close>

text \<open>What the parameters of the two methods must look like, as a relation with the pubkeys asked for.\<close>

definition names_pubkey :: "(string \<Rightarrow> (string, 'pk) result) \<Rightarrow> json \<Rightarrow> bool" where
  "names_pubkey from_str v \<longleftrightarrow> (\<exists>s p. v = JString s \<and> from_str s = Ok p)"

definition asks_for :: "(string \<Rightarrow> (string, 'pk) result) \<Rightarrow> rpc_request \<Rightarrow> json list \<Rightarrow> bool" where
  "asks_for from_str req vs \<longleftrightarrow>
     (\<forall>v\<in>set vs. names_pubkey from_str v) \<and>
     (\<exists>options. rq_method req = ''getAccountInfo'' \<and> length vs = 1 \<and> rq_params req = JArray (vs @ options) \<or>
        rq_method req = ''getMultipleAccounts'' \<and> length vs \<le> 1000 \<and> rq_params req = JArray (JArray vs # options))"

definition known_method :: "rpc_request \<Rightarrow> bool" where
  "known_method req \<longleftrightarrow> rq_method req = ''getAccountInfo'' \<or> rq_method req = ''getMultipleAccounts''"

lemma parse_pubkeys_Ok:
  assumes "\<And>s. from_str s \<noteq> Panic"
  shows "(\<exists>ps. parse_pubkeys from_str vs = Ok ps \<and> length ps = length vs \<and> (\<forall>v\<in>set vs. names_pubkey from_str v)) \<or>
    (\<exists>m. parse_pubkeys from_str vs = Err (InvalidParams m) \<and> \<not> (\<forall>v\<in>set vs. names_pubkey from_str v))"
proof (induction vs)
  case (Cons v vs)
  show ?case
  proof (cases v)
    case (JString s)
    then show ?thesis using Cons assms [of s] by (cases "from_str s") (auto simp: names_pubkey_def)
  qed (simp_all add: names_pubkey_def)
qed simp

lemma account_info_cases:
  assumes "\<And>s. from_str s \<noteq> Panic" "rq_method req = ''getAccountInfo''"
  shows "(\<exists>v. asks_for from_str req [v] \<and>
      handle_get_account_info from_str (rq_params req) = Ok (JObject [(''context'', response_context_json), (''value'', JNull)])) \<or>
    (\<exists>m. handle_get_account_info from_str (rq_params req) = Err (InvalidParams m) \<and> (\<forall>vs. \<not> asks_for from_str req vs))"
proof (cases "\<exists>s p options. rq_params req = JArray (JString s # options) \<and> from_str s = Ok p")
  case True
  then obtain s p options where "rq_params req = JArray (JString s # options)" "from_str s = Ok p" by blast
  then show ?thesis
    using assms(2) by (auto simp: handle_get_account_info_def asks_for_def names_pubkey_def)
next
  case False
  have no: "\<not> asks_for from_str req vs" for vs
    using False assms(2) by (auto simp: asks_for_def names_pubkey_def length_Suc_conv)
  have "\<exists>m. handle_get_account_info from_str (rq_params req) = Err (InvalidParams m)"
  proof (cases "rq_params req")
    case (JArray params)
    show ?thesis
    proof (cases params)
      case (Cons v options)
      show ?thesis
      proof (cases v)
        case (JString s)
        then show ?thesis
          using False JArray Cons assms(1) [of s] by (cases "from_str s") (auto simp: handle_get_account_info_def)
      qed (simp_all add: handle_get_account_info_def JArray Cons)
    qed (simp add: handle_get_account_info_def JArray)
  qed (simp_all add: handle_get_account_info_def)
  then show ?thesis using no by blast
qed

lemma multiple_accounts_cases:
  assumes "\<And>s. from_str s \<noteq> Panic" "rq_method req = ''getMultipleAccounts''"
  shows "(\<exists>vs. asks_for from_str req vs \<and>
      handle_get_multiple_accounts from_str (rq_params req) =
        Ok (JObject [(''context'', response_context_json), (''value'', JArray (replicate (length vs) JNull))])) \<or>
    (\<exists>m. handle_get_multiple_accounts from_str (rq_params req) = Err (InvalidParams m) \<and> (\<forall>vs. \<not> asks_for from_str req vs))"
proof (cases "\<exists>vs options. rq_params req = JArray (JArray vs # options)")
  case True
  then obtain vs options where "rq_params req = JArray (JArray vs # options)" by blast
  then show ?thesis
    using parse_pubkeys_Ok [of from_str vs, OF assms(1)] assms(2)
    by (cases "length vs > 1000") (auto simp: handle_get_multiple_accounts_def asks_for_def)
next
  case False
  have no: "\<not> asks_for from_str req vs" for vs
    using False assms(2) by (auto simp: asks_for_def)
  have "\<exists>m. handle_get_multiple_accounts from_str (rq_params req) = Err (InvalidParams m)"
  proof (cases "rq_params req")
    case (JArray params)
    show ?thesis
    proof (cases params)
      case (Cons v options)
      show ?thesis
        using False by (cases v) (simp_all add: handle_get_multiple_accounts_def JArray Cons)
    qed (simp add: handle_get_multiple_accounts_def JArray)
  qed (simp_all add: handle_get_multiple_accounts_def)
  then show ?thesis using no by blast
qed


section \<open>Runs of the server\<close>

record server_call =
  sc_now :: nat
  sc_method :: http_method
  sc_path :: string
  sc_ip :: string
  sc_body :: "byte list option"

definition rate_limited :: "(unit, http_response) result \<Rightarrow> bool" where
  "rate_limited r \<longleftrightarrow> (case r of Ok resp \<Rightarrow> hr_status resp = 429 | _ \<Rightarrow> False)"

text \<open>The log holds the posts that were not turned away by the limiter.\<close>

definition server_step ::
  "rpc_codecs \<Rightarrow> (string \<Rightarrow> (string, 'pk) result) \<Rightarrow> server_call \<Rightarrow> rpc_server_state \<times> (nat \<times> string) list \<Rightarrow>
   rpc_server_state \<times> (nat \<times> string) list" where
  "server_step C from_str c st =
     (let (r, s) = handle_request C from_str (sc_now c) (sc_method c) (sc_path c) (sc_ip c) (sc_body c) (fst st)
      in (s, if sc_method c = POST \<and> \<not> rate_limited r then snd st @ [(sc_now c, sc_ip c)] else snd st))"

definition server_run ::
  "rpc_codecs \<Rightarrow> (string \<Rightarrow> (string, 'pk) result) \<Rightarrow> rpc_server_config \<Rightarrow> server_call list \<Rightarrow>
   rpc_server_state \<times> (nat \<times> string) list" where
  "server_run C from_str config calls = fold (server_step C from_str) calls (server_state_new config, [])"

definition posts :: "server_call list \<Rightarrow> (nat \<times> string) list" where
  "posts calls = map (\<lambda>c. (sc_now c, sc_ip c)) (filter (\<lambda>c. sc_method c = POST) calls)"

lemma handle_request_limiter:
  assumes "handle_request C from_str now meth path ip body s = (r, s')"
  shows "meth \<noteq> POST \<Longrightarrow> s' = s"
    "meth = POST \<Longrightarrow> allow now ip (ss_rate_limiter s) = (ok, limiter) \<Longrightarrow> s' = s \<lparr> ss_rate_limiter := limiter \<rparr> \<and> (rate_limited r \<longleftrightarrow> \<not> ok)"
  using assms
  by (auto simp: handle_request_def rate_limited_def json_response_def Let_def split: if_splits option.splits result.splits)

lemma server_step_limiter:
  assumes "server_step C from_str c (s, lg) = (s', lg')"
  shows "(ss_rate_limiter s', lg') = (if sc_method c = POST then rl_step (sc_now c, sc_ip c) (ss_rate_limiter s, lg) else (ss_rate_limiter s, lg))"
    "ss_request_count s' = ss_request_count s"
proof -
  obtain r where r: "handle_request C from_str (sc_now c) (sc_method c) (sc_path c) (sc_ip c) (sc_body c) s = (r, s')"
      and lg': "lg' = (if sc_method c = POST \<and> \<not> rate_limited r then lg @ [(sc_now c, sc_ip c)] else lg)"
    using assms by (auto simp: server_step_def Let_def split: prod.splits)
  obtain ok limiter where a: "allow (sc_now c) (sc_ip c) (ss_rate_limiter s) = (ok, limiter)" by fastforce
  note h = handle_request_limiter [OF r]
  show "(ss_rate_limiter s', lg') = (if sc_method c = POST then rl_step (sc_now c, sc_ip c) (ss_rate_limiter s, lg) else (ss_rate_limiter s, lg))"
    using h(1) h(2) [OF _ a] lg' a by (auto simp: rl_step_def)
  show "ss_request_count s' = ss_request_count s"
    using h(1) h(2) [OF _ a] by (cases "sc_method c = POST") auto
qed

lemma server_run_limiter:
  "(ss_rate_limiter (fst (server_run C from_str config calls)), snd (server_run C from_str config calls)) =
     rl_run (sv_rate_limit_per_ip config) (posts calls) \<and>
   ss_request_count (fst (server_run C from_str config calls)) = 0"
proof (induction calls rule: rev_induct)
  case Nil
  then show ?case by (simp add: server_run_def server_state_new_def posts_def rl_run_def)
next
  case (snoc c calls)
  obtain s lg where r: "server_run C from_str config calls = (s, lg)" by fastforce
  obtain s' lg' where r': "server_step C from_str c (s, lg) = (s', lg')" by fastforce
  have "server_run C from_str config (calls @ [c]) = (s', lg')"
    using r r' by (simp add: server_run_def)
  moreover have "posts (calls @ [c]) = (if sc_method c = POST then posts calls @ [(sc_now c, sc_ip c)] else posts calls)"
    by (simp add: posts_def)
  ultimately show ?case
    using snoc server_step_limiter [OF r'] by (auto simp: r rl_run_snoc)
qed

lemma sorted_posts: "sorted (map sc_now calls) \<Longrightarrow> sorted (map fst (posts calls))"
  unfolding posts_def by (induction calls) auto

text \<open>No call counts a request, so the metrics endpoint reports zero requests for good.\<close>

lemma metrics_never_count:
  "handle_metrics (fst (server_run C from_str config calls)) = handle_metrics (server_state_new config)"
  using server_run_limiter [of C from_str config calls] by (simp add: handle_metrics_def server_state_new_def)


section \<open>Properties\<close>


text \<open>Over any sequence of requests with non-decreasing times, at most twice the configured
  limit of posts of one address within any second get past the limiter; requests with other
  methods neither count nor are limited.\<close>

theorem rpc_server_rate_bound:
  assumes "sorted (map sc_now calls)"
  shows "cnt (in_second t) (admitted ip (snd (server_run C from_str config calls))) \<le> 2 * sv_rate_limit_per_ip config"
  using rl_second_bound [OF sorted_posts [OF assms], of t ip "sv_rate_limit_per_ip config"]
    server_run_limiter [of C from_str config calls]
  by (metis snd_conv)


definition sample_codecs :: rpc_codecs where
  "sample_codecs =
     \<lparr> cd_from_slice = (\<lambda>b. Ok \<lparr> rq_jsonrpc = ''2.0'', rq_method = ''getAccountInfo'', rq_params = JArray [JString ''k''], rq_id = None \<rparr>),
       cd_to_vec = (\<lambda>v. Some (case v of JObject kvs \<Rightarrow> [of_nat (length kvs)] | _ \<Rightarrow> [])), cd_to_text = (\<lambda>_. []) \<rparr>"


theorem rpc_server_rate_bound_witness:
  "cnt (in_second 0) (admitted ''a'' (snd (server_run sample_codecs (\<lambda>s. Ok (7 :: nat)) rpc_server_config_default
     [\<lparr> sc_now = 5, sc_method = POST, sc_path = ''/'', sc_ip = ''a'', sc_body = Some [] \<rparr>]))) \<le> 200"
  using rpc_server_rate_bound [of "[\<lparr> sc_now = 5, sc_method = POST, sc_path = ''/'', sc_ip = ''a'', sc_body = Some [] \<rparr>]"
      0 "''a''" sample_codecs "\<lambda>s. Ok (7 :: nat)" rpc_server_config_default]
  by (simp add: rpc_server_config_default_def)

end
