(* ===== verification/Simd_Bitmap.thy ===== *)
theory Simd_Bitmap
  imports Complex_Main Bitmap
begin

text \<open>
  The bitmap engine on plain 64-bit words (\<open>index-fabric/src/simd_bitmap.rs\<close>).

  A slice of words stands for the set of the positions of its bits.  The loops over words
  are folds over indices; the loop that clears the lowest bit of a word is a recursive
  function with its termination proof.  The scratch buffer of the engine is never read.
\<close>

section \<open>Bits of a word\<close>

definition count_ones :: "u64 \<Rightarrow> nat" where
  "count_ones w = length (filter (bit w) [0..<64])"

definition trailing_zeros :: "u64 \<Rightarrow> nat" where
  "trailing_zeros w = length (takeWhile (\<lambda>i. \<not> bit w i) [0..<64])"

definition word_bits :: "u64 \<Rightarrow> nat set" where
  "word_bits w = {i. bit w i}"

lemma word_bits_filter: "word_bits w = set (filter (bit w) [0..<64])"
  by (auto simp: word_bits_def dest: bit_imp_le_length)

lemma finite_word_bits [simp]: "finite (word_bits w)"
  by (simp add: word_bits_filter)

lemma word_bits_less: "i \<in> word_bits w \<Longrightarrow> i < 64"
  by (simp add: word_bits_filter)

lemma count_ones_card: "count_ones w = card (word_bits w)"
  unfolding word_bits_filter count_ones_def by (rule distinct_card [symmetric]) simp

lemma word_bits_empty: "word_bits w = {} \<longleftrightarrow> w = 0"
  by (auto simp: word_bits_def intro: bit_word_eqI)

lemma word_bits_ops:
  "word_bits (v AND w) = word_bits v \<inter> word_bits w" "word_bits (v OR w) = word_bits v \<union> word_bits w"
  "word_bits (v XOR w) = (word_bits v - word_bits w) \<union> (word_bits w - word_bits v)"
  by (auto simp: word_bits_def bit_simps)

lemma trailing_zeros_Min:
  assumes "w \<noteq> 0"
  shows "trailing_zeros w = Min (word_bits w)"
proof -
  have ne: "word_bits w \<noteq> {}" using assms by (simp add: word_bits_empty)
  let ?m = "Min (word_bits w)"
  have m: "bit w ?m" "?m < 64" using Min_in [OF _ ne] word_bits_less by (auto simp: word_bits_def)
  have "\<not> bit w i" if "i < ?m" for i
    using that Min_le [OF finite_word_bits, of i w] by (auto simp: word_bits_def not_le [symmetric])
  then have "takeWhile (\<lambda>i. \<not> bit w i) ([0..<?m] @ [?m..<64]) = [0..<?m]"
    using m by (simp add: takeWhile_append upt_conv_Cons)
  moreover have "[0..<64] = [0..<?m] @ [?m..<64]" using m(2) by (metis le_add_diff_inverse less_imp_le_nat upt_add_eq_append zero_le)
  ultimately show ?thesis by (simp add: trailing_zeros_def)
qed

definition clear_bit :: "u64 \<Rightarrow> nat \<Rightarrow> u64" where
  "clear_bit w i = w AND NOT (push_bit i 1)"

lemma word_bits_clear: "i < 64 \<Longrightarrow> word_bits (clear_bit w i) = word_bits w - {i}"
  by (auto simp: word_bits_def clear_bit_def bit_simps dest: bit_imp_le_length)

lemma count_ones_clear:
  assumes "w \<noteq> 0"
  shows "count_ones (clear_bit w (trailing_zeros w)) < count_ones w"
proof -
  have "Min (word_bits w) \<in> word_bits w" using assms by (simp add: word_bits_empty)
  then show ?thesis
    using assms card_Diff1_less [OF finite_word_bits]
    by (simp add: count_ones_card trailing_zeros_Min word_bits_clear word_bits_less del: card_Diff_insert card_Diff_singleton)
qed


section \<open>The engine\<close>

definition word_loop :: "(u64 \<Rightarrow> u64 \<Rightarrow> u64) \<Rightarrow> u64 list \<Rightarrow> u64 list \<Rightarrow> u64 list \<Rightarrow> u64 list" where
  "word_loop f a b result =
     fold (\<lambda>i r. r[i := f (a ! i) (b ! i)]) [0..<min (length a) (min (length b) (length result))] result"

definition bitmap_and :: "u64 list \<Rightarrow> u64 list \<Rightarrow> u64 list \<Rightarrow> u64 list" where
  "bitmap_and = word_loop (\<lambda>v w. v AND w)"

definition bitmap_or :: "u64 list \<Rightarrow> u64 list \<Rightarrow> u64 list \<Rightarrow> u64 list" where
  "bitmap_or = word_loop (\<lambda>v w. v OR w)"

definition bitmap_xor :: "u64 list \<Rightarrow> u64 list \<Rightarrow> u64 list \<Rightarrow> u64 list" where
  "bitmap_xor = word_loop (\<lambda>v w. v XOR w)"

definition popcount :: "u64 list \<Rightarrow> nat" where
  "popcount bitmap = sum_list (map count_ones bitmap)"

definition size_loop :: "(u64 \<Rightarrow> u64 \<Rightarrow> u64) \<Rightarrow> u64 list \<Rightarrow> u64 list \<Rightarrow> nat" where
  "size_loop f a b = fold (\<lambda>i count. count + count_ones (f (a ! i) (b ! i))) [0..<min (length a) (length b)] 0"

definition intersection_size :: "u64 list \<Rightarrow> u64 list \<Rightarrow> nat" where
  "intersection_size = size_loop (\<lambda>v w. v AND w)"

definition union_size :: "u64 list \<Rightarrow> u64 list \<Rightarrow> nat" where
  "union_size = size_loop (\<lambda>v w. v OR w)"

fun first_set_from :: "nat \<Rightarrow> u64 list \<Rightarrow> nat option" where
  "first_set_from i [] = None"
| "first_set_from i (w # ws) = (if w \<noteq> 0 then Some (i * 64 + trailing_zeros w) else first_set_from (Suc i) ws)"

definition find_first_set :: "u64 list \<Rightarrow> nat option" where
  "find_first_set bitmap = first_set_from 0 bitmap"

function bits_loop :: "nat \<Rightarrow> u64 \<Rightarrow> nat list" where
  "bits_loop i w =
     (if w = 0 then [] else (i * 64 + trailing_zeros w) # bits_loop i (clear_bit w (trailing_zeros w)))"
  by pat_completeness auto
termination by (relation "measure (count_ones \<circ> snd)") (simp_all add: count_ones_clear)

declare bits_loop.simps [simp del]

lemma bits_loop_0 [simp]: "bits_loop i 0 = []"
  by (simp add: bits_loop.simps)

fun all_set_from :: "nat \<Rightarrow> u64 list \<Rightarrow> nat list" where
  "all_set_from i [] = []"
| "all_set_from i (w # ws) = bits_loop i w @ all_set_from (Suc i) ws"

definition find_all_set :: "u64 list \<Rightarrow> nat list" where
  "find_all_set bitmap = all_set_from 0 bitmap"

fun merge_sorted :: "u64 list \<Rightarrow> u64 list \<Rightarrow> u64 list" where
  "merge_sorted (x # a) (y # b) =
     (if x < y then x # merge_sorted a (y # b)
      else if x > y then y # merge_sorted (x # a) b
      else x # merge_sorted a b)"
| "merge_sorted a b = a @ b"


section \<open>The wrapper of the treemap\<close>

definition simd_insert :: "'b treemap_ops \<Rightarrow> u32 \<Rightarrow> 'b \<Rightarrow> bool \<times> 'b" where
  "simd_insert R v m = tm_insert R (ucast v) m"

definition simd_remove :: "'b treemap_ops \<Rightarrow> u32 \<Rightarrow> 'b \<Rightarrow> bool \<times> 'b" where
  "simd_remove R v m = tm_remove R (ucast v) m"

definition simd_contains :: "'b treemap_ops \<Rightarrow> 'b \<Rightarrow> u32 \<Rightarrow> bool" where
  "simd_contains R m v = tm_contains R m (ucast v)"

definition simd_intersection :: "'b treemap_ops \<Rightarrow> 'b \<Rightarrow> 'b \<Rightarrow> 'b" where
  "simd_intersection R m n = tm_and R m n"

definition simd_union :: "'b treemap_ops \<Rightarrow> 'b \<Rightarrow> 'b \<Rightarrow> 'b" where
  "simd_union R m n = tm_or R m n"

definition simd_difference :: "'b treemap_ops \<Rightarrow> 'b \<Rightarrow> 'b \<Rightarrow> 'b" where
  "simd_difference R m n = tm_sub R m n"

definition jaccard :: "(rat \<Rightarrow> rat) \<Rightarrow> 'b treemap_ops \<Rightarrow> 'b \<Rightarrow> 'b \<Rightarrow> rat" where
  "jaccard rnd R m n =
     (let intersection_len = tm_len R (tm_and R m n); union_len = tm_len R (tm_or R m n)
      in if union_len = 0 then 0
         else rnd (rnd (of_nat (unat intersection_len)) / rnd (of_nat (unat union_len))))"

definition simd_iter :: "'b treemap_ops \<Rightarrow> 'b \<Rightarrow> u32 list" where
  "simd_iter R m = map ucast (tm_iter R m)"


section \<open>Slices of words as sets of positions\<close>

fun positions_from :: "nat \<Rightarrow> u64 list \<Rightarrow> nat set" where
  "positions_from i [] = {}"
| "positions_from i (w # ws) = (\<lambda>k. i * 64 + k) ` word_bits w \<union> positions_from (Suc i) ws"

definition positions :: "u64 list \<Rightarrow> nat set" where
  "positions ws = {64 * i + k | i k. i < length ws \<and> k \<in> word_bits (ws ! i)}"

lemma positions_from_eq: "positions_from i ws = {64 * (i + j) + k | j k. j < length ws \<and> k \<in> word_bits (ws ! j)}"
proof (induction ws arbitrary: i)
  case (Cons w ws)
  have "{64 * (i + j) + k | j k. j < length (w # ws) \<and> k \<in> word_bits ((w # ws) ! j)} =
      (\<lambda>k. i * 64 + k) ` word_bits w \<union> {64 * (Suc i + j) + k | j k. j < length ws \<and> k \<in> word_bits (ws ! j)}"
    (is "?L = ?A \<union> ?B")
  proof (intro equalityI subsetI)
    fix x assume "x \<in> ?L"
    then obtain j k where "x = 64 * (i + j) + k" "j < Suc (length ws)" "k \<in> word_bits ((w # ws) ! j)" by auto
    then show "x \<in> ?A \<union> ?B"
      by (cases j) (force simp: algebra_simps)+
  next
    fix x assume "x \<in> ?A \<union> ?B"
    then show "x \<in> ?L"
    proof
      assume "x \<in> ?A"
      then obtain k where "x = 64 * (i + 0) + k" "k \<in> word_bits w" by auto
      then show ?thesis by (intro CollectI exI [of _ 0] exI [of _ k]) simp
    next
      assume "x \<in> ?B"
      then obtain j k where "x = 64 * (Suc i + j) + k" "j < length ws" "k \<in> word_bits (ws ! j)" by auto
      then show ?thesis by (intro CollectI exI [of _ "Suc j"] exI [of _ k]) simp
    qed
  qed
  then show ?case unfolding positions_from.simps Cons by (rule sym)
qed simp

lemma positions_conv: "positions ws = positions_from 0 ws"
  by (simp add: positions_from_eq positions_def)

lemma positions_iff: "x \<in> positions ws \<longleftrightarrow> x div 64 < length ws \<and> x mod 64 \<in> word_bits (ws ! (x div 64))"
proof -
  have "i = x div 64 \<and> k = x mod 64" if "x = 64 * i + k" "k < 64" for i k using that by simp
  then show ?thesis unfolding positions_def using word_bits_less by (fastforce intro: exI [of _ "x div 64"])
qed


lemma positions_from_ge: "x \<in> positions_from i ws \<Longrightarrow> 64 * i \<le> x"
  by (auto simp: positions_from_eq)

lemma finite_positions_from [simp]: "finite (positions_from i ws)"
  by (induction ws arbitrary: i) simp_all

lemma word_before_rest:
  assumes "x \<in> (\<lambda>k. i * 64 + k) ` word_bits w" "y \<in> positions_from (Suc i) ws"
  shows "x < y"
  using assms positions_from_ge [OF assms(2)] word_bits_less by fastforce

lemma popcount_positions: "sum_list (map count_ones ws) = card (positions_from i ws)"
proof (induction ws arbitrary: i)
  case (Cons w ws)
  have "(\<lambda>k. i * 64 + k) ` word_bits w \<inter> positions_from (Suc i) ws = {}"
    using word_before_rest [of _ i w _ ws] by blast
  then have "card (positions_from i (w # ws)) = card ((\<lambda>k. i * 64 + k) ` word_bits w) + card (positions_from (Suc i) ws)"
    by (simp add: card_Un_disjoint)
  then show ?case using Cons [of "Suc i"] by (simp add: count_ones_card card_image)
qed simp

lemma bits_loop_sorted: "sorted_wrt (<) (bits_loop i w) \<and> set (bits_loop i w) = (\<lambda>k. i * 64 + k) ` word_bits w"
proof (induction i w rule: bits_loop.induct)
  case (1 i w)
  show ?case
  proof (cases "w = 0")
    case True
    then show ?thesis by (simp add: word_bits_def)
  next
    case False
    let ?m = "trailing_zeros w"
    have m: "?m = Min (word_bits w)" "?m \<in> word_bits w" "\<forall>k\<in>word_bits w. ?m \<le> k"
      using False by (simp_all add: trailing_zeros_Min word_bits_empty)
    have rest: "word_bits (clear_bit w ?m) = word_bits w - {?m}"
      using m(2) word_bits_less by (simp add: word_bits_clear)
    have eq: "bits_loop i w = (i * 64 + ?m) # bits_loop i (clear_bit w ?m)"
      using False by (simp add: bits_loop.simps [of i w])
    have "(\<lambda>k. i * 64 + k) ` word_bits w = insert (i * 64 + ?m) ((\<lambda>k. i * 64 + k) ` (word_bits w - {?m}))"
      using m(2) by auto
    moreover have "\<forall>x\<in>(\<lambda>k. i * 64 + k) ` (word_bits w - {?m}). i * 64 + ?m < x"
      using m(3) by (auto simp: order.strict_iff_order)
    ultimately show ?thesis using 1 [OF False] unfolding eq rest by simp
  qed
qed

lemma all_set_from_sorted: "sorted_wrt (<) (all_set_from i ws) \<and> set (all_set_from i ws) = positions_from i ws"
proof (induction ws arbitrary: i)
  case (Cons w ws)
  then show ?case
    using bits_loop_sorted [of i w] word_before_rest [of _ i w _ ws] by (auto simp: sorted_wrt_append)
qed simp

lemma first_set_from_all: "first_set_from i ws = (case all_set_from i ws of [] \<Rightarrow> None | x # xs \<Rightarrow> Some x)"
proof (induction ws arbitrary: i)
  case (Cons w ws)
  then show ?case by (cases "w = 0") (simp_all add: bits_loop.simps [of i w])
qed simp

lemma fold_update_nth:
  "i < length r \<Longrightarrow> n \<le> length r \<Longrightarrow> fold (\<lambda>i r. r[i := g i]) [0..<n] r ! i = (if i < n then g i else r ! i)"
  "length (fold (\<lambda>i r. r[i := g i]) [0..<n] r) = length r"
proof -
  show len: "length (fold (\<lambda>i r. r[i := g i]) [0..<n] r) = length r" for n by (induction n) simp_all
  show "fold (\<lambda>i r. r[i := g i]) [0..<n] r ! i = (if i < n then g i else r ! i)" if "i < length r" "n \<le> length r"
    using that
  proof (induction n)
    case (Suc n)
    then show ?case using len [of n] by (cases "i = n") (auto simp: nth_list_update)
  qed simp
qed

lemma word_loop_same_length:
  assumes "length a = length b" "length r = length a"
  shows "length (word_loop f a b r) = length a" "i < length a \<Longrightarrow> word_loop f a b r ! i = f (a ! i) (b ! i)"
  using assms fold_update_nth(1) [of i r "length a" "\<lambda>i. f (a ! i) (b ! i)"] fold_update_nth(2) [of "\<lambda>i. f (a ! i) (b ! i)" "length a" r]
  by (simp_all add: word_loop_def)

lemma size_loop_popcount: "size_loop f a b = popcount (map2 f a b)"
proof -
  have "fold (\<lambda>i count. count + g i) [0..<n] 0 = sum_list (map g [0..<n])" for g :: "nat \<Rightarrow> nat" and n
    by (induction n) simp_all
  moreover have "map count_ones (map2 f a b) = map (\<lambda>i. count_ones (f (a ! i) (b ! i))) [0..<min (length a) (length b)]"
    by (rule nth_equalityI) simp_all
  ultimately show ?thesis by (simp add: size_loop_def popcount_def)
qed

lemma positions_map2:
  assumes "length a = length b" "\<And>v w. word_bits (f v w) = h (word_bits v) (word_bits w)"
    and "\<And>k A B. k \<in> h A B \<longleftrightarrow> P (k \<in> A) (k \<in> B)" "\<not> P False False"
  shows "x \<in> positions (map2 f a b) \<longleftrightarrow> P (x \<in> positions a) (x \<in> positions b)"
  using assms by (cases "x div 64 < length a") (simp_all add: positions_iff)

lemma word_loop_map2: "length a = length b \<Longrightarrow> length r = length a \<Longrightarrow> word_loop f a b r = map2 f a b"
  using word_loop_same_length [of a b r] by (intro nth_equalityI) simp_all

lemma positions_and: "length a = length b \<Longrightarrow> positions (map2 (\<lambda>v w. v AND w) a b) = positions a \<inter> positions b"
  using positions_map2 [of a b "\<lambda>v w. v AND w" "(\<inter>)" "(\<and>)"] by (auto simp: word_bits_ops)

lemma positions_or: "length a = length b \<Longrightarrow> positions (map2 (\<lambda>v w. v OR w) a b) = positions a \<union> positions b"
  using positions_map2 [of a b "\<lambda>v w. v OR w" "(\<union>)" "(\<or>)"] by (auto simp: word_bits_ops)

lemma positions_xor:
  "length a = length b \<Longrightarrow> positions (map2 (\<lambda>v w. v XOR w) a b) = (positions a - positions b) \<union> (positions b - positions a)"
  using positions_map2 [of a b "\<lambda>v w. v XOR w" "\<lambda>A B. (A - B) \<union> (B - A)" "(\<noteq>)"] by (auto simp: word_bits_ops)

lemma merge_sorted_merges:
  assumes "sorted_wrt (<) a" "sorted_wrt (<) b"
  shows "sorted_wrt (<) (merge_sorted a b) \<and> set (merge_sorted a b) = set a \<union> set b"
  using assms
proof (induction a b rule: merge_sorted.induct)
  case (1 x a y b)
  consider "x < y" | "y < x" | "x = y" by force
  then show ?case using 1 by cases (auto intro: order.strict_trans)
qed auto

lemma find_all_set_positions: "find_all_set ws = sorted_list_of_set (positions ws)"
proof -
  have "sorted_wrt (<) (find_all_set ws)" "set (find_all_set ws) = positions ws"
    using all_set_from_sorted [of 0 ws] by (simp_all add: find_all_set_def positions_conv)
  then show ?thesis
    by (metis sorted_list_of_set.idem_if_sorted_distinct strict_sorted_iff)
qed

lemma find_first_set_positions: "find_first_set ws = (if positions ws = {} then None else Some (Min (positions ws)))"
proof -
  have "find_first_set ws = (case find_all_set ws of [] \<Rightarrow> None | x # xs \<Rightarrow> Some x)"
    by (simp add: find_first_set_def find_all_set_def first_set_from_all)
  moreover have "finite (positions ws)" by (simp add: positions_conv)
  ultimately show ?thesis
    using sorted_list_of_set_nonempty [of "positions ws"] by (auto simp: find_all_set_positions)
qed


section \<open>Properties\<close>

text \<open>C37: On the sets of bit positions the engine is exact: the bit count is the cardinality, the
  search functions enumerate the set in order and find its minimum, and for slices of one
  length the word loops compute intersection, union and symmetric difference and the size
  functions the cardinalities; merging two strictly sorted lists gives the strictly sorted
  list of their union.\<close>

theorem simd_engine_exact:
  "popcount ws = card (positions ws) \<and> find_all_set ws = sorted_list_of_set (positions ws) \<and>
   find_first_set ws = (if positions ws = {} then None else Some (Min (positions ws))) \<and>
   (length a = length b \<and> length r = length a \<longrightarrow>
      positions (bitmap_and a b r) = positions a \<inter> positions b \<and>
      positions (bitmap_or a b r) = positions a \<union> positions b \<and>
      positions (bitmap_xor a b r) = (positions a - positions b) \<union> (positions b - positions a) \<and>
      intersection_size a b = card (positions a \<inter> positions b) \<and> union_size a b = card (positions a \<union> positions b)) \<and>
   (sorted_wrt (<) xs \<and> sorted_wrt (<) ys \<longrightarrow> merge_sorted xs ys = sorted_list_of_set (set xs \<union> set ys))"
proof -
  have pop: "popcount ws = card (positions ws)" for ws
    by (simp add: popcount_def popcount_positions [of _ 0] positions_conv)
  moreover have "merge_sorted xs ys = sorted_list_of_set (set xs \<union> set ys)" if "sorted_wrt (<) xs" "sorted_wrt (<) ys"
    using merge_sorted_merges [OF that] by (metis sorted_list_of_set.idem_if_sorted_distinct strict_sorted_iff)
  ultimately show ?thesis
    by (auto simp: find_all_set_positions find_first_set_positions bitmap_and_def bitmap_or_def bitmap_xor_def word_loop_map2
        intersection_size_def union_size_def size_loop_popcount positions_and positions_or positions_xor)
qed

theorem simd_engine_exact_witness:
  "intersection_size [12, 10] [10, 12] = 2 \<and> merge_sorted [1, 5] [2, 5] = sorted_list_of_set (set [1, 5] \<union> set [2, 5])"
proof -
  have "positions (bitmap_and [12, 10] [10, 12] [0, 0]) = positions [12, 10] \<inter> positions [10, 12]" 
    "intersection_size [12, 10] [10, 12] = card (positions [12, 10] \<inter> positions [10, 12])"
    "merge_sorted [1, 5] [2, 5] = sorted_list_of_set (set [1, 5] \<union> set [2, 5])"
    using simd_engine_exact [of "[]" "[12, 10]" "[10, 12]" "[0, 0]" "[1, 5]" "[2, 5]"] by simp_all
  moreover have "intersection_size [12, 10] [10, 12] = 2" by code_simp
  ultimately show ?thesis by blast
qed

text \<open>For slices of different lengths the union is counted over the common length only.\<close>

lemma union_size_common_length: "union_size a b = union_size (take (length b) a) (take (length a) b)"
proof -
  have "map2 f a b = map2 f (take (length b) a) (take (length a) b)" for f :: "u64 \<Rightarrow> u64 \<Rightarrow> u64"
    by (rule nth_equalityI) simp_all
  then show ?thesis by (simp add: union_size_def size_loop_popcount)
qed

end
