(* ===== verification/Tiered_Dictionary.thy ===== *)
theory Tiered_Dictionary
  imports Prelude
begin

text \<open>
  The tiered dictionary (\<open>index-fabric/src/tiered_dictionary.rs\<close>): a hot hash map, a warm
  ordered map and a cold hash map, with demotion between them.

  Indexing the first account id of an entry panics on an empty list and so does the range of
  an ordered map with crossed bounds; both are \<open>Panic\<close>.  Persisting the cold level does nothing
  and always succeeds.  Calls are modelled one at a time.
\<close>

section \<open>Entries\<close>

datatype dict_tier = L1Hot | L2Warm | L3Cold

record dict_entry =
  de_key :: u64
  de_account_ids :: "u32 list"
  de_tier :: dict_tier
  de_access_count :: u64
  de_last_access_slot :: u64

definition dict_entry_new :: "u64 \<Rightarrow> u32 \<Rightarrow> u64 \<Rightarrow> dict_entry" where
  "dict_entry_new key account_id slot =
     \<lparr> de_key = key, de_account_ids = [account_id], de_tier = L1Hot, de_access_count = 1, de_last_access_slot = slot \<rparr>"

definition dict_access :: "u64 \<Rightarrow> dict_entry \<Rightarrow> dict_entry" where
  "dict_access slot e = e \<lparr> de_access_count := de_access_count e + 1, de_last_access_slot := slot \<rparr>"

definition dict_add_account :: "u32 \<Rightarrow> dict_entry \<Rightarrow> dict_entry" where
  "dict_add_account account_id e =
     (if account_id \<in> set (de_account_ids e) then e else e \<lparr> de_account_ids := de_account_ids e @ [account_id] \<rparr>)"

definition dict_touch :: "dict_entry \<Rightarrow> dict_entry" where
  "dict_touch e = e \<lparr> de_access_count := de_access_count e + 1 \<rparr>"


section \<open>The three levels\<close>

record l1_hot_dict =
  hd_entries :: "(u64, dict_entry) hmap"
  hd_max_size :: nat

definition hot_insert :: "u64 \<Rightarrow> u32 \<Rightarrow> u64 \<Rightarrow> l1_hot_dict \<Rightarrow> dict_entry option \<times> l1_hot_dict" where
  "hot_insert key account_id slot d =
     (case hm_get (hd_entries d) key of
        Some e \<Rightarrow>
          (let e' = dict_add_account account_id (dict_access slot e)
           in (Some e', d \<lparr> hd_entries := hm_insert key e' (hd_entries d) \<rparr>))
      | None \<Rightarrow>
          (let entries = (if length (hd_entries d) \<ge> hd_max_size d
                          then filter (\<lambda>(_, v). de_access_count v > 0) (hd_entries d) else hd_entries d);
               e = dict_entry_new key account_id slot
           in (Some e, d \<lparr> hd_entries := hm_insert key e entries \<rparr>)))"

definition hot_get :: "u64 \<Rightarrow> l1_hot_dict \<Rightarrow> dict_entry option \<times> l1_hot_dict" where
  "hot_get key d =
     (case hm_get (hd_entries d) key of
        Some e \<Rightarrow> (Some (dict_touch e), d \<lparr> hd_entries := hm_insert key (dict_touch e) (hd_entries d) \<rparr>)
      | None \<Rightarrow> (None, d))"

definition hot_remove :: "u64 \<Rightarrow> l1_hot_dict \<Rightarrow> dict_entry option \<times> l1_hot_dict" where
  "hot_remove key d = (hm_get (hd_entries d) key, d \<lparr> hd_entries := hm_remove key (hd_entries d) \<rparr>)"

record l2_warm_dict =
  wd_entries :: "(u64, dict_entry) btree"
  wd_max_size :: nat

definition warm_insert :: "u64 \<Rightarrow> u32 \<Rightarrow> u64 \<Rightarrow> l2_warm_dict \<Rightarrow> l2_warm_dict" where
  "warm_insert key account_id slot d =
     (case bt_get (wd_entries d) key of
        Some e \<Rightarrow> d \<lparr> wd_entries := bt_insert key (dict_add_account account_id (dict_access slot e)) (wd_entries d) \<rparr>
      | None \<Rightarrow>
          (let entries = (if length (wd_entries d) \<ge> wd_max_size d then tl (wd_entries d) else wd_entries d)
           in d \<lparr> wd_entries := bt_insert key (dict_entry_new key account_id slot) entries \<rparr>))"

definition warm_get :: "u64 \<Rightarrow> l2_warm_dict \<Rightarrow> dict_entry option \<times> l2_warm_dict" where
  "warm_get key d =
     (case bt_get (wd_entries d) key of
        Some e \<Rightarrow> (Some (dict_touch e), d \<lparr> wd_entries := bt_insert key (dict_touch e) (wd_entries d) \<rparr>)
      | None \<Rightarrow> (None, d))"

definition warm_range :: "u64 \<Rightarrow> u64 \<Rightarrow> l2_warm_dict \<Rightarrow> (unit, dict_entry list) result" where
  "warm_range start stop d =
     (if stop < start then Panic
      else Ok (map snd (filter (\<lambda>p. start \<le> fst p \<and> fst p \<le> stop) (wd_entries d))))"

record l3_cold_dict =
  cd_cache :: "(u64, dict_entry) hmap"

definition cold_insert :: "u64 \<Rightarrow> u32 \<Rightarrow> u64 \<Rightarrow> l3_cold_dict \<Rightarrow> l3_cold_dict" where
  "cold_insert key account_id slot d =
     (case hm_get (cd_cache d) key of
        Some e \<Rightarrow> d \<lparr> cd_cache := hm_insert key (dict_add_account account_id (dict_access slot e)) (cd_cache d) \<rparr>
      | None \<Rightarrow> d \<lparr> cd_cache := hm_insert key (dict_entry_new key account_id slot) (cd_cache d) \<rparr>)"

definition cold_get :: "u64 \<Rightarrow> l3_cold_dict \<Rightarrow> dict_entry option \<times> l3_cold_dict" where
  "cold_get key d =
     (case hm_get (cd_cache d) key of
        Some e \<Rightarrow> (Some (dict_touch e), d \<lparr> cd_cache := hm_insert key (dict_touch e) (cd_cache d) \<rparr>)
      | None \<Rightarrow> (None, d))"


section \<open>The dictionary\<close>

record tiered_dictionary =
  td_l1 :: l1_hot_dict
  td_l2 :: l2_warm_dict
  td_l3 :: l3_cold_dict
  td_current_slot :: u64

definition tiered_new :: "nat \<Rightarrow> nat \<Rightarrow> tiered_dictionary" where
  "tiered_new l1_size l2_size =
     \<lparr> td_l1 = \<lparr> hd_entries = [], hd_max_size = l1_size \<rparr>, td_l2 = \<lparr> wd_entries = [], wd_max_size = l2_size \<rparr>,
       td_l3 = \<lparr> cd_cache = [] \<rparr>, td_current_slot = 0 \<rparr>"

definition tiered_insert :: "u64 \<Rightarrow> u32 \<Rightarrow> tiered_dictionary \<Rightarrow> tiered_dictionary" where
  "tiered_insert key account_id d = d \<lparr> td_l1 := snd (hot_insert key account_id (td_current_slot d) (td_l1 d)) \<rparr>"

definition first_account :: "dict_entry \<Rightarrow> (unit, u32) result" where
  "first_account e = (case de_account_ids e of [] \<Rightarrow> Panic | i # _ \<Rightarrow> Ok i)"

definition tiered_get :: "u64 \<Rightarrow> tiered_dictionary \<Rightarrow> (unit, dict_entry option \<times> tiered_dictionary) result" where
  "tiered_get key d0 =
     (let (found1, l1) = hot_get key (td_l1 d0); d1 = d0 \<lparr> td_l1 := l1 \<rparr>
      in case found1 of
           Some e \<Rightarrow> Ok (Some e, d1)
         | None \<Rightarrow>
             (let (found2, l2) = warm_get key (td_l2 d1); d2 = d1 \<lparr> td_l2 := l2 \<rparr>
              in case found2 of
                   Some e \<Rightarrow>
                     rbind (first_account e) (\<lambda>i.
                       Ok (Some e, d2 \<lparr> td_l1 := snd (hot_insert key i (de_last_access_slot e) (td_l1 d2)) \<rparr>))
                 | None \<Rightarrow>
                     (let (found3, l3) = cold_get key (td_l3 d2) in Ok (found3, d2 \<lparr> td_l3 := l3 \<rparr>))))"

definition demote_l1_to_l2 :: "u64 \<Rightarrow> tiered_dictionary \<Rightarrow> (unit, tiered_dictionary) result" where
  "demote_l1_to_l2 key d0 =
     (let (removed, l1) = hot_remove key (td_l1 d0); d = d0 \<lparr> td_l1 := l1 \<rparr>
      in case removed of
           None \<Rightarrow> Ok d
         | Some e \<Rightarrow>
             rbind (first_account e) (\<lambda>i. Ok (d \<lparr> td_l2 := warm_insert key i (de_last_access_slot e) (td_l2 d) \<rparr>)))"

definition demote_l2_to_l3 :: "u64 \<Rightarrow> tiered_dictionary \<Rightarrow> (unit, tiered_dictionary) result" where
  "demote_l2_to_l3 key d0 =
     (let (found, l2) = warm_get key (td_l2 d0); d = d0 \<lparr> td_l2 := l2 \<rparr>
      in case found of
           None \<Rightarrow> Ok d
         | Some e \<Rightarrow>
             rbind (first_account e) (\<lambda>i.
               Ok (d \<lparr> td_l3 := cold_insert key i (de_last_access_slot e) (cold_insert key i (de_last_access_slot e) (td_l3 d)) \<rparr>)))"

definition tiered_update_slot :: "u64 \<Rightarrow> tiered_dictionary \<Rightarrow> tiered_dictionary" where
  "tiered_update_slot slot d = d \<lparr> td_current_slot := slot \<rparr>"

record tiered_dict_stats =
  tst_l1_count :: nat
  tst_l2_count :: nat
  tst_l3_count :: nat
  tst_total_count :: nat

definition tiered_stats :: "tiered_dictionary \<Rightarrow> tiered_dict_stats" where
  "tiered_stats d =
     (let n1 = length (hd_entries (td_l1 d)); n2 = length (wd_entries (td_l2 d)); n3 = length (cd_cache (td_l3 d))
      in \<lparr> tst_l1_count = n1, tst_l2_count = n2, tst_l3_count = n3, tst_total_count = n1 + n2 + n3 \<rparr>)"


section \<open>Histories\<close>

datatype dict_op =
    Dict_Insert u64 u32
  | Dict_Lookup u64
  | Dict_Demote12 u64
  | Dict_Demote23 u64
  | Dict_Slot u64

primrec dict_step :: "dict_op \<Rightarrow> tiered_dictionary \<Rightarrow> (unit, tiered_dictionary) result" where
  "dict_step (Dict_Insert k i) d = Ok (tiered_insert k i d)"
| "dict_step (Dict_Lookup k) d = rbind (tiered_get k d) (\<lambda>(_, d'). Ok d')"
| "dict_step (Dict_Demote12 k) d = demote_l1_to_l2 k d"
| "dict_step (Dict_Demote23 k) d = demote_l2_to_l3 k d"
| "dict_step (Dict_Slot s) d = Ok (tiered_update_slot s d)"

primrec dict_run :: "dict_op list \<Rightarrow> tiered_dictionary \<Rightarrow> (unit, tiered_dictionary) result" where
  "dict_run [] d = Ok d"
| "dict_run (x # xs) d = rbind (dict_step x d) (dict_run xs)"

text \<open>The ids inserted under a key, in order of their first insertion.\<close>

definition add_id :: "u32 \<Rightarrow> u32 list \<Rightarrow> u32 list" where
  "add_id i ids = (if i \<in> set ids then ids else ids @ [i])"

primrec inserted_step :: "u64 \<Rightarrow> dict_op \<Rightarrow> u32 list \<Rightarrow> u32 list" where
  "inserted_step k (Dict_Insert k' i) ids = (if k' = k then add_id i ids else ids)"
| "inserted_step k (Dict_Lookup k') ids = ids"
| "inserted_step k (Dict_Demote12 k') ids = ids"
| "inserted_step k (Dict_Demote23 k') ids = ids"
| "inserted_step k (Dict_Slot s) ids = ids"

definition inserted_ids :: "u64 \<Rightarrow> dict_op list \<Rightarrow> u32 list" where
  "inserted_ids k ops = fold (inserted_step k) ops []"


section \<open>Well-formed dictionaries\<close>

text \<open>\<open>F\<close> gives the ids that may occur under a key.\<close>

definition entry_typed :: "(u64 \<Rightarrow> u32 set) \<Rightarrow> u64 \<Rightarrow> dict_entry \<Rightarrow> bool" where
  "entry_typed F k e \<longleftrightarrow>
     de_key e = k \<and> de_account_ids e \<noteq> [] \<and> distinct (de_account_ids e) \<and> set (de_account_ids e) \<subseteq> F k"

lemma entry_typed_ops:
  "i \<in> F k \<Longrightarrow> entry_typed F k (dict_entry_new k i slot)"
  "entry_typed F k e \<Longrightarrow> entry_typed F k (dict_touch e)" "entry_typed F k e \<Longrightarrow> entry_typed F k (dict_access slot e)"
  "entry_typed F k e \<Longrightarrow> i \<in> F k \<Longrightarrow> entry_typed F k (dict_add_account i e)"
  by (auto simp: entry_typed_def dict_entry_new_def dict_touch_def dict_access_def dict_add_account_def)

lemma entry_typed_first: "entry_typed F k e \<Longrightarrow> \<exists>i\<in>F k. first_account e = Ok i"
  by (cases "de_account_ids e") (auto simp: entry_typed_def first_account_def)

lemma entry_typed_mono: "entry_typed F k e \<Longrightarrow> (\<And>k. F k \<subseteq> G k) \<Longrightarrow> entry_typed G k e"
  unfolding entry_typed_def by blast

lemma bt_tl: "bt_invar m \<Longrightarrow> bt_invar (tl m)" "bt_invar m \<Longrightarrow> bt_get (tl m) k = Some v \<Longrightarrow> bt_get m k = Some v"
  by (cases m; force simp: bt_invar_def bt_get_def dest: map_of_SomeD)+

definition hot_ok :: "(u64 \<Rightarrow> u32 set) \<Rightarrow> l1_hot_dict \<Rightarrow> bool" where
  "hot_ok F d \<longleftrightarrow> hm_invar (hd_entries d) \<and> (\<forall>k e. hm_get (hd_entries d) k = Some e \<longrightarrow> entry_typed F k e)"

definition warm_ok :: "(u64 \<Rightarrow> u32 set) \<Rightarrow> l2_warm_dict \<Rightarrow> bool" where
  "warm_ok F d \<longleftrightarrow> bt_invar (wd_entries d) \<and> (\<forall>k e. bt_get (wd_entries d) k = Some e \<longrightarrow> entry_typed F k e)"

definition cold_ok :: "(u64 \<Rightarrow> u32 set) \<Rightarrow> l3_cold_dict \<Rightarrow> bool" where
  "cold_ok F d \<longleftrightarrow> hm_invar (cd_cache d) \<and> (\<forall>k e. hm_get (cd_cache d) k = Some e \<longrightarrow> entry_typed F k e)"

definition dict_typed :: "(u64 \<Rightarrow> u32 set) \<Rightarrow> tiered_dictionary \<Rightarrow> bool" where
  "dict_typed F d \<longleftrightarrow> hot_ok F (td_l1 d) \<and> warm_ok F (td_l2 d) \<and> cold_ok F (td_l3 d)"

lemma dict_typed_mono: "dict_typed F d \<Longrightarrow> (\<And>k. F k \<subseteq> G k) \<Longrightarrow> dict_typed G d"
  unfolding dict_typed_def hot_ok_def warm_ok_def cold_ok_def using entry_typed_mono by blast

lemma hot_ok_put:
  assumes "hot_ok F d" "entry_typed F k e"
  shows "hot_ok F (d \<lparr> hd_entries := hm_insert k e (hd_entries d) \<rparr>)"
  using assms by (simp add: hot_ok_def hm.invar_ins hm.get_ins)

lemma hot_ok_retain:
  assumes "hot_ok F d"
  shows "hot_ok F (d \<lparr> hd_entries := filter P (hd_entries d) \<rparr>)"
proof -
  have inv: "hm_invar (hd_entries d)" using assms by (simp add: hot_ok_def)
  have "hm_get (filter P (hd_entries d)) k = Some e \<Longrightarrow> hm_get (hd_entries d) k = Some e" for k e
    using inv by (auto simp: hm_get_filter split: option.splits if_splits)
  then show ?thesis using assms inv by (simp add: hot_ok_def hm_invar_filter)
qed

lemma hot_insert_ok:
  assumes "hot_ok F d" "i \<in> F k"
  shows "hot_ok F (snd (hot_insert k i slot d))"
proof (cases "hm_get (hd_entries d) k")
  case None
  then show ?thesis
    using hot_ok_put [OF assms(1), of k "dict_entry_new k i slot"] assms(2)
      hot_ok_put [OF hot_ok_retain [OF assms(1)], of k "dict_entry_new k i slot"]
    by (simp add: hot_insert_def Let_def entry_typed_ops)
next
  case (Some e)
  then have "entry_typed F k e" using assms(1) by (simp add: hot_ok_def)
  then show ?thesis
    using Some hot_ok_put [OF assms(1)] assms(2) by (simp add: hot_insert_def Let_def entry_typed_ops)
qed

lemma hot_get_ok: "hot_ok F d \<Longrightarrow> hot_get k d = (found, d') \<Longrightarrow> hot_ok F d' \<and> (\<forall>e. found = Some e \<longrightarrow> entry_typed F k e)"
  by (auto simp: hot_ok_def hot_get_def hm.invar_ins hm.get_ins entry_typed_ops split: option.splits if_splits)

lemma hot_remove_ok: "hot_ok F d \<Longrightarrow> hot_remove k d = (found, d') \<Longrightarrow> hot_ok F d' \<and> (\<forall>e. found = Some e \<longrightarrow> entry_typed F k e)"
  by (auto simp: hot_ok_def hot_remove_def hm.invar_del hm.get_del split: if_splits)

lemma warm_ok_put:
  assumes "warm_ok F d" "entry_typed F k e"
  shows "warm_ok F (d \<lparr> wd_entries := bt_insert k e (wd_entries d) \<rparr>)"
  using assms by (simp add: warm_ok_def bt.invar_ins bt.get_ins)

lemma warm_ok_pop: "warm_ok F d \<Longrightarrow> warm_ok F (d \<lparr> wd_entries := tl (wd_entries d) \<rparr>)"
  unfolding warm_ok_def using bt_tl by fastforce

lemma warm_insert_ok:
  assumes "warm_ok F d" "i \<in> F k"
  shows "warm_ok F (warm_insert k i slot d)"
proof (cases "bt_get (wd_entries d) k")
  case None
  then show ?thesis
    using warm_ok_put [OF assms(1), of k "dict_entry_new k i slot"] assms(2)
      warm_ok_put [OF warm_ok_pop [OF assms(1)], of k "dict_entry_new k i slot"]
    by (simp add: warm_insert_def Let_def entry_typed_ops)
next
  case (Some e)
  then have "entry_typed F k e" using assms(1) by (simp add: warm_ok_def)
  then show ?thesis
    using Some warm_ok_put [OF assms(1)] assms(2) by (simp add: warm_insert_def entry_typed_ops)
qed

lemma warm_get_ok: "warm_ok F d \<Longrightarrow> warm_get k d = (found, d') \<Longrightarrow> warm_ok F d' \<and> (\<forall>e. found = Some e \<longrightarrow> entry_typed F k e)"
  by (auto simp: warm_ok_def warm_get_def bt.invar_ins bt.get_ins entry_typed_ops split: option.splits if_splits)

lemma cold_insert_ok: "cold_ok F d \<Longrightarrow> i \<in> F k \<Longrightarrow> cold_ok F (cold_insert k i slot d)"
  by (auto simp: cold_ok_def cold_insert_def hm.invar_ins hm.get_ins entry_typed_ops split: option.splits if_splits)

lemma cold_get_ok: "cold_ok F d \<Longrightarrow> cold_get k d = (found, d') \<Longrightarrow> cold_ok F d' \<and> (\<forall>e. found = Some e \<longrightarrow> entry_typed F k e)"
  by (auto simp: cold_ok_def cold_get_def hm.invar_ins hm.get_ins entry_typed_ops split: option.splits if_splits)

lemma tiered_get_typed:
  assumes "dict_typed F d"
  shows "\<exists>found d'. tiered_get k d = Ok (found, d') \<and> dict_typed F d' \<and> (\<forall>e. found = Some e \<longrightarrow> entry_typed F k e)"
proof -
  obtain f1 l1 f2 l2 f3 l3 where g: "hot_get k (td_l1 d) = (f1, l1)" "warm_get k (td_l2 d) = (f2, l2)" "cold_get k (td_l3 d) = (f3, l3)"
    by (metis surj_pair)
  have ok: "hot_ok F (td_l1 d)" "warm_ok F (td_l2 d)" "cold_ok F (td_l3 d)" using assms by (simp_all add: dict_typed_def)
  note h = hot_get_ok [OF ok(1) g(1)] warm_get_ok [OF ok(2) g(2)] cold_get_ok [OF ok(3) g(3)]
  consider e where "f1 = Some e" | e where "f1 = None" "f2 = Some e" | "f1 = None" "f2 = None" by (cases f1; cases f2) auto
  then show ?thesis
  proof cases
    case 2
    then obtain i where i: "i \<in> F k" "first_account e = Ok i" using h(2) entry_typed_first by blast
    then show ?thesis
      using 2 g h ok by (auto simp: tiered_get_def dict_typed_def hot_insert_ok)
  qed (use g h ok in \<open>auto simp: tiered_get_def dict_typed_def\<close>)
qed

lemma demote12_typed:
  assumes "dict_typed F d"
  shows "\<exists>d'. demote_l1_to_l2 k d = Ok d' \<and> dict_typed F d'"
proof -
  obtain f l where g: "hot_remove k (td_l1 d) = (f, l)" by fastforce
  have "hot_ok F (td_l1 d)" using assms by (simp add: dict_typed_def)
  note h = hot_remove_ok [OF this g]
  show ?thesis
  proof (cases f)
    case (Some e)
    then obtain i where "i \<in> F k" "first_account e = Ok i" using h entry_typed_first by blast
    then show ?thesis using Some g h assms by (auto simp: demote_l1_to_l2_def dict_typed_def warm_insert_ok)
  qed (use g h assms in \<open>auto simp: demote_l1_to_l2_def dict_typed_def\<close>)
qed

lemma demote23_typed:
  assumes "dict_typed F d"
  shows "\<exists>d'. demote_l2_to_l3 k d = Ok d' \<and> dict_typed F d'"
proof -
  obtain f l where g: "warm_get k (td_l2 d) = (f, l)" by fastforce
  have "warm_ok F (td_l2 d)" using assms by (simp add: dict_typed_def)
  note h = warm_get_ok [OF this g]
  show ?thesis
  proof (cases f)
    case (Some e)
    then obtain i where "i \<in> F k" "first_account e = Ok i" using h entry_typed_first by blast
    then show ?thesis using Some g h assms by (auto simp: demote_l2_to_l3_def dict_typed_def cold_insert_ok)
  qed (use g h assms in \<open>auto simp: demote_l2_to_l3_def dict_typed_def\<close>)
qed

lemma inserted_snoc: "inserted_ids k (ops @ [x]) = inserted_step k x (inserted_ids k ops)"
  by (simp add: inserted_ids_def)

lemma inserted_grows: "set (inserted_ids k ops) \<subseteq> set (inserted_ids k (ops @ [x]))"
  unfolding inserted_snoc by (cases x) (simp_all add: add_id_def subset_insertI)

lemma dict_run_snoc: "dict_run (xs @ [x]) d = rbind (dict_run xs d) (dict_step x)"
proof (induction xs arbitrary: d)
  case Nil
  then show ?case by (cases "dict_step x d") simp_all
next
  case (Cons y ys)
  then show ?case by (cases "dict_step y d") simp_all
qed

lemma dict_step_typed:
  assumes "dict_typed (\<lambda>k. set (inserted_ids k ops)) d"
  shows "\<exists>d'. dict_step x d = Ok d' \<and> dict_typed (\<lambda>k. set (inserted_ids k (ops @ [x]))) d'"
proof -
  let ?G = "\<lambda>k. set (inserted_ids k (ops @ [x]))"
  have G: "dict_typed ?G d" by (rule dict_typed_mono [OF assms]) (rule inserted_grows)
  show ?thesis
  proof (cases x)
    case (Dict_Insert k i)
    then have "i \<in> ?G k" by (simp add: inserted_snoc add_id_def)
    then show ?thesis using Dict_Insert G by (simp add: dict_typed_def tiered_insert_def hot_insert_ok)
  next
    case (Dict_Lookup k)
    then show ?thesis using tiered_get_typed [OF G, of k] by auto
  next
    case (Dict_Demote12 k)
    then show ?thesis using demote12_typed [OF G, of k] by simp
  next
    case (Dict_Demote23 k)
    then show ?thesis using demote23_typed [OF G, of k] by simp
  next
    case (Dict_Slot s)
    then show ?thesis using G by (simp add: dict_typed_def tiered_update_slot_def)
  qed
qed

lemma dict_run_typed:
  "\<exists>d. dict_run ops (tiered_new l1_size l2_size) = Ok d \<and> dict_typed (\<lambda>k. set (inserted_ids k ops)) d"
proof (induction ops rule: rev_induct)
  case Nil
  then show ?case
    by (simp add: tiered_new_def dict_typed_def hot_ok_def warm_ok_def cold_ok_def hm.invar_empty bt.invar_empty hm.get_empty bt.get_empty)
next
  case (snoc x ops)
  then show ?case using dict_step_typed [of ops _ x] by (auto simp: dict_run_snoc)
qed

lemma warm_range_set:
  assumes "warm_ok F d" "start \<le> stop"
  shows "\<exists>es. warm_range start stop d = Ok es \<and>
           set es = {e. start \<le> de_key e \<and> de_key e \<le> stop \<and> bt_get (wd_entries d) (de_key e) = Some e}"
proof -
  have inv: "bt_invar (wd_entries d)" using assms(1) by (simp add: warm_ok_def)
  have mem: "(k, e) \<in> set (wd_entries d) \<longleftrightarrow> bt_get (wd_entries d) k = Some e" for k e
    using bt_get_eq_Some [OF inv] by blast
  have key: "bt_get (wd_entries d) k = Some e \<Longrightarrow> de_key e = k" for k e
    using assms(1) by (auto simp: warm_ok_def entry_typed_def)
  let ?S = "{e. start \<le> de_key e \<and> de_key e \<le> stop \<and> bt_get (wd_entries d) (de_key e) = Some e}"
  have "snd ` {p \<in> set (wd_entries d). start \<le> fst p \<and> fst p \<le> stop} = ?S"
  proof (intro equalityI subsetI)
    fix e assume "e \<in> snd ` {p \<in> set (wd_entries d). start \<le> fst p \<and> fst p \<le> stop}"
    then obtain k where "bt_get (wd_entries d) k = Some e" "start \<le> k" "k \<le> stop" using mem by auto
    then show "e \<in> ?S" using key by blast
  next
    fix e assume "e \<in> ?S"
    then have "(de_key e, e) \<in> {p \<in> set (wd_entries d). start \<le> fst p \<and> fst p \<le> stop}" using mem by simp
    then show "e \<in> snd ` {p \<in> set (wd_entries d). start \<le> fst p \<and> fst p \<le> stop}" by force
  qed
  then show ?thesis using assms(2) by (simp add: warm_range_def)
qed

section \<open>Histories without demotion\<close>

text \<open>
  While nothing is demoted the warm and cold levels stay empty, and as long as the access
  counters do not wrap, the eviction of the hot level keeps every entry: its capacity bounds
  nothing.
\<close>

fun no_demotion :: "dict_op \<Rightarrow> bool" where
  "no_demotion (Dict_Demote12 k) = False"
| "no_demotion (Dict_Demote23 k) = False"
| "no_demotion _ = True"

definition counted :: "nat \<Rightarrow> dict_entry \<Rightarrow> bool" where
  "counted n e \<longleftrightarrow> 0 < unat (de_access_count e) \<and> unat (de_access_count e) \<le> n"

fun entry_exact :: "nat \<Rightarrow> u32 list \<Rightarrow> dict_entry option \<Rightarrow> bool" where
  "entry_exact n ids None \<longleftrightarrow> ids = []"
| "entry_exact n ids (Some e) \<longleftrightarrow> de_account_ids e = ids \<and> ids \<noteq> [] \<and> counted n e"

definition hot_exact :: "nat \<Rightarrow> (u64 \<Rightarrow> u32 list) \<Rightarrow> l1_hot_dict \<Rightarrow> bool" where
  "hot_exact n F d \<longleftrightarrow> hm_invar (hd_entries d) \<and> (\<forall>k. entry_exact n (F k) (hm_get (hd_entries d) k))"

definition dict_exact :: "nat \<Rightarrow> (u64 \<Rightarrow> u32 list) \<Rightarrow> tiered_dictionary \<Rightarrow> bool" where
  "dict_exact n F d \<longleftrightarrow> hot_exact n F (td_l1 d) \<and> wd_entries (td_l2 d) = [] \<and> cd_cache (td_l3 d) = []"

lemma counted_Suc: "counted n e \<Longrightarrow> counted (Suc n) e"
  by (simp add: counted_def)

lemma unat_succ_u64: "unat (w :: u64) \<le> n \<Longrightarrow> Suc n < 2 ^ 64 \<Longrightarrow> unat (w + 1) = Suc (unat w)"
  by (simp add: unat_word_ariths)

lemma counted_ops:
  assumes "counted n e" "Suc n < 2 ^ 64"
  shows "counted (Suc n) (dict_touch e)" "counted (Suc n) (dict_add_account i (dict_access slot e))"
  using assms unat_succ_u64 [of "de_access_count e" n]
  by (simp_all add: counted_def dict_touch_def dict_access_def dict_add_account_def)

lemma counted_new: "counted (Suc n) (dict_entry_new k i slot)"
  by (simp add: counted_def dict_entry_new_def)

lemma entry_exact_Suc: "entry_exact n ids found \<Longrightarrow> entry_exact (Suc n) ids found"
  by (cases found) (simp_all add: counted_Suc)

lemma hot_exact_get: "hot_exact n F d \<Longrightarrow> hm_get (hd_entries d) k = Some e \<Longrightarrow> de_account_ids e = F k \<and> F k \<noteq> [] \<and> counted n e"
  using entry_exact.simps unfolding hot_exact_def by metis

lemma hot_exact_none: "hot_exact n F d \<Longrightarrow> hm_get (hd_entries d) k = None \<Longrightarrow> F k = []"
  using entry_exact.simps unfolding hot_exact_def by metis

lemma hot_exact_Suc: "hot_exact n F d \<Longrightarrow> hot_exact (Suc n) F d"
  unfolding hot_exact_def using entry_exact_Suc by blast

lemma hot_exact_put:
  assumes "hot_exact n F d" "counted n e" "de_account_ids e = ids" "ids \<noteq> []"
  shows "hot_exact n (F(k := ids)) (d \<lparr> hd_entries := hm_insert k e (hd_entries d) \<rparr>)"
  using assms unfolding hot_exact_def by (auto simp: hm.invar_ins hm.get_ins)

text \<open>The retention test of a full hot level holds of every entry.\<close>

lemma hot_evicts_nothing:
  assumes "hot_exact n F d"
  shows "filter (\<lambda>(_, v). de_access_count v > 0) (hd_entries d) = hd_entries d"
proof (rule filter_True, rule ballI)
  fix p assume p: "p \<in> set (hd_entries d)"
  obtain k e where ke: "p = (k, e)" by (cases p)
  have "distinct (map fst (hd_entries d))" using assms by (simp add: hot_exact_def hm_invar_def)
  then have "hm_get (hd_entries d) k = Some e" using p ke by (simp add: hm_get_def)
  then have "counted n e" using hot_exact_get [OF assms] by blast
  then show "case p of (_, v) \<Rightarrow> de_access_count v > 0"
    using ke by (simp add: counted_def unat_gt_0 word_gt_0)
qed

lemma hot_insert_exact:
  assumes "hot_exact n F d" "Suc n < 2 ^ 64"
  shows "hot_exact (Suc n) (F(k := add_id i (F k))) (snd (hot_insert k i slot d))"
proof (cases "hm_get (hd_entries d) k")
  case None
  let ?e = "dict_entry_new k i slot"
  have "hot_exact (Suc n) (F(k := [i])) (d \<lparr> hd_entries := hm_insert k ?e (hd_entries d) \<rparr>)"
    by (rule hot_exact_put [OF hot_exact_Suc [OF assms(1)] counted_new]) (simp_all add: dict_entry_new_def)
  then show ?thesis
    using None hot_exact_none [OF assms(1) None] hot_evicts_nothing [OF assms(1)]
    by (simp add: hot_insert_def Let_def add_id_def)
next
  case (Some e)
  let ?e = "dict_add_account i (dict_access slot e)"
  have e: "de_account_ids e = F k" "F k \<noteq> []" "counted n e" using hot_exact_get [OF assms(1) Some] by auto
  have "hot_exact (Suc n) (F(k := add_id i (F k))) (d \<lparr> hd_entries := hm_insert k ?e (hd_entries d) \<rparr>)"
    by (rule hot_exact_put [OF hot_exact_Suc [OF assms(1)] counted_ops(2) [OF e(3) assms(2)]])
      (use e in \<open>simp_all add: dict_add_account_def dict_access_def add_id_def\<close>)
  then show ?thesis using Some by (simp add: hot_insert_def Let_def)
qed

lemma tiered_get_exact:
  assumes "dict_exact n F d" "Suc n < 2 ^ 64"
  shows "\<exists>found d'. tiered_get k d = Ok (found, d') \<and> dict_exact (Suc n) F d' \<and>
           F k = (case found of None \<Rightarrow> [] | Some e \<Rightarrow> de_account_ids e)"
proof -
  have x: "hot_exact n F (td_l1 d)" "wd_entries (td_l2 d) = []" "cd_cache (td_l3 d) = []"
    using assms(1) by (simp_all add: dict_exact_def)
  show ?thesis
  proof (cases "hm_get (hd_entries (td_l1 d)) k")
    case None
    then show ?thesis using x hot_exact_none [OF x(1) None] hot_exact_Suc [OF x(1)]
      by (simp add: tiered_get_def hot_get_def warm_get_def cold_get_def dict_exact_def hm.get_empty bt.get_empty)
  next
    case (Some e)
    have e: "de_account_ids e = F k" "F k \<noteq> []" "counted n e" using hot_exact_get [OF x(1) Some] by auto
    have "hot_exact (Suc n) (F(k := F k)) (td_l1 d \<lparr> hd_entries := hm_insert k (dict_touch e) (hd_entries (td_l1 d)) \<rparr>)"
      by (rule hot_exact_put [OF hot_exact_Suc [OF x(1)] counted_ops(1) [OF e(3) assms(2)]])
        (use e in \<open>simp_all add: dict_touch_def\<close>)
    then show ?thesis using Some e(1) x by (simp add: tiered_get_def hot_get_def dict_exact_def dict_touch_def)
  qed
qed

lemma dict_step_exact:
  assumes "dict_exact n (\<lambda>k. inserted_ids k ops) d" "Suc n < 2 ^ 64" "no_demotion x"
  shows "\<exists>d'. dict_step x d = Ok d' \<and> dict_exact (Suc n) (\<lambda>k. inserted_ids k (ops @ [x])) d'"
proof (cases x)
  case (Dict_Insert k i)
  have "(\<lambda>k'. inserted_ids k' (ops @ [x])) = (\<lambda>k'. inserted_ids k' ops)(k := add_id i (inserted_ids k ops))"
    using Dict_Insert by (auto simp: inserted_snoc)
  then show ?thesis
    using Dict_Insert assms hot_insert_exact [of n "\<lambda>k. inserted_ids k ops" "td_l1 d" k i "td_current_slot d"]
    by (simp add: dict_exact_def tiered_insert_def)
next
  case (Dict_Lookup k)
  then show ?thesis using tiered_get_exact [OF assms(1,2), of k] by (auto simp: inserted_snoc)
next
  case (Dict_Slot s)
  then show ?thesis using assms hot_exact_Suc by (auto simp: dict_exact_def tiered_update_slot_def inserted_snoc)
qed (use assms in simp_all)

lemma dict_run_exact:
  "list_all no_demotion ops \<Longrightarrow> length ops < 2 ^ 64 \<Longrightarrow>
   \<exists>d. dict_run ops (tiered_new l1_size l2_size) = Ok d \<and> dict_exact (length ops) (\<lambda>k. inserted_ids k ops) d"
proof (induction ops rule: rev_induct)
  case Nil
  then show ?case by (simp add: tiered_new_def dict_exact_def hot_exact_def hm.invar_empty hm.get_empty inserted_ids_def)
next
  case (snoc x ops)
  then obtain d where "dict_run ops (tiered_new l1_size l2_size) = Ok d" "dict_exact (length ops) (\<lambda>k. inserted_ids k ops) d"
    by auto
  then show ?case using dict_step_exact [of "length ops" ops d x] snoc.prems by (auto simp: dict_run_snoc)
qed

text \<open>
  Demoting an entry keeps the first of its account ids only, and demoting it again copies it
  to the cold level without removing it from the warm one.
\<close>

lemma demotion_drops_ids:
  "rbind (dict_run [Dict_Insert 7 1, Dict_Insert 7 2, Dict_Demote12 7] (tiered_new 4 4)) (\<lambda>d.
     rbind (tiered_get 7 d) (\<lambda>(found, _). Ok (map_option de_account_ids found))) = Ok (Some [1])"
  by code_simp

lemma demotion_copies:
  "rbind (dict_run [Dict_Insert 7 1, Dict_Demote12 7, Dict_Demote23 7] (tiered_new 4 4)) (\<lambda>d. Ok (tiered_stats d))
     = Ok \<lparr> tst_l1_count = 0, tst_l2_count = 1, tst_l3_count = 1, tst_total_count = 2 \<rparr>"
  by code_simp

text \<open>C36: Whatever sequence of insertions, lookups, demotions and slot changes is applied to a new
  tiered dictionary, no operation panics, and a lookup afterwards returns an entry that carries
  the key asked for and a non-empty list of distinct account ids, all inserted under that key;
  the range query over ordered bounds returns, of the warm level, exactly the entries whose
  key lies in the range.  When nothing was demoted and fewer than \<open>2^64 - 1\<close> operations ran, a
  lookup returns all the ids inserted under the key, in the order of their first insertion,
  whatever the capacities.
\<close>

theorem tiered_dictionary_typed:
  "\<exists>d. dict_run ops (tiered_new l1_size l2_size) = Ok d \<and>
     (\<exists>found d'. tiered_get k d = Ok (found, d') \<and>
        (\<forall>e. found = Some e \<longrightarrow>
           de_key e = k \<and> de_account_ids e \<noteq> [] \<and> distinct (de_account_ids e) \<and>
           set (de_account_ids e) \<subseteq> set (inserted_ids k ops)) \<and>
        (list_all no_demotion ops \<and> Suc (length ops) < 2 ^ 64 \<longrightarrow>
           inserted_ids k ops = (case found of None \<Rightarrow> [] | Some e \<Rightarrow> de_account_ids e))) \<and>
     (start \<le> stop \<longrightarrow>
        (\<exists>es. warm_range start stop (td_l2 d) = Ok es \<and>
          set es = {e. start \<le> de_key e \<and> de_key e \<le> stop \<and> bt_get (wd_entries (td_l2 d)) (de_key e) = Some e}))"
proof -
  obtain d where d: "dict_run ops (tiered_new l1_size l2_size) = Ok d" "dict_typed (\<lambda>k. set (inserted_ids k ops)) d"
    using dict_run_typed by blast
  obtain found d' where g: "tiered_get k d = Ok (found, d')" "\<forall>e. found = Some e \<longrightarrow> entry_typed (\<lambda>k. set (inserted_ids k ops)) k e"
    using tiered_get_typed [OF d(2), of k] by blast
  have exact: "inserted_ids k ops = (case found of None \<Rightarrow> [] | Some e \<Rightarrow> de_account_ids e)"
    if "list_all no_demotion ops" "Suc (length ops) < 2 ^ 64"
  proof -
    have "dict_exact (length ops) (\<lambda>k. inserted_ids k ops) d"
      using dict_run_exact [of ops l1_size l2_size] that d(1) by auto
    then show ?thesis using tiered_get_exact [of "length ops" _ d k] that(2) g(1) by auto
  qed
  have "\<exists>es. warm_range start stop (td_l2 d) = Ok es \<and>
          set es = {e. start \<le> de_key e \<and> de_key e \<le> stop \<and> bt_get (wd_entries (td_l2 d)) (de_key e) = Some e}"
    if "start \<le> stop"
    using that warm_range_set [of "\<lambda>k. set (inserted_ids k ops)" "td_l2 d" start stop] d(2)
    by (simp add: dict_typed_def)
  then show ?thesis using d(1) g exact by (auto simp: entry_typed_def)
qed

theorem tiered_dictionary_typed_witness:
  "\<exists>d. dict_run [Dict_Insert 7 1, Dict_Insert 7 2, Dict_Lookup 7, Dict_Insert 7 1] (tiered_new 1 1) = Ok d \<and>
     (\<exists>e d'. tiered_get 7 d = Ok (Some e, d') \<and> de_account_ids e = [1, 2])"
proof -
  let ?ops = "[Dict_Insert 7 1, Dict_Insert 7 2, Dict_Lookup 7, Dict_Insert 7 1]"
  have ids: "inserted_ids 7 ?ops = [1, 2]" "list_all no_demotion ?ops" by code_simp+
  obtain d found d' where d: "dict_run ?ops (tiered_new 1 1) = Ok d" "tiered_get 7 d = Ok (found, d')"
    "inserted_ids 7 ?ops = (case found of None \<Rightarrow> [] | Some e \<Rightarrow> de_account_ids e)"
    using tiered_dictionary_typed [of ?ops 1 1 7 0 0] ids(2) by auto
  then show ?thesis using ids by (cases found) auto
qed

end
