(* ===== verification/Memcmp_Accelerator.thy ===== *)
theory Memcmp_Accelerator
  imports Secondary_Index Complex_Main
begin

text \<open>
  The memcmp acceleration layer (\<open>index-fabric/src/memcmp_accelerator.rs\<close>): for each program,
  an index from the bytes at the tracked offsets of the account data to the bitmap of account
  ids.

  Offsets and lengths are natural numbers: a custom offset has size 0, so no sum of the code
  overflows.  Averages are rationals with a rounding argument for the conversions to \<open>f64\<close> and
  the division.  The structures have no lock; every call is one step.
\<close>

section \<open>Offsets\<close>

datatype common_offset = Discriminator | Owner | Mint | Collection | Custom nat

primrec offset_of :: "common_offset \<Rightarrow> nat" where
  "offset_of Discriminator = 0"
| "offset_of Owner = 32"
| "offset_of Mint = 64"
| "offset_of Collection = 1"
| "offset_of (Custom offset) = offset"

primrec expected_size :: "common_offset \<Rightarrow> nat" where
  "expected_size Discriminator = 8"
| "expected_size Owner = 32"
| "expected_size Mint = 32"
| "expected_size Collection = 32"
| "expected_size (Custom _) = 0"


section \<open>The index of one offset\<close>

record 'b offset_index =
  oi_index :: "(byte list, 'b pubkey_bitmap) btree"
  oi_entry_count :: u64

definition offset_index_new :: "'b offset_index" where
  "offset_index_new = \<lparr> oi_index = [], oi_entry_count = 0 \<rparr>"

definition offset_insert :: "'b treemap_ops \<Rightarrow> byte list \<Rightarrow> u64 \<Rightarrow> 'b offset_index \<Rightarrow> 'b offset_index" where
  "offset_insert R bytes account_id ix =
     (let bitmap = (case bt_get (oi_index ix) bytes of Some b \<Rightarrow> b | None \<Rightarrow> pb_new R)
      in ix \<lparr> oi_index := bt_insert bytes (snd (pb_insert R account_id bitmap)) (oi_index ix),
             oi_entry_count := oi_entry_count ix + 1 \<rparr>)"

definition offset_remove :: "'b treemap_ops \<Rightarrow> byte list \<Rightarrow> u64 \<Rightarrow> 'b offset_index \<Rightarrow> 'b offset_index" where
  "offset_remove R bytes account_id ix =
     (case bt_get (oi_index ix) bytes of
        None \<Rightarrow> ix
      | Some bitmap \<Rightarrow>
          ix \<lparr> oi_index := bt_insert bytes (snd (pb_remove R account_id bitmap)) (oi_index ix),
               oi_entry_count := saturating_sub (oi_entry_count ix) 1 \<rparr>)"

definition offset_get :: "'b offset_index \<Rightarrow> byte list \<Rightarrow> 'b pubkey_bitmap option" where
  "offset_get ix bytes = bt_get (oi_index ix) bytes"

definition offset_keys :: "'b offset_index \<Rightarrow> byte list list" where
  "offset_keys ix = bt_keys (oi_index ix)"

definition offset_len :: "'b offset_index \<Rightarrow> nat" where
  "offset_len ix = length (oi_index ix)"

record offset_index_stats =
  ois_unique_keys :: u64
  ois_total_entries :: u64
  ois_avg_entries_per_key :: rat

definition offset_stats :: "(rat \<Rightarrow> rat) \<Rightarrow> 'b offset_index \<Rightarrow> offset_index_stats" where
  "offset_stats f64 ix =
     \<lparr> ois_unique_keys = of_nat (length (oi_index ix)), ois_total_entries = oi_entry_count ix,
       ois_avg_entries_per_key =
         (if oi_index ix = [] then 0
          else f64 (f64 (of_nat (unat (oi_entry_count ix))) / f64 (of_nat (length (oi_index ix))))) \<rparr>"


section \<open>The accelerator of one program\<close>

record ('pk, 'b) program_memcmp_accelerator =
  pma_program_id :: 'pk
  pma_offset_indexes :: "(nat, 'b offset_index) btree"
  pma_tracked_offsets :: "common_offset list"

definition pma_new :: "'pk \<Rightarrow> common_offset list \<Rightarrow> ('pk, 'b) program_memcmp_accelerator" where
  "pma_new program_id tracked_offsets =
     \<lparr> pma_program_id = program_id, pma_offset_indexes = [], pma_tracked_offsets = tracked_offsets \<rparr>"

text \<open>The bytes an offset selects; \<open>None\<close> where the loop body continues.\<close>

definition tracked_bytes :: "common_offset \<Rightarrow> byte list \<Rightarrow> byte list option" where
  "tracked_bytes offset_def data =
     (let offset = offset_of offset_def; width = expected_size offset_def
      in if length data < offset + width then None
         else if width > 0 then Some (take width (drop offset data))
         else None)"

definition pma_insert_at ::
  "'b treemap_ops \<Rightarrow> u64 \<Rightarrow> byte list \<Rightarrow> common_offset \<Rightarrow> (nat, 'b offset_index) btree \<Rightarrow> (nat, 'b offset_index) btree" where
  "pma_insert_at R account_id data offset_def ixs =
     (case tracked_bytes offset_def data of
        None \<Rightarrow> ixs
      | Some bytes \<Rightarrow>
          (let offset = offset_of offset_def;
               ix = (case bt_get ixs offset of Some ix \<Rightarrow> ix | None \<Rightarrow> offset_index_new)
           in bt_insert offset (offset_insert R bytes account_id ix) ixs))"

definition pma_insert_account ::
  "'b treemap_ops \<Rightarrow> u64 \<Rightarrow> byte list \<Rightarrow> ('pk, 'b) program_memcmp_accelerator \<Rightarrow> ('pk, 'b) program_memcmp_accelerator" where
  "pma_insert_account R account_id data a =
     a \<lparr> pma_offset_indexes := fold (pma_insert_at R account_id data) (pma_tracked_offsets a) (pma_offset_indexes a) \<rparr>"

definition pma_remove_at ::
  "'b treemap_ops \<Rightarrow> u64 \<Rightarrow> byte list \<Rightarrow> common_offset \<Rightarrow> (nat, 'b offset_index) btree \<Rightarrow> (nat, 'b offset_index) btree" where
  "pma_remove_at R account_id data offset_def ixs =
     (case tracked_bytes offset_def data of
        None \<Rightarrow> ixs
      | Some bytes \<Rightarrow>
          (case bt_get ixs (offset_of offset_def) of
             None \<Rightarrow> ixs
           | Some ix \<Rightarrow> bt_insert (offset_of offset_def) (offset_remove R bytes account_id ix) ixs))"

definition pma_remove_account ::
  "'b treemap_ops \<Rightarrow> u64 \<Rightarrow> byte list \<Rightarrow> ('pk, 'b) program_memcmp_accelerator \<Rightarrow> ('pk, 'b) program_memcmp_accelerator" where
  "pma_remove_account R account_id data a =
     a \<lparr> pma_offset_indexes := fold (pma_remove_at R account_id data) (pma_tracked_offsets a) (pma_offset_indexes a) \<rparr>"

definition pma_query :: "('pk, 'b) program_memcmp_accelerator \<Rightarrow> nat \<Rightarrow> byte list \<Rightarrow> 'b pubkey_bitmap option" where
  "pma_query a offset bytes =
     (case bt_get (pma_offset_indexes a) offset of None \<Rightarrow> None | Some ix \<Rightarrow> offset_get ix bytes)"

definition pma_stats :: "(rat \<Rightarrow> rat) \<Rightarrow> ('pk, 'b) program_memcmp_accelerator \<Rightarrow> (nat, offset_index_stats) btree" where
  "pma_stats f64 a = map (\<lambda>(offset, index). (offset, offset_stats f64 index)) (pma_offset_indexes a)"

definition indexed_offset_count :: "('pk, 'b) program_memcmp_accelerator \<Rightarrow> nat" where
  "indexed_offset_count a = length (pma_offset_indexes a)"


section \<open>The accelerator of all programs\<close>

record ('pk, 'b) memcmp_accelerator =
  ma_program_accelerators :: "('pk, ('pk, 'b) program_memcmp_accelerator) btree"
  ma_program_offset_configs :: "('pk, common_offset list) btree"

definition ma_new :: "('pk, 'b) memcmp_accelerator" where
  "ma_new = \<lparr> ma_program_accelerators = [], ma_program_offset_configs = [] \<rparr>"

definition configure_program ::
  "'pk::linorder \<Rightarrow> common_offset list \<Rightarrow> ('pk, 'b) memcmp_accelerator \<Rightarrow> ('pk, 'b) memcmp_accelerator" where
  "configure_program program_id offsets m =
     \<lparr> ma_program_accelerators =
         (case bt_get (ma_program_accelerators m) program_id of
            Some _ \<Rightarrow> ma_program_accelerators m
          | None \<Rightarrow> bt_insert program_id (pma_new program_id offsets) (ma_program_accelerators m)),
       ma_program_offset_configs = bt_insert program_id offsets (ma_program_offset_configs m) \<rparr>"

definition ma_ensure :: "'pk::linorder \<Rightarrow> ('pk, 'b) memcmp_accelerator \<Rightarrow> ('pk, 'b) memcmp_accelerator" where
  "ma_ensure program_id m =
     (case bt_get (ma_program_accelerators m) program_id of
        Some _ \<Rightarrow> m
      | None \<Rightarrow>
          (let offsets = (case bt_get (ma_program_offset_configs m) program_id of
                            Some os \<Rightarrow> os | None \<Rightarrow> [Discriminator, Owner])
           in m \<lparr> ma_program_accelerators := bt_insert program_id (pma_new program_id offsets) (ma_program_accelerators m) \<rparr>))"

definition ma_insert_account ::
  "'b treemap_ops \<Rightarrow> 'pk::linorder \<Rightarrow> u64 \<Rightarrow> byte list \<Rightarrow> ('pk, 'b) memcmp_accelerator \<Rightarrow> ('pk, 'b) memcmp_accelerator" where
  "ma_insert_account R program_id account_id data m0 =
     (let m = ma_ensure program_id m0
      in case bt_get (ma_program_accelerators m) program_id of
           None \<Rightarrow> m
         | Some a \<Rightarrow> m \<lparr> ma_program_accelerators :=
                         bt_insert program_id (pma_insert_account R account_id data a) (ma_program_accelerators m) \<rparr>)"

definition ma_remove_account ::
  "'b treemap_ops \<Rightarrow> 'pk::linorder \<Rightarrow> u64 \<Rightarrow> byte list \<Rightarrow> ('pk, 'b) memcmp_accelerator \<Rightarrow> ('pk, 'b) memcmp_accelerator" where
  "ma_remove_account R program_id account_id data m =
     (case bt_get (ma_program_accelerators m) program_id of
        None \<Rightarrow> m
      | Some a \<Rightarrow> m \<lparr> ma_program_accelerators :=
                      bt_insert program_id (pma_remove_account R account_id data a) (ma_program_accelerators m) \<rparr>)"

definition ma_query :: "('pk, 'b) memcmp_accelerator \<Rightarrow> 'pk \<Rightarrow> nat \<Rightarrow> byte list \<Rightarrow> 'b pubkey_bitmap option" where
  "ma_query m program_id offset bytes =
     (case bt_get (ma_program_accelerators m) program_id of None \<Rightarrow> None | Some a \<Rightarrow> pma_query a offset bytes)"

definition get_program_stats ::
  "(rat \<Rightarrow> rat) \<Rightarrow> ('pk, 'b) memcmp_accelerator \<Rightarrow> 'pk \<Rightarrow> (nat, offset_index_stats) btree option" where
  "get_program_stats f64 m program_id = map_option (pma_stats f64) (bt_get (ma_program_accelerators m) program_id)"

record memcmp_accelerator_stats =
  mas_total_programs :: u64
  mas_total_offsets :: u64
  mas_total_entries :: u64

definition ma_global_stats :: "(rat \<Rightarrow> rat) \<Rightarrow> ('pk, 'b) memcmp_accelerator \<Rightarrow> memcmp_accelerator_stats" where
  "ma_global_stats f64 m =
     fold (\<lambda>a st. st \<lparr> mas_total_programs := mas_total_programs st + 1,
                       mas_total_offsets := mas_total_offsets st + of_nat (indexed_offset_count a),
                       mas_total_entries := fold (\<lambda>s n. n + ois_total_entries s) (bt_vals (pma_stats f64 a)) (mas_total_entries st) \<rparr>)
       (bt_vals (ma_program_accelerators m))
       \<lparr> mas_total_programs = 0, mas_total_offsets = 0, mas_total_entries = 0 \<rparr>"

definition token_program_offsets :: "common_offset list" where
  "token_program_offsets = [Discriminator, Owner, Mint]"

definition metaplex_nft_offsets :: "common_offset list" where
  "metaplex_nft_offsets = [Discriminator, Collection]"

definition default_offsets :: "common_offset list" where
  "default_offsets = [Discriminator]"


section \<open>Histories and the scan they replace\<close>

datatype 'pk accel_op =
    Configure 'pk "common_offset list"
  | Insert_Account 'pk u64 "byte list"
  | Remove_Account 'pk u64 "byte list"

primrec accel_step :: "'b treemap_ops \<Rightarrow> 'pk::linorder accel_op \<Rightarrow> ('pk, 'b) memcmp_accelerator \<Rightarrow> ('pk, 'b) memcmp_accelerator" where
  "accel_step R (Configure p offsets) m = configure_program p offsets m"
| "accel_step R (Insert_Account p i data) m = ma_insert_account R p i data m"
| "accel_step R (Remove_Account p i data) m = ma_remove_account R p i data m"

text \<open>The offsets a program is indexed by are fixed by the first call that names it.\<close>

primrec tracked_step :: "'pk accel_op \<Rightarrow> ('pk \<rightharpoonup> common_offset list) \<Rightarrow> ('pk \<rightharpoonup> common_offset list)" where
  "tracked_step (Configure p offsets) T = (if T p = None then T(p \<mapsto> offsets) else T)"
| "tracked_step (Insert_Account p i data) T = (if T p = None then T(p \<mapsto> [Discriminator, Owner]) else T)"
| "tracked_step (Remove_Account p i data) T = T"

definition tracked :: "'pk accel_op list \<Rightarrow> ('pk \<rightharpoonup> common_offset list)" where
  "tracked ops = fold tracked_step ops Map.empty"

text \<open>The accounts of the programs with their data.\<close>

primrec accounts_step :: "'pk accel_op \<Rightarrow> ('pk \<times> u64 \<rightharpoonup> byte list) \<Rightarrow> ('pk \<times> u64 \<rightharpoonup> byte list)" where
  "accounts_step (Configure p offsets) A = A"
| "accounts_step (Insert_Account p i data) A = A((p, i) \<mapsto> data)"
| "accounts_step (Remove_Account p i data) A = A((p, i) := None)"

definition accounts :: "'pk accel_op list \<Rightarrow> ('pk \<times> u64 \<rightharpoonup> byte list)" where
  "accounts ops = fold accounts_step ops Map.empty"

text \<open>An account is removed with the data it has, before it is given other data.\<close>

primrec tidy_op :: "('pk \<times> u64 \<rightharpoonup> byte list) \<Rightarrow> 'pk accel_op \<Rightarrow> bool" where
  "tidy_op A (Configure p offsets) = True"
| "tidy_op A (Insert_Account p i data) = (A (p, i) = None \<or> A (p, i) = Some data)"
| "tidy_op A (Remove_Account p i data) = (A (p, i) = None \<or> A (p, i) = Some data)"

fun tidy :: "('pk \<times> u64 \<rightharpoonup> byte list) \<Rightarrow> 'pk accel_op list \<Rightarrow> bool" where
  "tidy A [] = True"
| "tidy A (x # xs) = (tidy_op A x \<and> tidy (accounts_step x A) xs)"

definition memcmp_at :: "nat \<Rightarrow> byte list \<Rightarrow> byte list \<Rightarrow> bool" where
  "memcmp_at offset bytes data \<longleftrightarrow> offset + length bytes \<le> length data \<and> take (length bytes) (drop offset data) = bytes"

section \<open>What the indexes of a program hold\<close>

definition selects :: "common_offset list \<Rightarrow> nat \<Rightarrow> byte list \<Rightarrow> byte list \<Rightarrow> bool" where
  "selects ds offset bytes data \<longleftrightarrow> (\<exists>d\<in>set ds. offset_of d = offset \<and> tracked_bytes d data = Some bytes)"

fun hits_of :: "'b treemap_ops \<Rightarrow> 'b pubkey_bitmap option \<Rightarrow> u64 set" where
  "hits_of R None = {}"
| "hits_of R (Some b) = set (pb_iter R b)"

definition ixs_get :: "(nat, 'b offset_index) btree \<Rightarrow> nat \<Rightarrow> byte list \<Rightarrow> 'b pubkey_bitmap option" where
  "ixs_get ixs offset bytes = (case bt_get ixs offset of None \<Rightarrow> None | Some ix \<Rightarrow> offset_get ix bytes)"

definition ixs_ok :: "'b treemap_ops \<Rightarrow> (nat, 'b offset_index) btree \<Rightarrow> bool" where
  "ixs_ok R ixs \<longleftrightarrow> bt_invar ixs \<and> (\<forall>offset ix. bt_get ixs offset = Some ix \<longrightarrow>
     bt_invar (oi_index ix) \<and> (\<forall>bytes b. offset_get ix bytes = Some b \<longrightarrow> pb_ok R b))"

definition at_key :: "common_offset \<Rightarrow> nat \<Rightarrow> byte list \<Rightarrow> byte list \<Rightarrow> bool" where
  "at_key d offset bytes data \<longleftrightarrow> offset_of d = offset \<and> tracked_bytes d data = Some bytes"

lemma selects_Nil: "\<not> selects [] offset bytes data"
  by (simp add: selects_def)

lemma selects_Cons: "selects (d # ds) offset bytes data \<longleftrightarrow> at_key d offset bytes data \<or> selects ds offset bytes data"
  by (auto simp: selects_def at_key_def)

lemma ixs_ok_put:
  assumes "ixs_ok R ixs" "bt_invar (oi_index ix)" "\<And>bytes b. offset_get ix bytes = Some b \<Longrightarrow> pb_ok R b"
  shows "ixs_ok R (bt_insert offset ix ixs)"
  using assms by (simp add: ixs_ok_def bt.invar_ins bt.get_ins)

lemma ixs_get_put: "ixs_ok R ixs \<Longrightarrow> ixs_get (bt_insert k ix ixs) offset bytes = (if offset = k then offset_get ix bytes else ixs_get ixs offset bytes)"
  by (simp add: ixs_get_def ixs_ok_def bt.get_ins)

lemma offset_get_insert:
  "bt_invar (oi_index ix) \<Longrightarrow> offset_get (offset_insert R k i ix) bytes =
     (if bytes = k then Some (snd (pb_insert R i (case offset_get ix k of Some b \<Rightarrow> b | None \<Rightarrow> pb_new R))) else offset_get ix bytes)"
  by (simp add: offset_get_def offset_insert_def Let_def bt.get_ins)

lemma offset_get_remove:
  "bt_invar (oi_index ix) \<Longrightarrow> offset_get (offset_remove R k i ix) bytes =
     (if bytes = k then map_option (\<lambda>b. snd (pb_remove R i b)) (offset_get ix k) else offset_get ix bytes)"
  by (simp add: offset_get_def offset_remove_def bt.get_ins split: option.split)

lemma offset_invar:
  "bt_invar (oi_index ix) \<Longrightarrow> bt_invar (oi_index (offset_insert R k i ix))"
  "bt_invar (oi_index ix) \<Longrightarrow> bt_invar (oi_index (offset_remove R k i ix))"
  by (simp_all add: offset_insert_def offset_remove_def Let_def bt.invar_ins split: option.split)

lemma ixs_ok_get:
  assumes "ixs_ok R ixs"
  shows "bt_invar (oi_index (case bt_get ixs offset of Some ix \<Rightarrow> ix | None \<Rightarrow> offset_index_new))"
    "offset_get (case bt_get ixs offset of Some ix \<Rightarrow> ix | None \<Rightarrow> offset_index_new) bytes = ixs_get ixs offset bytes"
    "ixs_get ixs offset bytes = Some b \<Longrightarrow> pb_ok R b"
  using assms by (auto simp: ixs_ok_def ixs_get_def offset_index_new_def offset_get_def bt.invar_empty bt.get_empty split: option.splits)

context roaring
begin

lemma insert_at_hits:
  assumes ok: "ixs_ok R ixs"
  shows "ixs_ok R (pma_insert_at R i data d ixs) \<and>
    hits_of R (ixs_get (pma_insert_at R i data d ixs) offset bytes) =
      (if at_key d offset bytes data then insert i (hits_of R (ixs_get ixs offset bytes)) else hits_of R (ixs_get ixs offset bytes))"
proof (cases "tracked_bytes d data")
  case None
  then show ?thesis using ok by (simp add: pma_insert_at_def at_key_def)
next
  case (Some k)
  define ix where "ix = (case bt_get ixs (offset_of d) of Some ix \<Rightarrow> ix | None \<Rightarrow> offset_index_new)"
  note get = ixs_ok_get [OF ok, of "offset_of d", folded ix_def]
  have step: "pma_insert_at R i data d ixs = bt_insert (offset_of d) (offset_insert R k i ix) ixs"
    using Some by (simp add: pma_insert_at_def ix_def Let_def)
  have "pb_ok R b" if "offset_get (offset_insert R k i ix) x = Some b" for x b
    using that get pb.ok_ins pb.ok_new
    by (auto simp: offset_get_insert split: if_splits option.splits)
  then have "ixs_ok R (pma_insert_at R i data d ixs)"
    unfolding step by (intro ixs_ok_put ok offset_invar get(1))
  moreover have "hits_of R (ixs_get (pma_insert_at R i data d ixs) offset bytes) =
      (if at_key d offset bytes data then insert i (hits_of R (ixs_get ixs offset bytes)) else hits_of R (ixs_get ixs offset bytes))"
    using get(1,2) Some unfolding step
    by (cases "ixs_get ixs offset k") (auto simp: ixs_get_put [OF ok] offset_get_insert at_key_def pb.elems_ins pb.elems_new)
  ultimately show ?thesis by blast
qed

lemma remove_at_hits:
  assumes ok: "ixs_ok R ixs"
  shows "ixs_ok R (pma_remove_at R i data d ixs) \<and>
    hits_of R (ixs_get (pma_remove_at R i data d ixs) offset bytes) =
      (if at_key d offset bytes data then hits_of R (ixs_get ixs offset bytes) - {i} else hits_of R (ixs_get ixs offset bytes))"
proof (cases "tracked_bytes d data = None \<or> bt_get ixs (offset_of d) = None")
  case True
  then show ?thesis using ok by (auto simp: pma_remove_at_def at_key_def ixs_get_def split: option.splits)
next
  case False
  then obtain k ix where k: "tracked_bytes d data = Some k" "bt_get ixs (offset_of d) = Some ix" by auto
  have inv: "bt_invar (oi_index ix)" using ok k(2) by (simp add: ixs_ok_def)
  have get: "offset_get ix bytes = ixs_get ixs (offset_of d) bytes" for bytes using k(2) by (simp add: ixs_get_def)
  have step: "pma_remove_at R i data d ixs = bt_insert (offset_of d) (offset_remove R k i ix) ixs"
    using k by (simp add: pma_remove_at_def)
  have "pb_ok R b" if "offset_get (offset_remove R k i ix) x = Some b" for x b
    using that inv get ixs_ok_get(3) [OF ok] pb.ok_rem
    by (auto simp: offset_get_remove split: if_splits)
  then have "ixs_ok R (pma_remove_at R i data d ixs)"
    unfolding step by (intro ixs_ok_put ok offset_invar inv)
  moreover have "hits_of R (ixs_get (pma_remove_at R i data d ixs) offset bytes) =
      (if at_key d offset bytes data then hits_of R (ixs_get ixs offset bytes) - {i} else hits_of R (ixs_get ixs offset bytes))"
    using inv get k unfolding step
    by (cases "ixs_get ixs offset k") (auto simp: ixs_get_put [OF ok] offset_get_remove at_key_def pb.elems_rem)
  ultimately show ?thesis by blast
qed

lemma insert_all_hits:
  "ixs_ok R ixs \<Longrightarrow> ixs_ok R (fold (pma_insert_at R i data) ds ixs) \<and>
    hits_of R (ixs_get (fold (pma_insert_at R i data) ds ixs) offset bytes) =
      (if selects ds offset bytes data then insert i (hits_of R (ixs_get ixs offset bytes)) else hits_of R (ixs_get ixs offset bytes))"
proof (induction ds arbitrary: ixs)
  case (Cons d ds)
  then show ?case using insert_at_hits [OF Cons.prems, of i data d offset bytes] by (simp add: selects_Cons)
qed (simp add: selects_Nil)

lemma remove_all_hits:
  "ixs_ok R ixs \<Longrightarrow> ixs_ok R (fold (pma_remove_at R i data) ds ixs) \<and>
    hits_of R (ixs_get (fold (pma_remove_at R i data) ds ixs) offset bytes) =
      (if selects ds offset bytes data then hits_of R (ixs_get ixs offset bytes) - {i} else hits_of R (ixs_get ixs offset bytes))"
proof (induction ds arbitrary: ixs)
  case (Cons d ds)
  then show ?case using remove_at_hits [OF Cons.prems, of i data d offset bytes] by (simp add: selects_Cons)
qed (simp add: selects_Nil)

end

section \<open>The accelerator answers as a scan\<close>

definition scan_hits :: "('pk \<times> u64 \<rightharpoonup> byte list) \<Rightarrow> 'pk \<Rightarrow> common_offset list \<Rightarrow> nat \<Rightarrow> byte list \<Rightarrow> u64 set" where
  "scan_hits A p ds offset bytes = {i. \<exists>data. A (p, i) = Some data \<and> selects ds offset bytes data}"

definition pma_ok :: "'b treemap_ops \<Rightarrow> ('pk \<times> u64 \<rightharpoonup> byte list) \<Rightarrow> 'pk \<Rightarrow> ('pk, 'b) program_memcmp_accelerator \<Rightarrow> bool" where
  "pma_ok R A p a \<longleftrightarrow> ixs_ok R (pma_offset_indexes a) \<and>
     (\<forall>offset bytes. hits_of R (ixs_get (pma_offset_indexes a) offset bytes) = scan_hits A p (pma_tracked_offsets a) offset bytes)"

definition accel_ok ::
  "'b treemap_ops \<Rightarrow> ('pk \<rightharpoonup> common_offset list) \<Rightarrow> ('pk \<times> u64 \<rightharpoonup> byte list) \<Rightarrow> ('pk::linorder, 'b) memcmp_accelerator \<Rightarrow> bool" where
  "accel_ok R T A m \<longleftrightarrow>
     bt_invar (ma_program_accelerators m) \<and> bt_invar (ma_program_offset_configs m) \<and>
     (\<forall>p. map_option pma_tracked_offsets (bt_get (ma_program_accelerators m) p) = T p) \<and>
     (\<forall>p. T p = None \<longrightarrow> bt_get (ma_program_offset_configs m) p = None \<and> (\<forall>i. A (p, i) = None)) \<and>
     (\<forall>p a. bt_get (ma_program_accelerators m) p = Some a \<longrightarrow> pma_ok R A p a)"

lemma scan_hits_insert:
  assumes "A (p, i) = None \<or> A (p, i) = Some data"
  shows "scan_hits (A((p, i) \<mapsto> data)) p ds offset bytes =
    (if selects ds offset bytes data then insert i (scan_hits A p ds offset bytes) else scan_hits A p ds offset bytes)"
  using assms by (auto simp: scan_hits_def)

lemma scan_hits_remove:
  assumes "A (p, i) = None \<or> A (p, i) = Some data"
  shows "scan_hits (A((p, i) := None)) p ds offset bytes =
    (if selects ds offset bytes data then scan_hits A p ds offset bytes - {i} else scan_hits A p ds offset bytes)"
  using assms by (auto simp: scan_hits_def)

lemma pma_ok_new: "\<forall>i. A (p, i) = None \<Longrightarrow> pma_ok R A p (pma_new p ds)"
  by (simp add: pma_ok_def pma_new_def ixs_ok_def ixs_get_def scan_hits_def bt.invar_empty bt.get_empty)

lemma pma_ok_other: "p \<noteq> q \<Longrightarrow> pma_ok R (A((q, i) := v)) p a \<longleftrightarrow> pma_ok R A p a"
  by (simp add: pma_ok_def scan_hits_def)

lemma accel_ok_accs:
  assumes "accel_ok R T A m" "pma_tracked_offsets a = ds" "pma_ok R (A((p, i) := v)) p a"
    "T p = None \<or> T p = Some ds"
  shows "accel_ok R (T(p \<mapsto> ds)) (A((p, i) := v)) (m \<lparr> ma_program_accelerators := bt_insert p a (ma_program_accelerators m) \<rparr>)"
  using assms by (simp add: accel_ok_def bt.invar_ins bt.get_ins pma_ok_other)

lemma accel_ok_ensure:
  assumes "accel_ok R T A m"
  shows "accel_ok R (tracked_step (Insert_Account p i data) T) A (ma_ensure p m)"
proof (cases "bt_get (ma_program_accelerators m) p")
  case None
  then have T: "T p = None" using assms by (metis accel_ok_def option.map_disc_iff)
  then have none: "bt_get (ma_program_offset_configs m) p = None" "\<forall>i. A (p, i) = None"
    using assms by (simp_all add: accel_ok_def)
  have "accel_ok R (T(p \<mapsto> [Discriminator, Owner])) (A((p, 0) := None))
      (m \<lparr> ma_program_accelerators := bt_insert p (pma_new p [Discriminator, Owner]) (ma_program_accelerators m) \<rparr>)"
    using none(2) T by (intro accel_ok_accs assms pma_ok_new) (simp_all add: pma_new_def)
  moreover have "A((p, 0) := None) = A" using none(2) by (simp add: fun_upd_idem)
  ultimately show ?thesis using None none T by (simp add: ma_ensure_def)
next
  case (Some a)
  then have "T p = Some (pma_tracked_offsets a)" using assms by (metis accel_ok_def option.map(2))
  then show ?thesis using Some assms by (simp add: ma_ensure_def)
qed

lemma accel_ok_configure:
  assumes "accel_ok R T A m"
  shows "accel_ok R (tracked_step (Configure p ds) T) A (configure_program p ds m)"
proof -
  have inv: "bt_invar (ma_program_accelerators m)" "bt_invar (ma_program_offset_configs m)"
    and acc: "\<And>p. map_option pma_tracked_offsets (bt_get (ma_program_accelerators m) p) = T p"
    using assms by (simp_all add: accel_ok_def)
  show ?thesis
  proof (cases "bt_get (ma_program_accelerators m) p")
    case None
    then have T: "T p = None" using acc [of p] by simp
    then have "\<forall>i. A (p, i) = None" using assms by (simp add: accel_ok_def)
    then show ?thesis
      using None T inv assms pma_ok_new [of A p R ds]
      by (simp add: configure_program_def accel_ok_def bt.invar_ins bt.get_ins pma_new_def)
  next
    case (Some a)
    then have "T p = Some (pma_tracked_offsets a)" using acc [of p] by simp
    then show ?thesis
      using Some inv assms by (simp add: configure_program_def accel_ok_def bt.invar_ins bt.get_ins)
  qed
qed

context roaring
begin

lemma pma_ok_insert:
  assumes "pma_ok R A p a" "A (p, i) = None \<or> A (p, i) = Some data"
  shows "pma_ok R (A((p, i) \<mapsto> data)) p (pma_insert_account R i data a)"
  using assms insert_all_hits [of "pma_offset_indexes a" i data "pma_tracked_offsets a"]
  unfolding pma_ok_def pma_insert_account_def by (simp add: scan_hits_insert)

lemma pma_ok_remove:
  assumes "pma_ok R A p a" "A (p, i) = None \<or> A (p, i) = Some data"
  shows "pma_ok R (A((p, i) := None)) p (pma_remove_account R i data a)"
  using assms remove_all_hits [of "pma_offset_indexes a" i data "pma_tracked_offsets a"]
  unfolding pma_ok_def pma_remove_account_def by (simp add: scan_hits_remove)

lemma accel_step_ok:
  assumes "accel_ok R T A m" "tidy_op A x"
  shows "accel_ok R (tracked_step x T) (accounts_step x A) (accel_step R x m)"
proof (cases x)
  case (Configure p ds)
  then show ?thesis using accel_ok_configure [OF assms(1)] by simp
next
  case (Insert_Account p i data)
  let ?T = "tracked_step x T" and ?m = "ma_ensure p m"
  have ok: "accel_ok R ?T A ?m" using accel_ok_ensure [OF assms(1)] Insert_Account by simp
  obtain ds where ds: "?T p = Some ds" using Insert_Account by (cases "T p") simp_all
  then obtain a where a: "bt_get (ma_program_accelerators ?m) p = Some a" "pma_tracked_offsets a = ds"
    using ok by (metis accel_ok_def map_option_eq_Some)
  have "pma_ok R A p a" using ok a(1) by (simp add: accel_ok_def)
  then have "pma_ok R (A((p, i) \<mapsto> data)) p (pma_insert_account R i data a)"
    using assms(2) Insert_Account by (intro pma_ok_insert) simp_all
  then have "accel_ok R (?T(p \<mapsto> ds)) (A((p, i) \<mapsto> data))
      (?m \<lparr> ma_program_accelerators := bt_insert p (pma_insert_account R i data a) (ma_program_accelerators ?m) \<rparr>)"
    using ds a(2) by (intro accel_ok_accs ok) (simp_all add: pma_insert_account_def)
  moreover have "?T(p \<mapsto> ds) = ?T" using ds by (simp add: fun_upd_idem)
  ultimately show ?thesis using Insert_Account a(1) by (simp add: ma_insert_account_def Let_def split: if_splits)
next
  case (Remove_Account p i data)
  show ?thesis
  proof (cases "bt_get (ma_program_accelerators m) p")
    case None
    then have "T p = None" using assms(1) by (metis accel_ok_def option.map_disc_iff)
    then have "A((p, i) := None) = A" using assms(1) by (simp add: accel_ok_def fun_upd_idem)
    then show ?thesis using Remove_Account None assms(1) by (simp add: ma_remove_account_def)
  next
    case (Some a)
    then have T: "T p = Some (pma_tracked_offsets a)" using assms(1) by (metis accel_ok_def option.map(2))
    have "pma_ok R A p a" using assms(1) Some by (simp add: accel_ok_def)
    then have "pma_ok R (A((p, i) := None)) p (pma_remove_account R i data a)"
      using assms(2) Remove_Account by (intro pma_ok_remove) simp_all
    then have "accel_ok R (T(p \<mapsto> pma_tracked_offsets a)) (A((p, i) := None))
        (m \<lparr> ma_program_accelerators := bt_insert p (pma_remove_account R i data a) (ma_program_accelerators m) \<rparr>)"
      using T by (intro accel_ok_accs assms(1)) (simp_all add: pma_remove_account_def)
    moreover have "T(p \<mapsto> pma_tracked_offsets a) = T" using T by (simp add: fun_upd_idem)
    ultimately show ?thesis using Remove_Account Some by (simp add: ma_remove_account_def)
  qed
qed

lemma accel_run_ok:
  "accel_ok R T A m \<Longrightarrow> tidy A ops \<Longrightarrow>
   accel_ok R (fold tracked_step ops T) (fold accounts_step ops A) (fold (accel_step R) ops m)"
  by (induction ops arbitrary: T A m) (auto dest: accel_step_ok)

end

lemma accel_ok_new: "accel_ok R Map.empty Map.empty ma_new"
  by (simp add: accel_ok_def ma_new_def bt.invar_empty bt.get_empty)

text \<open>The size of a tracked offset is determined by the offset.\<close>

lemma expected_size_unique:
  "offset_of d = offset_of e \<Longrightarrow> expected_size d > 0 \<Longrightarrow> expected_size e > 0 \<Longrightarrow> expected_size d = expected_size e"
  by (cases d; cases e) auto

lemma tracked_bytes_Some:
  "tracked_bytes d data = Some bytes \<longleftrightarrow> expected_size d > 0 \<and> length bytes = expected_size d \<and> memcmp_at (offset_of d) bytes data"
  by (auto simp: tracked_bytes_def memcmp_at_def Let_def)

lemma scan_hits_memcmp:
  "scan_hits A p ds offset bytes =
     (if \<exists>d\<in>set ds. offset_of d = offset \<and> expected_size d > 0 \<and> length bytes = expected_size d
      then {i. \<exists>data. A (p, i) = Some data \<and> memcmp_at offset bytes data} else {})"
  unfolding scan_hits_def selects_def tracked_bytes_Some by auto

text \<open>C32: When every account is removed with the data it was inserted with, and before it is given
  other data, then after any sequence of configurations, insertions and removals a query at an
  offset that is tracked for the program, for as many bytes as the offset is indexed with,
  returns exactly the ids of the present accounts of the program whose data has those bytes at
  that offset: the answer of a scan over all its accounts, and the cardinality cached with the
  bitmap is their number.  Every other query finds nothing.
\<close>

theorem memcmp_accelerator_equals_scan:
  assumes "roaring R" "tidy Map.empty ops" "m = fold (accel_step R) ops ma_new"
    "tracked ops p = Some ds"
    "hits = (if \<exists>d\<in>set ds. offset_of d = offset \<and> expected_size d > 0 \<and> length bytes = expected_size d
             then {i. \<exists>data. accounts ops (p, i) = Some data \<and> memcmp_at offset bytes data} else {})"
  shows "case ma_query m p offset bytes of
           None \<Rightarrow> hits = {}
         | Some b \<Rightarrow> set (pb_iter R b) = hits \<and> pb_len b = of_nat (card hits)"
proof -
  have ok: "accel_ok R (tracked ops) (accounts ops) m"
    using roaring.accel_run_ok [OF assms(1) accel_ok_new assms(2)] assms(3) by (simp add: tracked_def accounts_def)
  then obtain a where a: "bt_get (ma_program_accelerators m) p = Some a" "pma_tracked_offsets a = ds"
    using assms(4) by (metis accel_ok_def map_option_eq_Some)
  have "pma_ok R (accounts ops) p a" using ok a(1) by (simp add: accel_ok_def)
  moreover have "hits = scan_hits (accounts ops) p ds offset bytes"
    unfolding scan_hits_memcmp by (rule assms(5))
  ultimately have h: "hits_of R (ma_query m p offset bytes) = hits"
    "\<And>b. ma_query m p offset bytes = Some b \<Longrightarrow> pb_ok R b"
    using a ixs_ok_get(3) [of R "pma_offset_indexes a" offset bytes]
    by (simp_all add: pma_ok_def ma_query_def pma_query_def ixs_get_def)
  have "pb_len b = of_nat (card (set (pb_iter R b)))" if "pb_ok R b" for b
    using that roaring.pb_len_iter [OF assms(1) that] roaring.tm_distinct [OF assms(1), of "pb_bitmap b"]
    by (simp add: pb_iter_def distinct_card)
  then show ?thesis using h by (cases "ma_query m p offset bytes") auto
qed

theorem memcmp_accelerator_equals_scan_witness:
  "set (pb_iter list_treemap (the (ma_query
     (fold (accel_step list_treemap)
        [Configure (5::nat) default_offsets, Insert_Account 5 1 [1,2,3,4,5,6,7,8,9], Insert_Account 5 2 [1,2,3,4,5,6,7,8],
         Insert_Account 5 3 [0,0,0,0,0,0,0,0], Remove_Account 5 1 [1,2,3,4,5,6,7,8,9]] ma_new)
     5 0 [1,2,3,4,5,6,7,8]))) = {2}"
proof -
  let ?ops = "[Configure (5::nat) default_offsets, Insert_Account 5 1 [1,2,3,4,5,6,7,8,9], Insert_Account 5 2 [1,2,3,4,5,6,7,8],
         Insert_Account 5 3 [0,0,0,0,0,0,0,0], Remove_Account 5 1 [1,2,3,4,5,6,7,8,9]]"
  let ?q = "ma_query (fold (accel_step list_treemap) ?ops ma_new) 5 0 [1,2,3,4,5,6,7,8]"
  have tidy: "tidy Map.empty ?ops" and T: "tracked ?ops 5 = Some [Discriminator]"
    by (simp_all add: tracked_def default_offsets_def)
  have hits: "{2} = (if \<exists>d\<in>set [Discriminator]. offset_of d = 0 \<and> expected_size d > 0 \<and> length ([1,2,3,4,5,6,7,8] :: byte list) = expected_size d
       then {i. \<exists>data. accounts ?ops (5, i) = Some data \<and> memcmp_at 0 [1,2,3,4,5,6,7,8] data} else {})"
    by (auto simp: accounts_def memcmp_at_def split: if_splits)
  then show ?thesis
    using memcmp_accelerator_equals_scan [OF lt.roaring_axioms tidy refl T hits] by (cases ?q) auto
qed

text \<open>
  An account inserted again with other data stays under the bytes of the old data, and
  configuring a program after its first account has no effect.
\<close>

lemma reinserted_account_stays:
  "map_option (pb_iter list_treemap) (ma_query
     (fold (accel_step list_treemap)
        [Insert_Account (5::nat) 1 [1,2,3,4,5,6,7,8], Configure 5 [], Insert_Account 5 1 [0,0,0,0,0,0,0,0]] ma_new)
     5 0 [1,2,3,4,5,6,7,8]) = Some [1]"
  by code_simp

end
