(* ===== verification/Adaptive_Index.thy ===== *)
theory Adaptive_Index
  imports Lsm_Bitmap Complex_Main "HOL-Library.Char_ord" "HOL-Library.List_Lexorder"
begin

text \<open>
  The adaptive secondary index and its manager (\<open>index-fabric/src/adaptive_index.rs\<close>).

  Every call is one step.  The time a query takes is an argument, and so is the rounding of
  the conversions to \<open>f64\<close> and of their product.  The 32-bit bitmap is the parameter \<open>B\<close> of
  \<open>Lsm_Bitmap\<close>.  A range of an ordered map with crossed bounds panics.  The thread of the
  manager wakes up once a minute; \<open>adaptation_pass\<close> is what it does then.
\<close>

section \<open>The index\<close>

datatype adaptive_index_type = AT_Bitmap | AT_BTree | AT_Hash | AT_Range

record index_stats =
  ist_entry_count :: u64
  ist_query_count :: u64
  ist_avg_query_time_us :: u64
  ist_memory_bytes :: u64
  ist_hit_rate :: rat

record 'b adaptive_index =
  ai_index_type :: adaptive_index_type
  ai_bitmap_index :: "(u32, 'b) btree"
  ai_btree_index :: "(u64, u32 list) btree"
  ai_hash_index :: "(u64, u32 list) hmap"
  ai_stats :: index_stats
  ai_index_path :: string

definition adaptive_new :: "string \<Rightarrow> 'b adaptive_index" where
  "adaptive_new index_path =
     \<lparr> ai_index_type = AT_Bitmap, ai_bitmap_index = [], ai_btree_index = [], ai_hash_index = [],
       ai_stats = \<lparr> ist_entry_count = 0, ist_query_count = 0, ist_avg_query_time_us = 0, ist_memory_bytes = 0, ist_hit_rate = 0 \<rparr>,
       ai_index_path = index_path \<rparr>"

definition adaptive_insert :: "'b bitmap32_ops \<Rightarrow> u64 \<Rightarrow> u32 \<Rightarrow> 'b adaptive_index \<Rightarrow> 'b adaptive_index" where
  "adaptive_insert B key account_id x =
     (let x' = (case ai_index_type x of
          AT_Bitmap \<Rightarrow>
            x \<lparr> ai_bitmap_index := bt_insert (ucast key)
                 (rb_insert B account_id (case bt_get (ai_bitmap_index x) (ucast key) of Some b \<Rightarrow> b | None \<Rightarrow> rb_new B))
                 (ai_bitmap_index x) \<rparr>
        | AT_Hash \<Rightarrow>
            x \<lparr> ai_hash_index := hm_insert key
                 ((case hm_get (ai_hash_index x) key of Some ids \<Rightarrow> ids | None \<Rightarrow> []) @ [account_id]) (ai_hash_index x) \<rparr>
        | _ \<Rightarrow>
            x \<lparr> ai_btree_index := bt_insert key
                 ((case bt_get (ai_btree_index x) key of Some ids \<Rightarrow> ids | None \<Rightarrow> []) @ [account_id]) (ai_btree_index x) \<rparr>)
      in x' \<lparr> ai_stats := (ai_stats x') \<lparr> ist_entry_count := ist_entry_count (ai_stats x') + 1 \<rparr> \<rparr>)"

definition adaptive_answer :: "'b bitmap32_ops \<Rightarrow> u64 \<Rightarrow> 'b adaptive_index \<Rightarrow> u32 list" where
  "adaptive_answer B key x =
     (case ai_index_type x of
        AT_Bitmap \<Rightarrow> (case bt_get (ai_bitmap_index x) (ucast key) of Some b \<Rightarrow> rb_iter B b | None \<Rightarrow> [])
      | AT_Hash \<Rightarrow> (case hm_get (ai_hash_index x) key of Some ids \<Rightarrow> ids | None \<Rightarrow> [])
      | _ \<Rightarrow> (case bt_get (ai_btree_index x) key of Some ids \<Rightarrow> ids | None \<Rightarrow> []))"

definition adaptive_query :: "'b bitmap32_ops \<Rightarrow> u64 \<Rightarrow> u64 \<Rightarrow> 'b adaptive_index \<Rightarrow> u32 list \<times> 'b adaptive_index" where
  "adaptive_query B elapsed key x =
     (let st = ai_stats x
      in (adaptive_answer B key x,
          x \<lparr> ai_stats := st \<lparr> ist_query_count := ist_query_count st + 1,
                              ist_avg_query_time_us := (ist_avg_query_time_us st + elapsed) div 2 \<rparr> \<rparr>))"

definition query_range :: "u64 \<Rightarrow> u64 \<Rightarrow> 'b adaptive_index \<Rightarrow> (unit, u32 list) result" where
  "query_range start_key end_key x =
     (if ai_index_type x \<noteq> AT_BTree \<and> ai_index_type x \<noteq> AT_Range then Ok []
      else if end_key < start_key then Panic
      else Ok (concat (map snd (filter (\<lambda>p. start_key \<le> fst p \<and> fst p \<le> end_key) (ai_btree_index x)))))"

definition count_unique_keys :: "'b adaptive_index \<Rightarrow> u64" where
  "count_unique_keys x =
     (case ai_index_type x of
        AT_Bitmap \<Rightarrow> of_nat (length (ai_bitmap_index x))
      | AT_Hash \<Rightarrow> of_nat (length (ai_hash_index x))
      | _ \<Rightarrow> of_nat (length (ai_btree_index x)))"

definition evaluate_migration :: "(rat \<Rightarrow> rat) \<Rightarrow> 'b adaptive_index \<Rightarrow> adaptive_index_type option" where
  "evaluate_migration f64 x =
     (let st = ai_stats x; unique_keys = count_unique_keys x; current_type = ai_index_type x in
      if ist_entry_count st < 100 then None
      else if f64 (of_nat (unat unique_keys)) > f64 (f64 (of_nat (unat (ist_entry_count st))) * f64 (8 / 10)) \<and> current_type \<noteq> AT_BTree
      then Some AT_BTree
      else if unique_keys < 1000 \<and> ist_entry_count st > 10000 \<and> current_type \<noteq> AT_Bitmap then Some AT_Bitmap
      else if ist_avg_query_time_us st > 100 \<and> unique_keys > 10000 \<and> current_type \<noteq> AT_Hash then Some AT_Hash
      else None)"

definition migrate_to :: "adaptive_index_type \<Rightarrow> 'b adaptive_index \<Rightarrow> 'b adaptive_index" where
  "migrate_to new_type x =
     (if new_type = ai_index_type x then x
      else (case new_type of
              AT_Bitmap \<Rightarrow> x \<lparr> ai_bitmap_index := [] \<rparr>
            | AT_Hash \<Rightarrow> x \<lparr> ai_hash_index := [] \<rparr>
            | _ \<Rightarrow> x \<lparr> ai_btree_index := [] \<rparr>) \<lparr> ai_index_type := new_type \<rparr>)"


section \<open>The manager\<close>

record 'b adaptive_manager =
  am_indexes :: "(string, 'b adaptive_index) btree"
  am_base_dir :: string

definition adaptive_manager_new :: "string \<Rightarrow> 'b adaptive_manager" where
  "adaptive_manager_new base_dir = \<lparr> am_indexes = [], am_base_dir = base_dir \<rparr>"

text \<open>\<open>join\<close> is the path operation of the standard library.\<close>

definition get_or_create_index ::
  "(string \<Rightarrow> string \<Rightarrow> string) \<Rightarrow> string \<Rightarrow> 'b adaptive_manager \<Rightarrow> 'b adaptive_index \<times> 'b adaptive_manager" where
  "get_or_create_index join name m =
     (case bt_get (am_indexes m) name of
        Some index \<Rightarrow> (adaptive_new (ai_index_path index), m)
      | None \<Rightarrow>
          (let index_path = join (am_base_dir m) (name @ ''.idx'')
           in (adaptive_new index_path, m \<lparr> am_indexes := bt_insert name (adaptive_new index_path) (am_indexes m) \<rparr>)))"

definition adapt :: "(rat \<Rightarrow> rat) \<Rightarrow> 'b adaptive_index \<Rightarrow> 'b adaptive_index" where
  "adapt f64 x = (case evaluate_migration f64 x of Some new_type \<Rightarrow> migrate_to new_type x | None \<Rightarrow> x)"

definition adaptation_pass :: "(rat \<Rightarrow> rat) \<Rightarrow> 'b adaptive_manager \<Rightarrow> 'b adaptive_manager" where
  "adaptation_pass f64 m = m \<lparr> am_indexes := map (\<lambda>(name, index). (name, adapt f64 index)) (am_indexes m) \<rparr>"


section \<open>Histories\<close>

datatype adaptive_op =
    AInsert u64 u32
  | AQuery u64 u64
  | AMigrate adaptive_index_type
  | AAdapt

primrec adaptive_step :: "(rat \<Rightarrow> rat) \<Rightarrow> 'b bitmap32_ops \<Rightarrow> adaptive_op \<Rightarrow> 'b adaptive_index \<Rightarrow> 'b adaptive_index" where
  "adaptive_step f64 B (AInsert k i) x = adaptive_insert B k i x"
| "adaptive_step f64 B (AQuery t k) x = snd (adaptive_query B t k x)"
| "adaptive_step f64 B (AMigrate ty) x = migrate_to ty x"
| "adaptive_step f64 B AAdapt x = adapt f64 x"

text \<open>
  The abstract index: the current type and the entries inserted since the last change of the
  type, in order.  Whether the adaptation migrates is read off the index itself.
\<close>

record era =
  era_type :: adaptive_index_type
  era_entries :: "(u64 \<times> u32) list"

definition era_migrate :: "adaptive_index_type \<Rightarrow> era \<Rightarrow> era" where
  "era_migrate ty e = (if ty = era_type e then e else \<lparr> era_type = ty, era_entries = [] \<rparr>)"

primrec era_step :: "adaptive_op \<Rightarrow> adaptive_index_type option \<Rightarrow> era \<Rightarrow> era" where
  "era_step (AInsert k i) decision e = e \<lparr> era_entries := era_entries e @ [(k, i)] \<rparr>"
| "era_step (AQuery t k) decision e = e"
| "era_step (AMigrate ty) decision e = era_migrate ty e"
| "era_step AAdapt decision e = (case decision of Some ty \<Rightarrow> era_migrate ty e | None \<Rightarrow> e)"

fun adaptive_run :: "(rat \<Rightarrow> rat) \<Rightarrow> 'b bitmap32_ops \<Rightarrow> adaptive_op list \<Rightarrow> 'b adaptive_index \<times> era \<Rightarrow> 'b adaptive_index \<times> era" where
  "adaptive_run f64 B [] c = c"
| "adaptive_run f64 B (a # as) (x, e) =
     adaptive_run f64 B as (adaptive_step f64 B a x, era_step a (evaluate_migration f64 x) e)"

definition ids_under :: "u64 \<Rightarrow> (u64 \<times> u32) list \<Rightarrow> u32 list" where
  "ids_under k es = map snd (filter (\<lambda>p. fst p = k) es)"

text \<open>The bitmaps are kept under the low 32 bits of the key.\<close>

definition ids32 :: "u32 \<Rightarrow> (u64 \<times> u32) list \<Rightarrow> u32 set" where
  "ids32 k es = {i. \<exists>k'. (k', i) \<in> set es \<and> ucast k' = k}"

definition era_answer :: "u64 \<Rightarrow> era \<Rightarrow> u32 list" where
  "era_answer k e =
     (case era_type e of
        AT_Bitmap \<Rightarrow> sorted_list_of_set (ids32 (ucast k) (era_entries e))
      | _ \<Rightarrow> ids_under k (era_entries e))"

primrec inserts :: "adaptive_op list \<Rightarrow> nat" where
  "inserts [] = 0"
| "inserts (a # as) = (case a of AInsert k i \<Rightarrow> Suc (inserts as) | _ \<Rightarrow> inserts as)"

section \<open>The index holds the entries of its era\<close>

definition ids_opt :: "u64 \<Rightarrow> (u64 \<times> u32) list \<Rightarrow> u32 list option" where
  "ids_opt k es = (if ids_under k es = [] then None else Some (ids_under k es))"

definition bitmap_holds :: "'b bitmap32_ops \<Rightarrow> (u32, 'b) btree \<Rightarrow> (u64 \<times> u32) list \<Rightarrow> bool" where
  "bitmap_holds B m es \<longleftrightarrow> (\<forall>k. map_option (rb_set B) (bt_get m k) = (if ids32 k es = {} then None else Some (ids32 k es)))"

definition lists_hold :: "(u64 \<Rightarrow> u32 list option) \<Rightarrow> (u64 \<times> u32) list \<Rightarrow> bool" where
  "lists_hold get es \<longleftrightarrow> (\<forall>k. get k = ids_opt k es)"

definition index_holds :: "'b bitmap32_ops \<Rightarrow> 'b adaptive_index \<Rightarrow> era \<Rightarrow> bool" where
  "index_holds B x e \<longleftrightarrow>
     ai_index_type x = era_type e \<and>
     bt_invar (ai_bitmap_index x) \<and> bt_invar (ai_btree_index x) \<and> hm_invar (ai_hash_index x) \<and>
     (case era_type e of
        AT_Bitmap \<Rightarrow> bitmap_holds B (ai_bitmap_index x) (era_entries e)
      | AT_Hash \<Rightarrow> lists_hold (hm_get (ai_hash_index x)) (era_entries e)
      | _ \<Rightarrow> lists_hold (bt_get (ai_btree_index x)) (era_entries e))"

lemma ids_under_snoc: "ids_under k (es @ [(k', i)]) = (if k' = k then ids_under k es @ [i] else ids_under k es)"
  by (simp add: ids_under_def)

lemma ids32_snoc: "ids32 k (es @ [(k', i)]) = (if ucast k' = k then insert i (ids32 k es) else ids32 k es)"
  by (auto simp: ids32_def)

lemma ids_opt_default: "(case ids_opt k es of Some ids \<Rightarrow> ids | None \<Rightarrow> []) = ids_under k es"
  by (simp add: ids_opt_def)

lemma lists_hold_snoc:
  assumes "lists_hold get es" "\<And>k'. get' k' = (if k' = k then Some ((case get k of Some ids \<Rightarrow> ids | None \<Rightarrow> []) @ [i]) else get k')"
  shows "lists_hold get' (es @ [(k, i)])"
  using assms by (auto simp: lists_hold_def ids_opt_default ids_opt_def ids_under_snoc)

lemma holds_empty: "lists_hold (hm_get []) []" "lists_hold (bt_get []) []" "bitmap_holds B [] []"
  by (simp_all add: lists_hold_def bitmap_holds_def ids_opt_def ids_under_def ids32_def hm.get_empty bt.get_empty)

lemma index_holds_migrate: "index_holds B x e \<Longrightarrow> index_holds B (migrate_to ty x) (era_migrate ty e)"
proof (cases "ty = era_type e")
  case True
  moreover assume "index_holds B x e"
  ultimately show ?thesis by (simp add: migrate_to_def era_migrate_def index_holds_def)
next
  case False
  moreover assume "index_holds B x e"
  ultimately show ?thesis
    by (cases ty) (simp_all add: migrate_to_def era_migrate_def index_holds_def holds_empty bt.invar_empty hm.invar_empty)
qed

lemma index_holds_new: "index_holds B (adaptive_new path) \<lparr> era_type = AT_Bitmap, era_entries = [] \<rparr>"
  by (simp add: index_holds_def adaptive_new_def holds_empty bt.invar_empty hm.invar_empty)

lemma index_holds_adapt:
  "index_holds B x e \<Longrightarrow> index_holds B (adapt f64 x) (era_step AAdapt (evaluate_migration f64 x) e)"
  by (cases "evaluate_migration f64 x") (simp_all add: adapt_def index_holds_migrate)

context roaring32
begin

lemma bitmap_holds_insert:
  assumes "bitmap_holds B m es" "bt_invar m"
  shows "bitmap_holds B (bt_insert (ucast k) (rb_insert B i (case bt_get m (ucast k) of Some b \<Rightarrow> b | None \<Rightarrow> rb_new B)) m) (es @ [(k, i)])"
proof -
  have at: "map_option (rb_set B) (bt_get m (ucast k)) =
      (if ids32 (ucast k) es = {} then None else Some (ids32 (ucast k) es))"
    using assms(1) by (simp only: bitmap_holds_def)
  have "rb_set B (case bt_get m (ucast k) of Some b \<Rightarrow> b | None \<Rightarrow> rb_new B) = ids32 (ucast k) es"
  proof (cases "bt_get m (ucast k)")
    case None
    then show ?thesis using at set_new by (cases "ids32 (ucast k) es = {}") simp_all
  next
    case (Some b)
    then show ?thesis using at by (cases "ids32 (ucast k) es = {}") simp_all
  qed
  then have new: "rb_set B (rb_insert B i (case bt_get m (ucast k) of Some b \<Rightarrow> b | None \<Rightarrow> rb_new B)) = insert i (ids32 (ucast k) es)"
    by (simp add: set_insert)
  show ?thesis unfolding bitmap_holds_def
  proof
    fix k'
    have "map_option (rb_set B) (bt_get m k') = (if ids32 k' es = {} then None else Some (ids32 k' es))"
      using assms(1) by (simp add: bitmap_holds_def)
    then show "map_option (rb_set B) (bt_get (bt_insert (ucast k) (rb_insert B i (case bt_get m (ucast k) of Some b \<Rightarrow> b | None \<Rightarrow> rb_new B)) m) k') =
        (if ids32 k' (es @ [(k, i)]) = {} then None else Some (ids32 k' (es @ [(k, i)])))"
      using new by (cases "k' = ucast k") (simp_all add: bt.get_ins [OF assms(2)] ids32_snoc)
  qed
qed

lemma index_holds_insert:
  assumes "index_holds B x e"
  shows "index_holds B (adaptive_insert B k i x) (e \<lparr> era_entries := era_entries e @ [(k, i)] \<rparr>)"
proof (cases "era_type e")
  case AT_Bitmap
  then show ?thesis
    using assms bitmap_holds_insert [of "ai_bitmap_index x" "era_entries e" k i]
    by (simp add: index_holds_def adaptive_insert_def Let_def bt.invar_ins)
next
  case AT_Hash
  then show ?thesis
    using assms lists_hold_snoc [of "hm_get (ai_hash_index x)" "era_entries e" _ k i]
    by (simp add: index_holds_def adaptive_insert_def Let_def hm.invar_ins hm.get_ins)
qed (use assms lists_hold_snoc [of "bt_get (ai_btree_index x)" "era_entries e" _ k i] in
    \<open>simp_all add: index_holds_def adaptive_insert_def Let_def bt.invar_ins bt.get_ins\<close>)

lemma index_holds_step:
  assumes "index_holds B x e"
  shows "index_holds B (adaptive_step f64 B a x) (era_step a (evaluate_migration f64 x) e)"
proof (cases a)
  case (AQuery t k)
  then show ?thesis using assms by (cases "era_type e") (simp_all add: adaptive_query_def Let_def index_holds_def)
qed (use assms index_holds_insert index_holds_migrate index_holds_adapt in simp_all)

lemma index_holds_run:
  "index_holds B x e \<Longrightarrow> adaptive_run f64 B as (x, e) = (x', e') \<Longrightarrow> index_holds B x' e'"
  by (induction as arbitrary: x e) (simp, metis adaptive_run.simps(2) index_holds_step)

lemma index_holds_answer:
  assumes "index_holds B x e"
  shows "adaptive_answer B k x = era_answer k e"
proof (cases "era_type e")
  case AT_Bitmap
  then have "map_option (rb_set B) (bt_get (ai_bitmap_index x) (ucast k)) =
      (if ids32 (ucast k) (era_entries e) = {} then None else Some (ids32 (ucast k) (era_entries e)))"
    using assms by (simp add: index_holds_def bitmap_holds_def)
  then show ?thesis
    using AT_Bitmap assms by (auto simp: adaptive_answer_def era_answer_def index_holds_def iter_eq split: option.splits if_splits)
qed (use assms in \<open>simp_all add: adaptive_answer_def era_answer_def index_holds_def lists_hold_def ids_opt_default\<close>)

end


section \<open>Range queries and counters\<close>

text \<open>The pairs of an ordered map of lists, in key order.\<close>

definition flat :: "('k \<times> 'v list) list \<Rightarrow> ('k \<times> 'v) list" where
  "flat m = concat (map (\<lambda>(k, ids). map (Pair k) ids) m)"

lemma flat_filter: "concat (map snd (filter (\<lambda>p. P (fst p)) m)) = map snd (filter (\<lambda>p. P (fst p)) (flat m))"
  by (induction m) (auto simp: flat_def o_def filter_map filter_empty_conv)

lemma flat_at: "distinct (map fst m) \<Longrightarrow> filter (\<lambda>p. fst p = k) (flat m) = map (Pair k) (case map_of m k of None \<Rightarrow> [] | Some ids \<Rightarrow> ids)"
proof (induction m)
  case (Cons p m)
  have "filter (\<lambda>p. fst p = k) (map (Pair (fst p)) (snd p)) = (if fst p = k then map (Pair k) (snd p) else [])"
    by (auto simp: filter_map o_def filter_empty_conv)
  moreover have "map_of m (fst p) = None" using Cons.prems by (auto simp: map_of_eq_None_iff)
  ultimately show ?case using Cons by (auto simp: flat_def case_prod_unfold)
qed (simp add: flat_def)

lemma sorted_flat: "sorted_wrt (<) (map fst m) \<Longrightarrow> sorted (map fst (flat m))"
  for m :: "('k::linorder \<times> 'v list) list"
proof (induction m)
  case (Cons p m)
  have "map fst (map (Pair (fst p)) (snd p)) = replicate (length (snd p)) (fst p)" by (simp add: o_def map_replicate_const)
  then have "map fst (flat (p # m)) = replicate (length (snd p)) (fst p) @ map fst (flat m)" by (simp add: flat_def case_prod_unfold)
  moreover have "fst p \<le> k" if "k \<in> set (map fst (flat m))" for k
    using that Cons.prems by (force simp: flat_def)
  ultimately show ?case using Cons by (simp add: sorted_append)
qed (simp add: flat_def)

lemma filter_keys_mset:
  assumes "\<And>k. filter (\<lambda>p. fst p = k) xs = filter (\<lambda>p. fst p = k) ys"
  shows "mset xs = mset ys"
proof (rule multiset_eqI)
  fix p :: "'a \<times> 'b"
  have "count (filter_mset (\<lambda>q. fst q = fst p) (mset xs)) p = count (filter_mset (\<lambda>q. fst q = fst p) (mset ys)) p"
    by (metis assms mset_filter)
  then show "count (mset xs) p = count (mset ys) p" by simp
qed

lemma flat_sort:
  assumes "bt_invar m" "lists_hold (bt_get m) es"
  shows "flat m = sort_key fst es"
proof -
  have at: "filter (\<lambda>p. fst p = k) (flat m) = filter (\<lambda>p. fst p = k) es" for k
  proof -
    have "filter (\<lambda>p. fst p = k) (flat m) = map (Pair k) (ids_under k es)"
      using flat_at [OF bt_invar_distinct [OF assms(1)], of k] assms(2)
      by (simp add: lists_hold_def bt_get_def ids_opt_default)
    also have "\<dots> = filter (\<lambda>p. fst p = k) es" by (induction es) (auto simp: ids_under_def)
    finally show ?thesis .
  qed
  show ?thesis
  proof (rule properties_for_sort_key [symmetric])
    show "mset (flat m) = mset es" by (rule filter_keys_mset) (rule at)
    show "filter (\<lambda>x. fst k = fst x) (flat m) = filter (\<lambda>x. fst k = fst x) es" for k
      using at [of "fst k"] by (simp add: eq_commute)
    show "sorted (map fst (flat m))" using assms(1) by (simp add: bt_invar_def sorted_flat)
  qed
qed

lemma ids_opt_None: "ids_opt k es = None \<longleftrightarrow> k \<notin> fst ` set es"
  by (auto simp: ids_opt_def ids_under_def filter_empty_conv)

lemma ids32_empty: "ids32 k es = {} \<longleftrightarrow> k \<notin> (ucast \<circ> fst) ` set es"
  by (force simp: ids32_def)

lemma length_distinct_keys:
  assumes "distinct (map fst m)" "\<And>k. map_of m k = None \<longleftrightarrow> k \<notin> K"
  shows "length m = card K"
proof -
  have "fst ` set m = K" using assms(2) by (auto simp: map_of_eq_None_iff)
  then show ?thesis using assms(1) by (metis distinct_card length_map list.set_map)
qed

definition era_keys :: "era \<Rightarrow> nat" where
  "era_keys e = (case era_type e of AT_Bitmap \<Rightarrow> card ((ucast \<circ> fst :: _ \<Rightarrow> u32) ` set (era_entries e)) | _ \<Rightarrow> card (fst ` set (era_entries e)))"

lemma index_holds_keys:
  assumes "index_holds B x e"
  shows "count_unique_keys x = of_nat (era_keys e)"
proof (cases "era_type e")
  case AT_Bitmap
  then have m: "bt_invar (ai_bitmap_index x)" "bitmap_holds B (ai_bitmap_index x) (era_entries e)" using assms by (simp_all add: index_holds_def)
  have "bt_get (ai_bitmap_index x) k = None \<longleftrightarrow> ids32 k (era_entries e) = {}" for k
    using m(2) [unfolded bitmap_holds_def, rule_format, of k] by (auto split: if_splits)
  then show ?thesis
    using AT_Bitmap assms length_distinct_keys [OF bt_invar_distinct [OF m(1)]]
    by (simp add: count_unique_keys_def era_keys_def index_holds_def bt_get_def ids32_empty)
next
  case AT_Hash
  then show ?thesis
    using assms length_distinct_keys [of "ai_hash_index x" "fst ` set (era_entries e)"] ids_opt_None
    by (simp add: count_unique_keys_def era_keys_def index_holds_def lists_hold_def hm_invar_def hm_get_def)
qed (use assms length_distinct_keys [of "ai_btree_index x" "fst ` set (era_entries e)"] ids_opt_None bt_invar_distinct [of "ai_btree_index x"] in
    \<open>simp_all add: count_unique_keys_def era_keys_def index_holds_def lists_hold_def bt_get_def\<close>)

lemma migrate_stats: "ai_stats (migrate_to ty x) = ai_stats x"
  by (cases ty) (simp_all add: migrate_to_def)

lemma adaptive_run_count:
  "adaptive_run f64 B as (x, e) = (x', e') \<Longrightarrow>
   ist_entry_count (ai_stats x') = ist_entry_count (ai_stats x) + of_nat (inserts as)"
proof (induction as arbitrary: x e)
  case (Cons a as)
  have "ist_entry_count (ai_stats (adaptive_step f64 B a x)) = ist_entry_count (ai_stats x) + of_nat (inserts [a])"
    by (cases a) (simp_all add: adaptive_insert_def adaptive_query_def adapt_def migrate_stats Let_def
        split: adaptive_index_type.split option.split)
  then show ?case using Cons by (cases a) (auto simp: algebra_simps)
qed simp

text \<open>C33: After any sequence of insertions, queries, migrations and adaptations on a new index, a
  query answers from the entries inserted since the type of the index last changed, whatever
  was there before: for the bitmap type the ascending ids inserted under a key with the same
  low 32 bits, for the other types all ids inserted under the key in order.  A range query of
  the ordered types returns the ids of the keys in range sorted by key and, within a key, by
  insertion, or panics when the bounds are crossed; for the other types it returns nothing.
  The decision to migrate is taken on the number of distinct keys of those entries and on the
  number of all insertions, modulo \<open>2^64\<close>.
\<close>

theorem adaptive_index_refines_era:
  assumes "roaring32 B"
    "adaptive_run f64 B ops (adaptive_new path, \<lparr> era_type = AT_Bitmap, era_entries = [] \<rparr>) = (x, e)"
  shows "ai_index_type x = era_type e \<and>
    fst (adaptive_query B elapsed k x) = era_answer k e \<and>
    query_range lo hi x =
      (if era_type e = AT_Bitmap \<or> era_type e = AT_Hash then Ok []
       else if hi < lo then Panic
       else Ok (map snd (sort_key fst (filter (\<lambda>p. lo \<le> fst p \<and> fst p \<le> hi) (era_entries e))))) \<and>
    count_unique_keys x = of_nat (era_keys e) \<and> ist_entry_count (ai_stats x) = of_nat (inserts ops)"
proof -
  have h: "index_holds B x e"
    using roaring32.index_holds_run [OF assms(1) index_holds_new assms(2)] .
  have "concat (map snd (filter (\<lambda>p. lo \<le> fst p \<and> fst p \<le> hi) (ai_btree_index x))) =
      map snd (sort_key fst (filter (\<lambda>p. lo \<le> fst p \<and> fst p \<le> hi) (era_entries e)))"
    if "era_type e = AT_BTree \<or> era_type e = AT_Range"
  proof -
    have "flat (ai_btree_index x) = sort_key fst (era_entries e)"
      using h that by (intro flat_sort) (auto simp: index_holds_def)
    then show ?thesis by (simp add: flat_filter [of "\<lambda>k. lo \<le> k \<and> k \<le> hi"] filter_sort)
  qed
  then have range: "query_range lo hi x =
      (if era_type e = AT_Bitmap \<or> era_type e = AT_Hash then Ok []
       else if hi < lo then Panic
       else Ok (map snd (sort_key fst (filter (\<lambda>p. lo \<le> fst p \<and> fst p \<le> hi) (era_entries e)))))"
    using h by (cases "era_type e") (simp_all add: query_range_def index_holds_def)
  show ?thesis
    using h range roaring32.index_holds_answer [OF assms(1) h] index_holds_keys [OF h] adaptive_run_count [OF assms(2)]
    by (simp add: adaptive_query_def Let_def index_holds_def adaptive_new_def)
qed

definition sample_adaptive :: "adaptive_op list" where
  "sample_adaptive = [AInsert 1 100, AMigrate AT_BTree, AInsert 3000 3, AInsert 1000 1, AInsert 2000 2, AInsert 1000 0]"

theorem adaptive_index_refines_era_witness:
  "query_range 0 2500 (fst (adaptive_run (\<lambda>q. q) list_bitmap32 sample_adaptive
     (adaptive_new ''i'', \<lparr> era_type = AT_Bitmap, era_entries = [] \<rparr>))) = Ok [1, 0, 2]"
proof -
  let ?run = "adaptive_run (\<lambda>q. q) list_bitmap32 sample_adaptive
     (adaptive_new ''i'', \<lparr> era_type = AT_Bitmap, era_entries = [] \<rparr>)"
  obtain x e where r: "?run = (x, e)" by fastforce
  have "snd ?run = \<lparr> era_type = AT_BTree, era_entries = [(3000, 3), (1000, 1), (2000, 2), (1000, 0)] \<rparr>"
    by (simp add: sample_adaptive_def era_migrate_def)
  then have e: "e = \<lparr> era_type = AT_BTree, era_entries = [(3000, 3), (1000, 1), (2000, 2), (1000, 0)] \<rparr>" using r by simp
  have "query_range 0 2500 x = Ok (map snd (sort_key fst (filter (\<lambda>p. 0 \<le> fst p \<and> fst p \<le> 2500) (era_entries e))))"
    using adaptive_index_refines_era [OF lb.roaring32_axioms r, of 0 0 0 2500] e by simp
  then show ?thesis using r e by simp
qed

text \<open>
  The manager never hands out the index it keeps: what it returns is empty and shares nothing
  with the stored one, which therefore stays as it was created.
\<close>

definition stored_unused :: "'b adaptive_manager \<Rightarrow> bool" where
  "stored_unused m \<longleftrightarrow> (\<forall>(name, x) \<in> set (am_indexes m). x = adaptive_new (ai_index_path x))"

lemma get_or_create_unused:
  assumes "stored_unused m" "get_or_create_index join name m = (x, m')"
  shows "stored_unused m' \<and> x = adaptive_new (ai_index_path x)"
proof (cases "bt_get (am_indexes m) name")
  case None
  let ?x = "adaptive_new (join (am_base_dir m) (name @ ''.idx''))"
  have "m' = m \<lparr> am_indexes := bt_insert name ?x (am_indexes m) \<rparr>" "x = ?x"
    using None assms(2) by (auto simp: get_or_create_index_def Let_def)
  moreover have "?x = adaptive_new (ai_index_path ?x)" by (simp add: adaptive_new_def)
  ultimately show ?thesis using assms(1) set_bt_insert [of name ?x "am_indexes m"] by (auto simp: stored_unused_def)
next
  case (Some y)
  then show ?thesis using assms by (auto simp: get_or_create_index_def adaptive_new_def)
qed

lemma adaptation_pass_unused:
  assumes "stored_unused m"
  shows "adaptation_pass f64 m = m"
proof -
  have "adapt f64 x = x" if "(name, x) \<in> set (am_indexes m)" for name x
  proof -
    have "x = adaptive_new (ai_index_path x)" using that assms by (auto simp: stored_unused_def)
    then have "ist_entry_count (ai_stats x) = 0" by (metis adaptive_new_def adaptive_index.select_convs(5) index_stats.select_convs(1))
    then show ?thesis by (simp add: adapt_def evaluate_migration_def)
  qed
  then have "map (\<lambda>(name, index). (name, adapt f64 index)) (am_indexes m) = am_indexes m"
    by (intro map_idI) auto
  then show ?thesis by (simp add: adaptation_pass_def)
qed

end
