(* ===== verification/Shared_Memory.thy ===== *)
theory Shared_Memory
  imports Prelude
begin

text \<open>
  Shared memory regions for query results (\<open>index-fabric/src/shared_memory.rs\<close>).

  Regions of the same file share its bytes, so the files are a store: directory entries point
  to inodes, a region keeps the inode and the length of its mapping.  An access outside the
  mapping, or to a mapping whose file was truncated below it, is \<open>Panic\<close>: an out-of-range slice,
  undefined behaviour or a bus error.  Creating, resizing, mapping and flushing a file are
  taken to succeed; opening and removing one fail when it does not exist.  Sums of offsets
  are 64-bit words and wrap.  The time is an argument.
\<close>

section \<open>The header\<close>

definition SHARED_MEM_MAGIC :: u32 where
  "SHARED_MEM_MAGIC = 0x53484D45"

definition SHARED_MEM_VERSION :: u32 where
  "SHARED_MEM_VERSION = 1"

record shared_mem_header =
  smh_magic :: u32
  smh_version :: u32
  smh_entry_count :: u64
  smh_data_offset :: u64
  smh_total_size :: u64
  smh_created_at :: u64
  smh_slot :: u64
  smh_reserved :: "u64 list"

definition shared_mem_header_default :: shared_mem_header where
  "shared_mem_header_default =
     \<lparr> smh_magic = SHARED_MEM_MAGIC, smh_version = SHARED_MEM_VERSION, smh_entry_count = 0, smh_data_offset = 64,
       smh_total_size = 64, smh_created_at = 0, smh_slot = 0, smh_reserved = [0, 0, 0, 0] \<rparr>"

text \<open>The fields in C layout: two 32-bit and nine 64-bit words without padding.\<close>

definition SHARED_MEM_HEADER_SIZE :: nat where
  "SHARED_MEM_HEADER_SIZE = 80"

definition shared_mem_header_bytes :: "shared_mem_header \<Rightarrow> byte list" where
  "shared_mem_header_bytes h =
     le_bytes 4 (smh_magic h) @ le_bytes 4 (smh_version h) @ le_bytes 8 (smh_entry_count h) @
     le_bytes 8 (smh_data_offset h) @ le_bytes 8 (smh_total_size h) @ le_bytes 8 (smh_created_at h) @
     le_bytes 8 (smh_slot h) @ concat (map (le_bytes 8) (smh_reserved h))"

definition shared_mem_header_of_bytes :: "byte list \<Rightarrow> shared_mem_header" where
  "shared_mem_header_of_bytes bs =
     \<lparr> smh_magic = of_le_bytes (take 4 bs), smh_version = of_le_bytes (take 4 (drop 4 bs)),
       smh_entry_count = of_le_bytes (take 8 (drop 8 bs)), smh_data_offset = of_le_bytes (take 8 (drop 16 bs)),
       smh_total_size = of_le_bytes (take 8 (drop 24 bs)), smh_created_at = of_le_bytes (take 8 (drop 32 bs)),
       smh_slot = of_le_bytes (take 8 (drop 40 bs)),
       smh_reserved = map (\<lambda>i. of_le_bytes (take 8 (drop (48 + 8 * i) bs))) [0..<4] \<rparr>"


section \<open>Files and mappings\<close>

record shm_files =
  sf_paths :: "(string, nat) hmap"
  sf_inodes :: "byte list list"

text \<open>Opening for creation with truncation, then setting the length.\<close>

definition shm_create_file :: "string \<Rightarrow> nat \<Rightarrow> shm_files \<Rightarrow> nat \<times> shm_files" where
  "shm_create_file path capacity fs =
     (case hm_get (sf_paths fs) path of
        Some i \<Rightarrow> (i, fs \<lparr> sf_inodes := (sf_inodes fs)[i := replicate capacity 0] \<rparr>)
      | None \<Rightarrow>
          (let i = length (sf_inodes fs)
           in (i, \<lparr> sf_paths = hm_insert path i (sf_paths fs), sf_inodes = sf_inodes fs @ [replicate capacity 0] \<rparr>)))"

definition shm_remove_file :: "string \<Rightarrow> shm_files \<Rightarrow> bool \<times> shm_files" where
  "shm_remove_file path fs = (hm_get (sf_paths fs) path \<noteq> None, fs \<lparr> sf_paths := hm_remove path (sf_paths fs) \<rparr>)"

datatype shm_error = ShmNotFound | ShmInvalidData | ShmWriteZero

record shared_memory_region =
  smr_inode :: nat
  smr_len :: nat
  smr_header :: shared_mem_header

definition mapped :: "shared_memory_region \<Rightarrow> shm_files \<Rightarrow> (shm_error, byte list) result" where
  "mapped r fs =
     (if smr_inode r < length (sf_inodes fs) \<and> smr_len r \<le> length (sf_inodes fs ! smr_inode r)
      then Ok (take (smr_len r) (sf_inodes fs ! smr_inode r)) else Panic)"

text \<open>Writing bytes through the mapping.\<close>

definition map_write :: "shared_memory_region \<Rightarrow> nat \<Rightarrow> byte list \<Rightarrow> shm_files \<Rightarrow> (shm_error, shm_files) result" where
  "map_write r i bs fs =
     rbind (mapped r fs) (\<lambda>m.
       if i + length bs \<le> length m
       then Ok (fs \<lparr> sf_inodes := (sf_inodes fs)[smr_inode r := write_at (sf_inodes fs ! smr_inode r) i bs] \<rparr>)
       else Panic)"


section \<open>Regions\<close>

definition region_create :: "u64 \<Rightarrow> string \<Rightarrow> nat \<Rightarrow> shm_files \<Rightarrow> (shm_error, shared_memory_region \<times> shm_files) result" where
  "region_create now path capacity fs0 =
     (let (i, fs) = shm_create_file path capacity fs0;
          header = shared_mem_header_default \<lparr> smh_total_size := of_nat capacity, smh_created_at := now \<rparr>;
          r = \<lparr> smr_inode = i, smr_len = capacity, smr_header = header \<rparr>
      in rbind (map_write r 0 (shared_mem_header_bytes header) fs) (\<lambda>fs'. Ok (r, fs')))"

definition region_open :: "string \<Rightarrow> shm_files \<Rightarrow> (shm_error, shared_memory_region) result" where
  "region_open path fs =
     (case hm_get (sf_paths fs) path of
        None \<Rightarrow> Err ShmNotFound
      | Some i \<Rightarrow>
          (let m = sf_inodes fs ! i
           in rbind (or_panic (slice m 0 SHARED_MEM_HEADER_SIZE)) (\<lambda>bs.
              let header = shared_mem_header_of_bytes bs
              in if smh_magic header \<noteq> SHARED_MEM_MAGIC then Err ShmInvalidData
                 else Ok \<lparr> smr_inode = i, smr_len = length m, smr_header = header \<rparr>)))"

definition write_data :: "u64 \<Rightarrow> byte list \<Rightarrow> shared_memory_region \<Rightarrow> shm_files \<Rightarrow> (shm_error, shm_files) result" where
  "write_data offset data r fs =
     (let write_offset = smh_data_offset (smr_header r) + offset;
          write_end = write_offset + of_nat (length data)
      in if unat write_end > smr_len r then Err ShmWriteZero
         else if write_end < write_offset then Panic
         else map_write r (unat write_offset) data fs)"

definition read_data :: "u64 \<Rightarrow> u64 \<Rightarrow> shared_memory_region \<Rightarrow> shm_files \<Rightarrow> (shm_error, byte list) result" where
  "read_data offset len r fs =
     (let read_offset = smh_data_offset (smr_header r) + offset
      in rbind (mapped r fs) (\<lambda>m. or_panic (slice m (unat read_offset) (unat (read_offset + len)))))"

definition update_header ::
  "u64 \<Rightarrow> u64 \<Rightarrow> shared_memory_region \<Rightarrow> shm_files \<Rightarrow> (shm_error, shared_memory_region \<times> shm_files) result" where
  "update_header entry_count slot r0 fs =
     (let header = (smr_header r0) \<lparr> smh_entry_count := entry_count, smh_slot := slot \<rparr>;
          r = r0 \<lparr> smr_header := header \<rparr>
      in rbind (map_write r 0 (shared_mem_header_bytes header) fs) (\<lambda>fs'. Ok (r, fs')))"

definition available_capacity :: "shared_memory_region \<Rightarrow> u64" where
  "available_capacity r = of_nat (smr_len r) - smh_data_offset (smr_header r)"

definition region_entry_count :: "shared_memory_region \<Rightarrow> u64" where
  "region_entry_count r = smh_entry_count (smr_header r)"

definition region_slot :: "shared_memory_region \<Rightarrow> u64" where
  "region_slot r = smh_slot (smr_header r)"


section \<open>The manager and the result wrapper\<close>

record shared_memory_manager =
  smm_regions :: "(string, string) hmap"
  smm_base_dir :: string

definition shm_manager_new :: "string \<Rightarrow> shared_memory_manager" where
  "shm_manager_new base_dir = \<lparr> smm_regions = [], smm_base_dir = base_dir \<rparr>"

text \<open>\<open>join\<close> is the path operation of the standard library.\<close>

definition get_or_create_region ::
  "(string \<Rightarrow> string \<Rightarrow> string) \<Rightarrow> u64 \<Rightarrow> string \<Rightarrow> nat \<Rightarrow> shared_memory_manager \<Rightarrow> shm_files
     \<Rightarrow> (shm_error, shared_memory_region \<times> shared_memory_manager \<times> shm_files) result" where
  "get_or_create_region join now name capacity m fs =
     (case hm_get (smm_regions m) name of
        Some path \<Rightarrow> rbind (region_open path fs) (\<lambda>r. Ok (r, m, fs))
      | None \<Rightarrow>
          (let path = join (smm_base_dir m) (name @ ''.shm'')
           in rbind (region_create now path capacity fs) (\<lambda>(r, fs').
                Ok (r, m \<lparr> smm_regions := hm_insert name path (smm_regions m) \<rparr>, fs'))))"

definition remove_region ::
  "string \<Rightarrow> shared_memory_manager \<Rightarrow> shm_files \<Rightarrow> (shm_error, unit) result \<times> shared_memory_manager \<times> shm_files" where
  "remove_region name m fs =
     (let m' = m \<lparr> smm_regions := hm_remove name (smm_regions m) \<rparr>
      in case hm_get (smm_regions m) name of
           None \<Rightarrow> (Ok (), m', fs)
         | Some path \<Rightarrow> (let (found, fs') = shm_remove_file path fs in (if found then Ok () else Err ShmNotFound, m', fs')))"

definition shm_cleanup :: "shared_memory_manager \<Rightarrow> shm_files \<Rightarrow> shared_memory_manager \<times> shm_files" where
  "shm_cleanup m fs =
     (m \<lparr> smm_regions := [] \<rparr>, fold (\<lambda>(_, path) fs. snd (shm_remove_file path fs)) (smm_regions m) fs)"

record zero_copy_result =
  zc_region :: shared_memory_region
  zc_data_offset :: u64
  zc_data_size :: u64

definition zero_copy_new :: "shared_memory_region \<Rightarrow> u64 \<Rightarrow> u64 \<Rightarrow> zero_copy_result" where
  "zero_copy_new region offset len = \<lparr> zc_region = region, zc_data_offset = offset, zc_data_size = len \<rparr>"

definition zero_copy_as_slice :: "zero_copy_result \<Rightarrow> shm_files \<Rightarrow> (shm_error, byte list) result" where
  "zero_copy_as_slice z fs = read_data (zc_data_offset z) (zc_data_size z) (zc_region z) fs"

definition zero_copy_len :: "zero_copy_result \<Rightarrow> u64" where
  "zero_copy_len z = zc_data_size z"

definition zero_copy_is_empty :: "zero_copy_result \<Rightarrow> bool" where
  "zero_copy_is_empty z \<longleftrightarrow> zc_data_size z = 0"


section \<open>A producer and a consumer\<close>

text \<open>
  The producer creates a region, writes a result and publishes it in the header; the consumer
  then obtains the region by name and reads the result through the wrapper.
\<close>

definition share_result ::
  "(string \<Rightarrow> string \<Rightarrow> string) \<Rightarrow> u64 \<Rightarrow> string \<Rightarrow> nat \<Rightarrow> u64 \<Rightarrow> byte list \<Rightarrow> u64 \<Rightarrow> u64 \<Rightarrow> shared_memory_manager \<Rightarrow> shm_files
     \<Rightarrow> (shm_error, u64 \<times> u64 \<times> byte list) result" where
  "share_result join now name capacity offset data entry_count slot m fs =
     rbind (get_or_create_region join now name capacity m fs) (\<lambda>(r, m1, fs1).
     rbind (write_data offset data r fs1) (\<lambda>fs2.
     rbind (update_header entry_count slot r fs2) (\<lambda>(r', fs3).
     rbind (get_or_create_region join now name capacity m1 fs3) (\<lambda>(q, m2, fs4).
     rbind (zero_copy_as_slice (zero_copy_new q offset (of_nat (length data))) fs4) (\<lambda>bytes.
     Ok (region_entry_count q, region_slot q, bytes))))))"

lemma length_header_bytes: "length (smh_reserved h) = 4 \<Longrightarrow> length (shared_mem_header_bytes h) = SHARED_MEM_HEADER_SIZE"
  by (simp add: shared_mem_header_bytes_def SHARED_MEM_HEADER_SIZE_def length_concat o_def sum_list_triv)

lemma shared_mem_header_codec:
  assumes "length (smh_reserved h) = 4"
  shows "shared_mem_header_of_bytes (shared_mem_header_bytes h) = h"
proof -
  obtain a b c d where r: "smh_reserved h = [a, b, c, d]"
    using assms by (auto simp: numeral_eq_Suc length_Suc_conv)
  have "[0..<4] = [0, 1, 2, 3 :: nat]" by (simp add: upt_rec)
  then show ?thesis
    using r by (simp add: shared_mem_header_of_bytes_def shared_mem_header_bytes_def codec_simps)
qed

definition files_ok :: "shm_files \<Rightarrow> bool" where
  "files_ok fs \<longleftrightarrow> hm_invar (sf_paths fs) \<and> (\<forall>p i. hm_get (sf_paths fs) p = Some i \<longrightarrow> i < length (sf_inodes fs))"

text \<open>\<open>holds fs r c\<close>: the file behind the region has content \<open>c\<close>, all of it mapped.\<close>

definition holds :: "shm_files \<Rightarrow> nat \<Rightarrow> byte list \<Rightarrow> bool" where
  "holds fs i c \<longleftrightarrow> i < length (sf_inodes fs) \<and> sf_inodes fs ! i = c"

lemma create_file_holds:
  assumes "files_ok fs" "shm_create_file path capacity fs = (i, fs')"
  shows "holds fs' i (replicate capacity 0) \<and> hm_get (sf_paths fs') path = Some i"
proof (cases "hm_get (sf_paths fs) path")
  case None
  then show ?thesis using assms by (auto simp: shm_create_file_def Let_def holds_def files_ok_def hm.get_ins)
next
  case (Some j)
  then show ?thesis using assms by (auto simp: shm_create_file_def holds_def files_ok_def)
qed

lemma map_write_holds:
  assumes "holds fs (smr_inode r) c" "length c = smr_len r" "i + length bs \<le> smr_len r"
  shows "\<exists>fs'. map_write r i bs fs = Ok fs' \<and> holds fs' (smr_inode r) (write_at c i bs) \<and> sf_paths fs' = sf_paths fs"
  using assms by (simp add: map_write_def mapped_def holds_def)

lemma region_create_holds:
  assumes "files_ok fs" "SHARED_MEM_HEADER_SIZE \<le> capacity"
    "header = shared_mem_header_default \<lparr> smh_total_size := of_nat capacity, smh_created_at := now \<rparr>"
  shows "\<exists>i fs'. region_create now path capacity fs = Ok (\<lparr> smr_inode = i, smr_len = capacity, smr_header = header \<rparr>, fs') \<and>
    holds fs' i (write_at (replicate capacity 0) 0 (shared_mem_header_bytes header)) \<and> hm_get (sf_paths fs') path = Some i"
proof -
  obtain i fs1 where c: "shm_create_file path capacity fs = (i, fs1)" by fastforce
  note h = create_file_holds [OF assms(1) c]
  let ?r = "\<lparr> smr_inode = i, smr_len = capacity, smr_header = header \<rparr>"
  have "length (shared_mem_header_bytes header) = SHARED_MEM_HEADER_SIZE"
    by (rule length_header_bytes) (simp add: assms(3) shared_mem_header_default_def)
  then obtain fs2 where "map_write ?r 0 (shared_mem_header_bytes header) fs1 = Ok fs2"
    "holds fs2 i (write_at (replicate capacity 0) 0 (shared_mem_header_bytes header))" "sf_paths fs2 = sf_paths fs1"
    using map_write_holds [of fs1 ?r "replicate capacity 0" 0 "shared_mem_header_bytes header"] h assms(2) by auto
  then show ?thesis using c h assms(3) by (auto simp: region_create_def Let_def)
qed

lemma region_open_holds:
  assumes "hm_get (sf_paths fs) path = Some i" "holds fs i (shared_mem_header_bytes header @ rest)"
    "length (smh_reserved header) = 4" "smh_magic header = SHARED_MEM_MAGIC"
  shows "region_open path fs = Ok \<lparr> smr_inode = i, smr_len = SHARED_MEM_HEADER_SIZE + length rest, smr_header = header \<rparr>"
proof -
  have "slice (shared_mem_header_bytes header @ rest) 0 SHARED_MEM_HEADER_SIZE = Some (shared_mem_header_bytes header)"
    using length_header_bytes [OF assms(3)] by (simp add: slice_def)
  then show ?thesis
    using assms length_header_bytes [OF assms(3)] shared_mem_header_codec [OF assms(3)]
    by (simp add: region_open_def holds_def or_panic_def Let_def)
qed

text \<open>The bytes of a result of which the first 16 bytes of the data area were zeroed.\<close>

lemma overlay_read:
  fixes c d h :: "byte list"
  assumes "length h = 64" "length c = capacity" "64 + n + length d \<le> capacity" "80 \<le> capacity"
  shows "take (length d) (drop (64 + n) ((h @ replicate 16 0) @ drop 80 (write_at c (64 + n) d))) =
    replicate (min (16 - n) (length d)) 0 @ drop (16 - n) d"
proof -
  define tail where "tail = drop (64 + n + length d) c"
  have w: "write_at c (64 + n) d = take 64 c @ take n (drop 64 c) @ d @ tail"
    using assms by (simp add: write_at_def tail_def take_add)
  have "drop 80 (write_at c (64 + n) d) = drop 16 (take n (drop 64 c) @ d @ tail)"
    using assms by (simp add: w)
  moreover have "drop (64 + n) ((h @ replicate 16 0) @ z) = drop n (replicate 16 0 @ z)" for z
    using assms(1) by (simp add: add.commute [of 64 n] drop_drop [symmetric] del: drop_drop)
  moreover have "take (length d) (drop n (replicate 16 0 @ drop 16 (take n (drop 64 c) @ d @ tail))) =
      replicate (min (16 - n) (length d)) 0 @ drop (16 - n) d"
  proof (cases "16 \<le> n")
    case True
    have "drop n (replicate 16 0 @ z) = drop (n - 16) z" for z :: "byte list" using True by simp
    then have "drop n (replicate 16 0 @ drop 16 (take n (drop 64 c) @ d @ tail)) = drop (n - 16 + 16) (take n (drop 64 c) @ d @ tail)"
      by (simp only: drop_drop)
    also have "\<dots> = drop n (take n (drop 64 c) @ d @ tail)" using True by simp
    also have "\<dots> = d @ tail" using assms by simp
    finally show ?thesis using True by simp
  next
    case False
    then have "drop 16 (take n (drop 64 c) @ d @ tail) = drop (16 - n) (d @ tail)" using assms by simp
    then show ?thesis using False by (auto simp: min_def)
  qed
  ultimately show ?thesis by (simp only:)
qed

lemma write_data_Ok:
  assumes "holds fs (smr_inode r) c" "length c = smr_len r" "smh_data_offset (smr_header r) = 64"
    "64 + unat offset + length data \<le> smr_len r" "smr_len r < 2 ^ 64"
  shows "\<exists>fs'. write_data offset data r fs = Ok fs' \<and> holds fs' (smr_inode r) (write_at c (64 + unat offset) data) \<and>
    sf_paths fs' = sf_paths fs"
proof -
  have o: "unat (64 + offset) = 64 + unat offset" using assms by (subst unat_add_lem [THEN iffD1]) simp_all
  have e: "unat (64 + offset + of_nat (length data)) = 64 + unat offset + length data"
    using assms o by (subst unat_add_lem [THEN iffD1]) (simp_all add: unat_of_nat_eq)
  have "\<not> 64 + offset + of_nat (length data) < 64 + offset" using o e by (simp add: word_less_nat_alt)
  then show ?thesis
    using assms o e map_write_holds [OF assms(1,2), of "64 + unat offset" data] by (simp add: write_data_def Let_def)
qed

lemma read_data_Ok:
  assumes "holds fs (smr_inode r) c" "length c = smr_len r" "smh_data_offset (smr_header r) = 64"
    "64 + unat offset + n \<le> smr_len r" "smr_len r < 2 ^ 64"
  shows "read_data offset (of_nat n) r fs = Ok (take n (drop (64 + unat offset) c))"
proof -
  have o: "unat (64 + offset) = 64 + unat offset" using assms by (subst unat_add_lem [THEN iffD1]) simp_all
  have e: "unat (64 + offset + of_nat n) = 64 + unat offset + n"
    using assms o by (subst unat_add_lem [THEN iffD1]) (simp_all add: unat_of_nat_eq)
  show ?thesis
    using assms o e by (simp add: read_data_def Let_def mapped_def holds_def or_panic_def slice_def)
qed

text \<open>C34: A producer that creates a region of at least header size, writes a result that fits and
  publishes it, and a consumer that then obtains the region by its name and reads the result:
  every step succeeds, the consumer sees the published entry count and slot, and it reads the
  bytes written, except that those in the first 16 bytes of the data area are zero.  The data
  area starts at byte 64, but the header that publishing writes is 80 bytes long.
\<close>

theorem shared_memory_result_read_back:
  assumes "files_ok fs" "hm_invar (smm_regions m)" "hm_get (smm_regions m) name = None"
    "SHARED_MEM_HEADER_SIZE \<le> capacity" "64 + unat offset + length data \<le> capacity" "capacity < 2 ^ 64"
  shows "share_result join now name capacity offset data entry_count slot m fs =
    Ok (entry_count, slot, replicate (min (16 - unat offset) (length data)) 0 @ drop (16 - unat offset) data)"
proof -
  define path where "path = join (smm_base_dir m) (name @ ''.shm'')"
  define h where "h = shared_mem_header_default \<lparr> smh_total_size := of_nat capacity, smh_created_at := now \<rparr>"
  define h' where "h' = h \<lparr> smh_entry_count := entry_count, smh_slot := slot \<rparr>"
  have hh: "smh_data_offset h = 64" "smh_data_offset h' = 64" "length (smh_reserved h) = 4" "length (smh_reserved h') = 4" "smh_magic h' = SHARED_MEM_MAGIC"
    by (simp_all add: h_def h'_def shared_mem_header_default_def)
  obtain i fs1 where c: "region_create now path capacity fs = Ok (\<lparr> smr_inode = i, smr_len = capacity, smr_header = h \<rparr>, fs1)"
    "holds fs1 i (write_at (replicate capacity 0) 0 (shared_mem_header_bytes h))" "hm_get (sf_paths fs1) path = Some i"
    using region_create_holds [OF assms(1,4) h_def, of path] by blast
  let ?r = "\<lparr> smr_inode = i, smr_len = capacity, smr_header = h \<rparr>" and ?r' = "\<lparr> smr_inode = i, smr_len = capacity, smr_header = h' \<rparr>"
  define c1 where "c1 = write_at (replicate capacity 0) 0 (shared_mem_header_bytes h)"
  have l1: "length c1 = capacity" using assms(4) length_header_bytes [OF hh(3)] by (simp add: c1_def)
  define c2 where "c2 = write_at c1 (64 + unat offset) data"
  have l2: "length c2 = capacity" using l1 assms(5) by (simp add: c2_def)
  obtain fs2 where w: "write_data offset data ?r fs1 = Ok fs2" "holds fs2 i c2" "sf_paths fs2 = sf_paths fs1"
    using write_data_Ok [of fs1 ?r c1 offset data] c(2) l1 hh(1) assms(5,6) by (auto simp: c1_def c2_def)
  define c3 where "c3 = shared_mem_header_bytes h' @ drop 80 c2"
  have c3: "write_at c2 0 (shared_mem_header_bytes h') = c3"
    using length_header_bytes [OF hh(4)] by (simp add: write_at_def c3_def SHARED_MEM_HEADER_SIZE_def)
  have l3: "length c3 = capacity"
    using l2 assms(4) length_header_bytes [OF hh(4)] by (simp add: c3_def SHARED_MEM_HEADER_SIZE_def)
  obtain fs3 where u: "update_header entry_count slot ?r fs2 = Ok (?r', fs3)" "holds fs3 i c3" "sf_paths fs3 = sf_paths fs2"
    using map_write_holds [of fs2 ?r' c2 0 "shared_mem_header_bytes h'"] w(2) l2 length_header_bytes [OF hh(4)] assms(4) c3
    by (auto simp: update_header_def h'_def Let_def)
  have len: "SHARED_MEM_HEADER_SIZE + length (drop 80 c2) = capacity" using l2 assms(4) by (simp add: SHARED_MEM_HEADER_SIZE_def)
  have o: "region_open path fs3 = Ok ?r'"
    using region_open_holds [of fs3 path i h' "drop 80 c2"] u(2,3) w(3) c(3) hh(4,5) len by (simp add: c3_def)
  have "shared_mem_header_bytes h' = take 64 (shared_mem_header_bytes h') @ replicate 16 0"
    by (simp add: shared_mem_header_bytes_def h'_def h_def shared_mem_header_default_def numeral_eq_Suc)
  then have "take (length data) (drop (64 + unat offset) c3) = replicate (min (16 - unat offset) (length data)) 0 @ drop (16 - unat offset) data"
    using overlay_read [of "take 64 (shared_mem_header_bytes h')" c1 capacity "unat offset" data] l1 assms(4,5) length_header_bytes [OF hh(4)]
    by (simp add: c3_def c2_def SHARED_MEM_HEADER_SIZE_def)
  then have r: "read_data offset (of_nat (length data)) ?r' fs3 =
      Ok (replicate (min (16 - unat offset) (length data)) 0 @ drop (16 - unat offset) data)"
    using read_data_Ok [of fs3 ?r' c3 offset "length data"] u(2) l3 hh(2) assms(5,6) by simp
  show ?thesis
    using c(1) w(1) u(1) o r assms(2,3)
    by (simp add: share_result_def get_or_create_region_def path_def [symmetric] Let_def hm.get_ins zero_copy_as_slice_def
        zero_copy_new_def region_entry_count_def region_slot_def h'_def)
qed

theorem shared_memory_result_read_back_witness:
  "share_result (\<lambda>d f. d @ f) 9 ''q'' 100 14 [1, 2, 3, 4] 4 77 (shm_manager_new ''/'') \<lparr> sf_paths = [], sf_inodes = [] \<rparr> = Ok (4, 77, [0, 0, 3, 4])"
proof -
  have "replicate (min (16 - unat (14 :: u64)) (length [1, 2, 3, 4 :: byte])) 0 @ drop (16 - unat (14 :: u64)) [1, 2, 3, 4] = [0, 0, 3, 4 :: byte]"
    by code_simp
  then show ?thesis
    using shared_memory_result_read_back [of "\<lparr> sf_paths = [], sf_inodes = [] \<rparr>" "shm_manager_new ''/''" "''q''" 100 14 "[1, 2, 3, 4]" "\<lambda>d f. d @ f" 9 4 77]
    by (simp add: files_ok_def shm_manager_new_def hm.invar_empty hm.get_empty SHARED_MEM_HEADER_SIZE_def)
qed

text \<open>A capacity below the header size makes creation write outside the mapping.\<close>

lemma region_create_too_small:
  assumes "files_ok fs" "capacity < SHARED_MEM_HEADER_SIZE"
  shows "region_create now path capacity fs = Panic"
proof -
  obtain i fs1 where c: "shm_create_file path capacity fs = (i, fs1)" by fastforce
  let ?h = "shared_mem_header_default \<lparr> smh_total_size := of_nat capacity, smh_created_at := now \<rparr>"
  have "length (shared_mem_header_bytes ?h) = SHARED_MEM_HEADER_SIZE"
    by (rule length_header_bytes) (simp add: shared_mem_header_default_def)
  then show ?thesis
    using c create_file_holds [OF assms(1) c] assms(2)
    by (simp add: region_create_def Let_def map_write_def mapped_def holds_def)
qed

text \<open>An offset that wraps lets a write through to the header.\<close>

lemma write_data_wraps_into_header:
  assumes "holds fs (smr_inode r) c" "length c = smr_len r" "smh_data_offset (smr_header r) = 64"
    "length data \<le> smr_len r" "smr_len r < 2 ^ 64"
  shows "\<exists>fs'. write_data (- 64) data r fs = Ok fs' \<and> holds fs' (smr_inode r) (write_at c 0 data)"
  using assms map_write_holds [OF assms(1,2), of 0 data]
  by (auto simp: write_data_def Let_def unat_of_nat_eq)

text \<open>Cleaning up removes the file of every registered region and forgets the regions.\<close>

lemma shm_cleanup_removes:
  assumes "files_ok fs" "hm_get (smm_regions m) name = Some path"
  shows "smm_regions (fst (shm_cleanup m fs)) = [] \<and> hm_get (sf_paths (snd (shm_cleanup m fs))) path = None"
proof -
  have inv: "hm_invar (sf_paths fs) \<Longrightarrow> hm_get (sf_paths (fold (\<lambda>(_, path) fs. snd (shm_remove_file path fs)) rs fs)) path =
      (if path \<in> snd ` set rs then None else hm_get (sf_paths fs) path)" for rs fs
  proof (induction rs arbitrary: fs)
    case (Cons x rs)
    then show ?case by (cases x) (auto simp: shm_remove_file_def hm.invar_del hm.get_del image_iff)
  qed simp
  have "(name, path) \<in> set (smm_regions m)" using assms(2) by (simp add: hm_get_def map_of_SomeD)
  then have "path \<in> snd ` set (smm_regions m)" by force
  then show ?thesis using inv [of fs "smm_regions m"] assms(1) by (auto simp: shm_cleanup_def files_ok_def)
qed

end
