(* ===== verification/Hot_Cold_Index.thy ===== *)
theory Hot_Cold_Index
  imports Lsm_Bitmap Complex_Main
begin

text \<open>
  The hot/cold index and its manager (\<open>index-fabric/src/hot_cold_index.rs\<close>) over the bitmaps of
  \<open>Lsm_Bitmap\<close>.

  Calls are modelled one at a time, the compaction a call starts running to its end before the
  next one: \<open>lsm_insert_schedule\<close> shows that this is one of the schedules of \<open>Lsm_Bitmap\<close>, which
  treats all of them.  Percentages are rationals with a rounding argument.  An index obtained
  from the manager is shared with it, so that calls on it are calls on the stored index.
\<close>

section \<open>Insertion into one bitmap\<close>

definition lsm_insert :: "'b bitmap32_ops \<Rightarrow> u32 \<Rightarrow> 'b lsm_bitmap \<Rightarrow> (unit, 'b lsm_bitmap) result" where
  "lsm_insert B i l =
     (case lsm_insert_write B i l of
        None \<Rightarrow> Panic
      | Some l' \<Rightarrow> Ok (if should_compact_lsm B l' then lsm_compact B l' else l'))"

text \<open>The writer runs to the end of the call, then the compaction it started, if any.\<close>

lemma lsm_insert_schedule:
  assumes "lsm_insert B i l = Ok l'" "\<not> lb_compaction_in_progress l"
  shows "\<exists>ts. fold (lsm_exec B) [0, 0, 0, 0, 1, 1, 1, 1, 1, 0] (l, [Insert_next [i]]) = (l', ts) \<and> set ts \<subseteq> {Stopped}"
proof -
  obtain l1 where l1: "lsm_insert_write B i l = Some l1" using assms(1) by (auto simp: lsm_insert_def split: option.splits)
  have f: "\<not> lb_compaction_in_progress l1" using assms(2) l1 by (auto simp: lsm_insert_write_def split: if_splits)
  show ?thesis
  proof (cases "wants_compaction B l1")
    case True
    then have "l' = lsm_compact B l1" using assms(1) l1 f by (simp add: lsm_insert_def should_compact_lsm_def)
    then show ?thesis using True l1 f by (simp add: lsm_exec_def lsm_compact_def merge_deltas_def)
  next
    case False
    then have "l' = l1" using assms(1) l1 by (simp add: lsm_insert_def should_compact_lsm_def)
    then show ?thesis using False l1 by (simp add: lsm_exec_def)
  qed
qed


section \<open>Tiers\<close>

definition HOT_THRESHOLD_SLOTS :: u64 where
  "HOT_THRESHOLD_SLOTS = 100"

definition WARM_THRESHOLD_SLOTS :: u64 where
  "WARM_THRESHOLD_SLOTS = 10000"

datatype storage_tier = Hot | Warm | Cold

record access_metadata =
  md_last_access_slot :: u64
  md_access_count :: u64
  md_tier :: storage_tier

definition access_metadata_new :: "u64 \<Rightarrow> access_metadata" where
  "access_metadata_new current_slot = \<lparr> md_last_access_slot = current_slot, md_access_count = 1, md_tier = Hot \<rparr>"

definition calculate_tier :: "u64 \<Rightarrow> access_metadata \<Rightarrow> storage_tier" where
  "calculate_tier current_slot md =
     (let slots_since_access = saturating_sub current_slot (md_last_access_slot md)
      in if slots_since_access < HOT_THRESHOLD_SLOTS then Hot
         else if slots_since_access < WARM_THRESHOLD_SLOTS then Warm
         else Cold)"

definition metadata_access :: "u64 \<Rightarrow> access_metadata \<Rightarrow> storage_tier \<times> access_metadata" where
  "metadata_access current_slot md =
     (let md1 = md \<lparr> md_last_access_slot := current_slot, md_access_count := md_access_count md + 1 \<rparr>;
          tier = calculate_tier current_slot md1
      in (tier, md1 \<lparr> md_tier := tier \<rparr>))"


section \<open>The index of a program\<close>

record ('pk, 'b) tiered_index =
  ti_hot_index :: "'b lsm_bitmap"
  ti_warm_index :: "'b lsm_bitmap"
  ti_cold_index :: "'b lsm_bitmap"
  ti_metadata :: "('pk, access_metadata) btree"
  ti_current_slot :: u64

definition tiered_index_new :: "'b bitmap32_ops \<Rightarrow> ('pk, 'b) tiered_index" where
  "tiered_index_new B =
     \<lparr> ti_hot_index = lsm_new B, ti_warm_index = lsm_new B, ti_cold_index = lsm_new B, ti_metadata = [], ti_current_slot = 0 \<rparr>"

definition set_current_slot :: "u64 \<Rightarrow> ('pk, 'b) tiered_index \<Rightarrow> ('pk, 'b) tiered_index" where
  "set_current_slot slot x = x \<lparr> ti_current_slot := slot \<rparr>"

definition tiered_insert_account ::
  "'b bitmap32_ops \<Rightarrow> u32 \<Rightarrow> 'pk::linorder \<Rightarrow> ('pk, 'b) tiered_index \<Rightarrow> (unit, ('pk, 'b) tiered_index) result" where
  "tiered_insert_account B account_id pubkey x =
     (let md = (access_metadata_new (ti_current_slot x)) \<lparr> md_tier := Hot \<rparr>
      in rbind (case md_tier md of
                  Hot \<Rightarrow> rbind (lsm_insert B account_id (ti_hot_index x)) (\<lambda>l. Ok (x \<lparr> ti_hot_index := l \<rparr>))
                | Warm \<Rightarrow> rbind (lsm_insert B account_id (ti_warm_index x)) (\<lambda>l. Ok (x \<lparr> ti_warm_index := l \<rparr>))
                | Cold \<Rightarrow> rbind (lsm_insert B account_id (ti_cold_index x)) (\<lambda>l. Ok (x \<lparr> ti_cold_index := l \<rparr>)))
           (\<lambda>x'. Ok (x' \<lparr> ti_metadata := bt_insert pubkey md (ti_metadata x') \<rparr>)))"

definition access_account :: "'pk::linorder \<Rightarrow> ('pk, 'b) tiered_index \<Rightarrow> storage_tier \<times> ('pk, 'b) tiered_index" where
  "access_account pubkey x =
     (let current_slot = ti_current_slot x;
          (tier, md) = (case bt_get (ti_metadata x) pubkey of
                          Some md \<Rightarrow> metadata_access current_slot md
                        | None \<Rightarrow> (let md = access_metadata_new current_slot in (md_tier md, md)))
      in (tier, x \<lparr> ti_metadata := bt_insert pubkey md (ti_metadata x) \<rparr>))"

definition query_hot :: "'b bitmap32_ops \<Rightarrow> ('pk, 'b) tiered_index \<Rightarrow> 'b" where
  "query_hot B x = lsm_query B (ti_hot_index x)"

definition query_warm :: "'b bitmap32_ops \<Rightarrow> ('pk, 'b) tiered_index \<Rightarrow> 'b" where
  "query_warm B x = lsm_query B (ti_warm_index x)"

definition query_cold :: "'b bitmap32_ops \<Rightarrow> ('pk, 'b) tiered_index \<Rightarrow> 'b" where
  "query_cold B x = lsm_query B (ti_cold_index x)"

definition query_all :: "'b bitmap32_ops \<Rightarrow> ('pk, 'b) tiered_index \<Rightarrow> 'b" where
  "query_all B x =
     rb_or B (rb_or B (lsm_query B (ti_hot_index x)) (lsm_query B (ti_warm_index x))) (lsm_query B (ti_cold_index x))"

definition promote_to_hot :: "'b bitmap32_ops \<Rightarrow> u32 \<Rightarrow> ('pk, 'b) tiered_index \<Rightarrow> (unit, ('pk, 'b) tiered_index) result" where
  "promote_to_hot B account_id x =
     rbind (lsm_insert B account_id (ti_hot_index x)) (\<lambda>l. Ok (x \<lparr> ti_hot_index := l \<rparr>))"

record tiered_index_stats =
  tis_hot_cardinality :: u64
  tis_warm_cardinality :: u64
  tis_cold_cardinality :: u64
  tis_total_accounts :: u64
  tis_hot_percentage :: rat

definition tiered_index_stats_of :: "(rat \<Rightarrow> rat) \<Rightarrow> 'b bitmap32_ops \<Rightarrow> ('pk, 'b) tiered_index \<Rightarrow> tiered_index_stats" where
  "tiered_index_stats_of f64 B x =
     (let hot = ls_estimated_total (lsm_stats B (ti_hot_index x))
      in \<lparr> tis_hot_cardinality = hot, tis_warm_cardinality = ls_estimated_total (lsm_stats B (ti_warm_index x)),
           tis_cold_cardinality = ls_estimated_total (lsm_stats B (ti_cold_index x)),
           tis_total_accounts = of_nat (length (ti_metadata x)),
           tis_hot_percentage =
             (if ti_metadata x = [] then 0
              else f64 (f64 (f64 (of_nat (unat hot)) / f64 (of_nat (length (ti_metadata x)))) * 100)) \<rparr>)"


section \<open>The manager\<close>

record ('pk, 'b) hot_cold_manager =
  hc_program_indexes :: "('pk, ('pk, 'b) tiered_index) btree"
  hc_current_slot :: u64

definition hot_cold_new :: "('pk, 'b) hot_cold_manager" where
  "hot_cold_new = \<lparr> hc_program_indexes = [], hc_current_slot = 0 \<rparr>"

definition hc_update_slot :: "u64 \<Rightarrow> ('pk, 'b) hot_cold_manager \<Rightarrow> ('pk, 'b) hot_cold_manager" where
  "hc_update_slot slot m =
     \<lparr> hc_program_indexes = map (\<lambda>(p, x). (p, set_current_slot slot x)) (hc_program_indexes m), hc_current_slot = slot \<rparr>"

definition hc_get_or_create_index ::
  "'b bitmap32_ops \<Rightarrow> 'pk::linorder \<Rightarrow> ('pk, 'b) hot_cold_manager \<Rightarrow> ('pk, 'b) tiered_index \<times> ('pk, 'b) hot_cold_manager" where
  "hc_get_or_create_index B program_id m =
     (case bt_get (hc_program_indexes m) program_id of
        Some x \<Rightarrow> (x, m)
      | None \<Rightarrow>
          (let x = set_current_slot (hc_current_slot m) (tiered_index_new B)
           in (x, m \<lparr> hc_program_indexes := bt_insert program_id x (hc_program_indexes m) \<rparr>)))"

record hot_cold_global_stats =
  hgs_total_programs :: u64
  hgs_total_hot :: u64
  hgs_total_warm :: u64
  hgs_total_cold :: u64
  hgs_total_accounts :: u64
  hgs_hot_percentage :: rat

definition hot_cold_stats :: "(rat \<Rightarrow> rat) \<Rightarrow> 'b bitmap32_ops \<Rightarrow> ('pk, 'b) hot_cold_manager \<Rightarrow> hot_cold_global_stats" where
  "hot_cold_stats f64 B m =
     (let sts = map (tiered_index_stats_of f64 B) (bt_vals (hc_program_indexes m));
          total_hot = sum_list (map tis_hot_cardinality sts);
          total_accounts = sum_list (map tis_total_accounts sts)
      in \<lparr> hgs_total_programs = of_nat (length (hc_program_indexes m)), hgs_total_hot = total_hot,
           hgs_total_warm = sum_list (map tis_warm_cardinality sts), hgs_total_cold = sum_list (map tis_cold_cardinality sts),
           hgs_total_accounts = total_accounts,
           hgs_hot_percentage =
             (if total_accounts = 0 then 0
              else f64 (f64 (f64 (of_nat (unat total_hot)) / f64 (of_nat (unat total_accounts))) * 100)) \<rparr>)"


section \<open>Histories of an index\<close>

datatype 'pk tier_op =
    Tier_Slot u64
  | Tier_Insert u32 'pk
  | Tier_Access 'pk
  | Tier_Promote u32

primrec tier_step ::
  "'b bitmap32_ops \<Rightarrow> 'pk::linorder tier_op \<Rightarrow> ('pk, 'b) tiered_index \<Rightarrow> (unit, ('pk, 'b) tiered_index) result" where
  "tier_step B (Tier_Slot s) x = Ok (set_current_slot s x)"
| "tier_step B (Tier_Insert i pk) x = tiered_insert_account B i pk x"
| "tier_step B (Tier_Access pk) x = Ok (snd (access_account pk x))"
| "tier_step B (Tier_Promote i) x = promote_to_hot B i x"

primrec tier_run ::
  "'b bitmap32_ops \<Rightarrow> 'pk::linorder tier_op list \<Rightarrow> ('pk, 'b) tiered_index \<Rightarrow> (unit, ('pk, 'b) tiered_index) result" where
  "tier_run B [] x = Ok x"
| "tier_run B (a # as) x = rbind (tier_step B a x) (tier_run B as)"

text \<open>The same history on the abstract state.\<close>

record 'pk tier_spec =
  ts_ids :: "u32 set"
  ts_slot :: u64
  ts_meta :: "'pk \<rightharpoonup> u64 \<times> u64"

definition tier_spec_new :: "'pk tier_spec" where
  "tier_spec_new = \<lparr> ts_ids = {}, ts_slot = 0, ts_meta = Map.empty \<rparr>"

primrec spec_step :: "'pk tier_op \<Rightarrow> 'pk tier_spec \<Rightarrow> 'pk tier_spec" where
  "spec_step (Tier_Slot s) t = t \<lparr> ts_slot := s \<rparr>"
| "spec_step (Tier_Insert i pk) t = t \<lparr> ts_ids := insert i (ts_ids t), ts_meta := (ts_meta t)(pk \<mapsto> (ts_slot t, 1)) \<rparr>"
| "spec_step (Tier_Access pk) t =
     t \<lparr> ts_meta := (ts_meta t)(pk \<mapsto> (ts_slot t, case ts_meta t pk of Some (_, n) \<Rightarrow> n + 1 | None \<Rightarrow> 1)) \<rparr>"
| "spec_step (Tier_Promote i) t = t \<lparr> ts_ids := insert i (ts_ids t) \<rparr>"

definition calm :: "'b bitmap32_ops \<Rightarrow> 'b lsm_bitmap \<Rightarrow> u32 set \<Rightarrow> bool" where
  "calm B l S \<longleftrightarrow> length (lb_deltas l) = 1 \<and> \<not> lb_compaction_in_progress l \<and> visible B l = S"

definition tier_ok :: "'b bitmap32_ops \<Rightarrow> 'pk tier_spec \<Rightarrow> ('pk::linorder, 'b) tiered_index \<Rightarrow> bool" where
  "tier_ok B t x \<longleftrightarrow>
     calm B (ti_hot_index x) (ts_ids t) \<and> calm B (ti_warm_index x) {} \<and> calm B (ti_cold_index x) {} \<and>
     ti_current_slot x = ts_slot t \<and> bt_invar (ti_metadata x) \<and>
     (\<forall>pk. bt_get (ti_metadata x) pk =
        map_option (\<lambda>(s, n). \<lparr> md_last_access_slot = s, md_access_count = n, md_tier = Hot \<rparr>) (ts_meta t pk))"

text \<open>An access sets the last access to the current slot before it computes the tier.\<close>

lemma metadata_access_hot:
  "metadata_access s md = (Hot, \<lparr> md_last_access_slot = s, md_access_count = md_access_count md + 1, md_tier = Hot \<rparr>)"
  by (cases md) (simp add: metadata_access_def calculate_tier_def saturating_sub_def HOT_THRESHOLD_SLOTS_def Let_def)

lemma access_account_eq:
  assumes "tier_ok B t x"
  shows "access_account pk x =
    (Hot, x \<lparr> ti_metadata := bt_insert pk
       \<lparr> md_last_access_slot = ts_slot t, md_access_count = (case ts_meta t pk of Some (_, n) \<Rightarrow> n + 1 | None \<Rightarrow> 1), md_tier = Hot \<rparr> (ti_metadata x) \<rparr>)"
  using assms
  by (cases "ts_meta t pk") (auto simp: access_account_def tier_ok_def metadata_access_hot access_metadata_new_def Let_def)

context roaring32
begin

lemma calm_new: "calm B (lsm_new B) {}"
  by (simp add: calm_def lsm_new_def lsm_with_config_def visible_eq set_new)

lemma calm_insert:
  assumes "calm B l S"
  shows "\<exists>l'. lsm_insert B i l = Ok l' \<and> calm B l' (insert i S)"
proof -
  obtain l1 where l1: "lsm_insert_write B i l = Some l1" "length (lb_deltas l1) = 1" "lb_base l1 = lb_base l"
      "\<not> lb_compaction_in_progress l1" "\<Union> (rb_set B ` set (lb_deltas l1)) = insert i (\<Union> (rb_set B ` set (lb_deltas l)))"
    using visible_insert [of l i] assms by (auto simp: calm_def)
  have "calm B l1 (insert i S)" using l1 assms by (auto simp: calm_def visible_eq)
  moreover have "calm B (lsm_compact B l1) (insert i S)"
    using \<open>calm B l1 (insert i S)\<close> by (simp add: calm_def lsm_compact_def merge_deltas_def visible_eq set_or_all set_new)
  ultimately show ?thesis using l1(1) by (simp add: lsm_insert_def)
qed

lemma tier_ok_step:
  assumes "tier_ok B t x"
  shows "\<exists>x'. tier_step B a x = Ok x' \<and> tier_ok B (spec_step a t) x'"
proof (cases a)
  case (Tier_Slot s)
  then show ?thesis using assms by (simp add: tier_ok_def set_current_slot_def)
next
  case (Tier_Insert i pk)
  obtain l where "lsm_insert B i (ti_hot_index x) = Ok l" "calm B l (insert i (ts_ids t))"
    using assms calm_insert by (meson tier_ok_def)
  then show ?thesis
    using Tier_Insert assms
    by (simp add: tiered_insert_account_def tier_ok_def access_metadata_new_def Let_def bt.invar_ins bt.get_ins)
next
  case (Tier_Access pk)
  then show ?thesis using access_account_eq [OF assms, of pk] assms by (simp add: tier_ok_def bt.invar_ins bt.get_ins)
next
  case (Tier_Promote i)
  obtain l where "lsm_insert B i (ti_hot_index x) = Ok l" "calm B l (insert i (ts_ids t))"
    using assms calm_insert by (meson tier_ok_def)
  then show ?thesis using Tier_Promote assms by (simp add: promote_to_hot_def tier_ok_def)
qed

lemma tier_ok_run: "tier_ok B t x \<Longrightarrow> \<exists>x'. tier_run B as x = Ok x' \<and> tier_ok B (fold spec_step as t) x'"
proof (induction as arbitrary: t x)
  case (Cons a as)
  obtain x1 where "tier_step B a x = Ok x1" "tier_ok B (spec_step a t) x1" using tier_ok_step [OF Cons.prems] by blast
  then show ?case using Cons.IH by simp
qed simp

lemma tier_ok_new: "tier_ok B tier_spec_new (tiered_index_new B)"
  by (simp add: tier_ok_def tier_spec_new_def tiered_index_new_def calm_new bt.invar_empty bt.get_empty)

lemma tier_ok_queries:
  assumes "tier_ok B t x"
  shows "rb_set B (query_hot B x) = ts_ids t" "rb_set B (query_warm B x) = {}" "rb_set B (query_cold B x) = {}"
    "rb_set B (query_all B x) = ts_ids t"
  using assms by (simp_all add: tier_ok_def calm_def visible_def query_hot_def query_warm_def query_cold_def query_all_def set_or)

end

lemma metadata_count:
  assumes "tier_ok B t x"
  shows "length (ti_metadata x) = card (dom (ts_meta t))"
proof -
  have "set (bt_keys (ti_metadata x)) = dom (ts_meta t)"
  proof (rule set_eqI)
    fix k
    have "bt_get (ti_metadata x) k = None \<longleftrightarrow> ts_meta t k = None" using assms by (simp add: tier_ok_def)
    then show "k \<in> set (bt_keys (ti_metadata x)) \<longleftrightarrow> k \<in> dom (ts_meta t)"
      unfolding domIff using bt_get_None [of "ti_metadata x" k] by metis
  qed
  then show ?thesis using bt_invar_distinct [of "ti_metadata x"] assms
    by (metis bt_keys_def distinct_card length_map tier_ok_def)
qed



text \<open>
  The manager keeps the slot of every index equal to its own, and returns for a program the
  index that is stored for it.
\<close>

definition slots_agree :: "('pk::linorder, 'b) hot_cold_manager \<Rightarrow> bool" where
  "slots_agree m \<longleftrightarrow> bt_invar (hc_program_indexes m) \<and>
     (\<forall>p x. bt_get (hc_program_indexes m) p = Some x \<longrightarrow> ti_current_slot x = hc_current_slot m)"

lemma slots_agree_update: "slots_agree m \<Longrightarrow> slots_agree (hc_update_slot s m)"
  unfolding slots_agree_def hc_update_slot_def
  by (auto simp: bt_get_map bt_invar_map set_current_slot_def)

lemma slots_agree_get:
  assumes "slots_agree m" "hc_get_or_create_index B p m = (x, m')"
  shows "slots_agree m' \<and> bt_get (hc_program_indexes m') p = Some x \<and> ti_current_slot x = hc_current_slot m' \<and>
    hc_get_or_create_index B p m' = (x, m')"
  using assms
  by (auto simp: hc_get_or_create_index_def slots_agree_def Let_def bt.invar_ins bt.get_ins set_current_slot_def split: option.splits if_splits)

end
