(* ===== verification/Numa_Fabric.thy ===== *)
theory Numa_Fabric
  imports Prelude
begin

text \<open>
  The NUMA-aware buffer pool and index storage (\<open>index-fabric/src/numa_fabric.rs\<close>).

  The static counter of the interleaved policy is part of the state.  An index outside the
  nodes panics; offsets are 64-bit words, whose sums wrap.  The number of processors is an
  argument.  Calls are modelled one at a time; every pool and every storage has its own lock.
\<close>

section \<open>Allocation policy\<close>

type_synonym numa_node_id = u32

record numa_node_info =
  nn_node_id :: numa_node_id
  nn_total_memory :: u64
  nn_free_memory :: u64
  nn_cpu_cores :: "u32 list"

datatype numa_policy = Preferred | Local | Interleaved | Bind

record numa_allocator =
  na_preferred_node :: numa_node_id
  na_fallback_node :: numa_node_id
  na_policy :: numa_policy

definition numa_allocator_new :: "numa_node_id \<Rightarrow> numa_policy \<Rightarrow> numa_allocator" where
  "numa_allocator_new preferred policy = \<lparr> na_preferred_node = preferred, na_fallback_node = 0, na_policy = policy \<rparr>"

definition core_to_node :: "u32 \<Rightarrow> numa_node_id" where
  "core_to_node core = (if core < 8 then 0 else 1)"

definition interleaved_node :: "u64 \<Rightarrow> numa_node_id \<times> u64" where
  "interleaved_node counter = (ucast (counter mod 2), counter + 1)"

definition optimal_node :: "numa_allocator \<Rightarrow> u32 \<Rightarrow> u64 \<Rightarrow> numa_node_id \<times> u64" where
  "optimal_node a current_core counter =
     (case na_policy a of
        Preferred \<Rightarrow> (na_preferred_node a, counter)
      | Local \<Rightarrow> (core_to_node current_core, counter)
      | Interleaved \<Rightarrow> interleaved_node counter
      | Bind \<Rightarrow> (na_preferred_node a, counter))"


section \<open>The buffer pool\<close>

record numa_buffer_pool =
  bp_pools :: "byte list list list"
  bp_buffer_size :: nat
  bp_allocator :: numa_allocator

definition buffer_pool_new :: "nat \<Rightarrow> nat \<Rightarrow> numa_allocator \<Rightarrow> numa_buffer_pool" where
  "buffer_pool_new num_nodes buffer_size allocator =
     \<lparr> bp_pools = replicate num_nodes [], bp_buffer_size = buffer_size, bp_allocator = allocator \<rparr>"

definition acquire_buffer :: "u32 \<Rightarrow> numa_buffer_pool \<times> u64 \<Rightarrow> (unit, byte list \<times> numa_buffer_pool \<times> u64) result" where
  "acquire_buffer current_core s =
     (let (p, counter) = s; (node, counter') = optimal_node (bp_allocator p) current_core counter; n = unat node
      in if n < length (bp_pools p)
         then (case rev (bp_pools p ! n) of
                 buffer # rest \<Rightarrow> Ok (buffer, p \<lparr> bp_pools := (bp_pools p)[n := rev rest] \<rparr>, counter')
               | [] \<Rightarrow> Ok (replicate (bp_buffer_size p) 0, p, counter'))
         else Panic)"

definition release_buffer :: "byte list \<Rightarrow> u32 \<Rightarrow> numa_buffer_pool \<times> u64 \<Rightarrow> (unit, numa_buffer_pool \<times> u64) result" where
  "release_buffer buffer current_core s =
     (let (p, counter) = s; (node, counter') = optimal_node (bp_allocator p) current_core counter; n = unat node
      in if n < length (bp_pools p)
         then Ok (if length (bp_pools p ! n) < 1024 then p \<lparr> bp_pools := (bp_pools p)[n := (bp_pools p ! n) @ [buffer]] \<rparr> else p, counter')
         else Panic)"

record numa_pool_stats =
  nps_node_id :: numa_node_id
  nps_buffer_count :: nat
  nps_buffer_size :: nat

definition node_stats :: "numa_buffer_pool \<Rightarrow> numa_pool_stats list" where
  "node_stats p =
     map (\<lambda>(node_id, pool). \<lparr> nps_node_id = of_nat node_id, nps_buffer_count = length pool, nps_buffer_size = bp_buffer_size p \<rparr>)
       (enumerate 0 (bp_pools p))"


section \<open>The index storage\<close>

record numa_index_storage =
  nis_storage_per_node :: "byte list list"
  nis_allocator :: numa_allocator

definition index_storage_new :: "nat \<Rightarrow> nat \<Rightarrow> numa_allocator \<Rightarrow> numa_index_storage" where
  "index_storage_new num_nodes initial_capacity allocator =
     \<lparr> nis_storage_per_node = replicate num_nodes (replicate initial_capacity 0), nis_allocator = allocator \<rparr>"

definition get_storage :: "u32 \<Rightarrow> numa_index_storage \<Rightarrow> u64 \<Rightarrow> (unit, byte list \<times> u64) result" where
  "get_storage current_core s counter =
     (let (node, counter') = optimal_node (nis_allocator s) current_core counter
      in if unat node < length (nis_storage_per_node s) then Ok (nis_storage_per_node s ! unat node, counter') else Panic)"

text \<open>\<open>resize\<close> to a greater length, then a slice assignment.\<close>

definition storage_put :: "u64 \<Rightarrow> byte list \<Rightarrow> byte list \<Rightarrow> (unit, byte list) result" where
  "storage_put offset data storage =
     (let stop = offset + of_nat (length data);
          grown = (if unat stop > length storage then storage @ replicate (unat stop - length storage) 0 else storage)
      in if stop < offset then Panic else Ok (write_at grown (unat offset) data))"

definition storage_write ::
  "u32 \<Rightarrow> u64 \<Rightarrow> byte list \<Rightarrow> numa_index_storage \<times> u64 \<Rightarrow> (unit, numa_index_storage \<times> u64) result" where
  "storage_write current_core offset data s =
     (let (st, counter) = s; (node, counter') = optimal_node (nis_allocator st) current_core counter; n = unat node
      in if n < length (nis_storage_per_node st)
         then rbind (storage_put offset data (nis_storage_per_node st ! n)) (\<lambda>bytes.
                Ok (st \<lparr> nis_storage_per_node := (nis_storage_per_node st)[n := bytes] \<rparr>, counter'))
         else Panic)"

definition storage_read :: "numa_node_id \<Rightarrow> u64 \<Rightarrow> u64 \<Rightarrow> numa_index_storage \<Rightarrow> (unit, byte list option) result" where
  "storage_read node offset len st =
     (if unat node < length (nis_storage_per_node st)
      then (let storage = nis_storage_per_node st ! unat node; stop = offset + len
            in if unat stop > length storage then Ok None
               else rbind (or_panic (slice storage (unat offset) (unat stop))) (\<lambda>bs. Ok (Some bs)))
      else Panic)"


section \<open>Detection\<close>

definition detect_numa_config :: "nat \<Rightarrow> numa_node_info list" where
  "detect_numa_config num_cpus =
     (let num_nodes = (if num_cpus > 16 then 2 else 1 :: nat)
      in map (\<lambda>node_id.
           let cores_per_node = num_cpus div num_nodes; start_core = node_id * cores_per_node; end_core = start_core + cores_per_node
           in \<lparr> nn_node_id = of_nat node_id, nn_total_memory = 16 * 1024 * 1024 * 1024,
                nn_free_memory = 8 * 1024 * 1024 * 1024, nn_cpu_cores = map of_nat [start_core..<end_core] \<rparr>)
         [0..<num_nodes])"

definition current_core_id :: u32 where
  "current_core_id = 0"


section \<open>Correctness\<close>

text \<open>The nodes an allocator can choose.\<close>

definition chosen_nodes :: "numa_allocator \<Rightarrow> nat set" where
  "chosen_nodes a = (if na_policy a = Preferred \<or> na_policy a = Bind then {unat (na_preferred_node a)} else {0, 1})"

lemma optimal_node_chosen: "optimal_node a core counter = (node, counter') \<Longrightarrow> unat node \<in> chosen_nodes a"
proof -
  have "unat (ucast (counter mod 2) :: u32) \<in> {0, 1}"
  proof -
    have "unat (counter mod 2) < 2" by (simp add: unat_mod)
    moreover have "unat (ucast (counter mod 2) :: u32) = unat (counter mod 2)"
      using calculation by (simp add: unsigned_ucast_eq take_bit_nat_eq_self)
    ultimately show ?thesis by auto
  qed
  then show "optimal_node a core counter = (node, counter') \<Longrightarrow> unat node \<in> chosen_nodes a"
    by (cases "na_policy a") (auto simp: optimal_node_def chosen_nodes_def core_to_node_def interleaved_node_def split: if_splits)
qed

subsection \<open>The pool\<close>

datatype pool_op = Acquire u32 | Release "byte list" u32

fun pool_run :: "pool_op list \<Rightarrow> numa_buffer_pool \<times> u64 \<Rightarrow> (unit, byte list list \<times> numa_buffer_pool \<times> u64) result" where
  "pool_run [] s = Ok ([], s)"
| "pool_run (Acquire core # as) s =
     rbind (acquire_buffer core s) (\<lambda>(b, s'). rbind (pool_run as s') (\<lambda>(bs, s''). Ok (b # bs, s'')))"
| "pool_run (Release buffer core # as) s = rbind (release_buffer buffer core s) (pool_run as)"

fun releases_size :: "nat \<Rightarrow> pool_op \<Rightarrow> bool" where
  "releases_size n (Acquire core) = True"
| "releases_size n (Release buffer core) = (length buffer = n)"

definition pool_ok :: "numa_buffer_pool \<Rightarrow> bool" where
  "pool_ok p \<longleftrightarrow> chosen_nodes (bp_allocator p) \<subseteq> {..<length (bp_pools p)} \<and>
     (\<forall>pool\<in>set (bp_pools p). length pool \<le> 1024 \<and> (\<forall>b\<in>set pool. length b = bp_buffer_size p))"

lemma pool_ok_update:
  assumes "pool_ok p" "length pool \<le> 1024" "\<forall>b\<in>set pool. length b = bp_buffer_size p"
  shows "pool_ok (p \<lparr> bp_pools := (bp_pools p)[n := pool] \<rparr>)"
  using assms set_update_subset_insert [of "bp_pools p" n pool] by (auto simp: pool_ok_def)

lemma acquire_ok:
  assumes "pool_ok p"
  shows "\<exists>b p' c'. acquire_buffer core (p, c) = Ok (b, p', c') \<and> length b = bp_buffer_size p \<and> pool_ok p' \<and>
    bp_buffer_size p' = bp_buffer_size p"
proof -
  obtain node c' where o: "optimal_node (bp_allocator p) core c = (node, c')" by fastforce
  have n: "unat node < length (bp_pools p)" using optimal_node_chosen [OF o] assms by (auto simp: pool_ok_def)
  show ?thesis
  proof (cases "rev (bp_pools p ! unat node)")
    case Nil
    then show ?thesis using o n assms by (simp add: acquire_buffer_def)
  next
    case (Cons b rest)
    then have pool: "bp_pools p ! unat node = rev rest @ [b]" by (metis rev.simps(2) rev_rev_ident)
    have "rev rest @ [b] \<in> set (bp_pools p)" using nth_mem [OF n] pool by simp
    then have "length (rev rest @ [b]) \<le> 1024" "\<forall>x\<in>set (rev rest @ [b]). length x = bp_buffer_size p"
      using assms unfolding pool_ok_def by blast+
    then show ?thesis using o n Cons pool_ok_update [OF assms, of "rev rest"] by (simp add: acquire_buffer_def)
  qed
qed

lemma release_ok:
  assumes "pool_ok p" "length b = bp_buffer_size p"
  shows "\<exists>p' c'. release_buffer b core (p, c) = Ok (p', c') \<and> pool_ok p' \<and> bp_buffer_size p' = bp_buffer_size p"
proof -
  obtain node c' where o: "optimal_node (bp_allocator p) core c = (node, c')" by fastforce
  have n: "unat node < length (bp_pools p)" using optimal_node_chosen [OF o] assms by (auto simp: pool_ok_def)
  have "\<forall>x\<in>set (bp_pools p ! unat node). length x = bp_buffer_size p"
    using nth_mem [OF n] assms(1) unfolding pool_ok_def by blast
  then show ?thesis using o n assms pool_ok_update [OF assms(1), of "bp_pools p ! unat node @ [b]"]
    by (auto simp: release_buffer_def Let_def)
qed

lemma pool_run_ok:
  "pool_ok p \<Longrightarrow> list_all (releases_size (bp_buffer_size p)) as \<Longrightarrow>
   \<exists>bs p' c'. pool_run as (p, c) = Ok (bs, p', c') \<and> pool_ok p' \<and> (\<forall>b\<in>set bs. length b = bp_buffer_size p) \<and>
     bp_buffer_size p' = bp_buffer_size p"
proof (induction as arbitrary: p c)
  case (Cons a as)
  show ?case
  proof (cases a)
    case (Acquire core)
    obtain b p1 c1 where b: "acquire_buffer core (p, c) = Ok (b, p1, c1)" "length b = bp_buffer_size p" "pool_ok p1"
      "bp_buffer_size p1 = bp_buffer_size p" using acquire_ok [OF Cons.prems(1)] by blast
    then obtain bs p2 c2 where "pool_run as (p1, c1) = Ok (bs, p2, c2)" "pool_ok p2" "\<forall>b\<in>set bs. length b = bp_buffer_size p"
      "bp_buffer_size p2 = bp_buffer_size p"
      using Cons.IH [of p1 c1] Cons.prems(2) by auto
    then show ?thesis using Acquire b by simp
  next
    case (Release b core)
    then obtain p1 c1 where "release_buffer b core (p, c) = Ok (p1, c1)" "pool_ok p1" "bp_buffer_size p1 = bp_buffer_size p"
      using release_ok [OF Cons.prems(1), of b core c] Cons.prems(2) by auto
    then show ?thesis using Release Cons.IH [of p1 c1] Cons.prems(2) by simp
  qed
qed simp

text \<open>When every node the allocator can choose exists and only buffers of the pool's size are
  released to it, no sequence of acquisitions and releases panics, every acquired buffer has
  the pool's size and no node ever keeps more than 1024 buffers.
\<close>

theorem numa_pool_bounds:
  assumes "chosen_nodes allocator \<subseteq> {..<num_nodes}" "list_all (releases_size buffer_size) ops"
  shows "\<exists>bs p c'. pool_run ops (buffer_pool_new num_nodes buffer_size allocator, c) = Ok (bs, p, c') \<and>
    (\<forall>b\<in>set bs. length b = buffer_size) \<and> (\<forall>st\<in>set (node_stats p). nps_buffer_count st \<le> 1024)"
proof -
  have "pool_ok (buffer_pool_new num_nodes buffer_size allocator)"
    using assms(1) by (simp add: pool_ok_def buffer_pool_new_def)
  then obtain bs p c' where r: "pool_run ops (buffer_pool_new num_nodes buffer_size allocator, c) = Ok (bs, p, c')" "pool_ok p"
    "\<forall>b\<in>set bs. length b = buffer_size"
    using pool_run_ok [of "buffer_pool_new num_nodes buffer_size allocator" ops c] assms(2) by (auto simp: buffer_pool_new_def)
  have "\<forall>st\<in>set (node_stats p). nps_buffer_count st \<le> 1024"
    using r(2) by (auto simp: node_stats_def pool_ok_def in_set_enumerate_eq)
  then show ?thesis using r by blast
qed

theorem numa_pool_bounds_witness:
  "\<exists>b1 b2 p c. pool_run [Acquire 0, Release [1, 2] 9, Acquire 9] (buffer_pool_new 2 2 (numa_allocator_new 0 Local), 0) = Ok ([b1, b2], p, c) \<and>
     length b1 = 2 \<and> length b2 = 2"
proof -
  let ?ops = "[Acquire 0, Release [1, 2] 9, Acquire 9]"
  have "chosen_nodes (numa_allocator_new 0 Local) \<subseteq> {..<2}" "list_all (releases_size 2) ?ops"
    by (auto simp: chosen_nodes_def numa_allocator_new_def)
  from numa_pool_bounds [OF this, of 0]
  obtain bs p c where r: "pool_run ?ops (buffer_pool_new 2 2 (numa_allocator_new 0 Local), 0) = Ok (bs, p, c)" "\<forall>b\<in>set bs. length b = 2"
    by blast
  then have "length bs = 2" by (auto simp: res_simps)
  then obtain b1 b2 where "bs = [b1, b2]" by (auto simp: numeral_eq_Suc length_Suc_conv)
  then show ?thesis using r by auto
qed

text \<open>
  With 9 to 16 processors the detected configuration has one node, and a pool for it with the
  local policy panics on the cores from 8 on.
\<close>

lemma numa_local_panics:
  assumes "8 < num_cpus" "num_cpus \<le> 16"
  shows "of_nat 8 \<in> set (concat (map nn_cpu_cores (detect_numa_config num_cpus))) \<and>
    acquire_buffer 8 (buffer_pool_new (length (detect_numa_config num_cpus)) n (numa_allocator_new k Local), c) = Panic"
  using assms
  by (auto simp: detect_numa_config_def Let_def acquire_buffer_def optimal_node_def core_to_node_def numa_allocator_new_def
      buffer_pool_new_def intro!: image_eqI [of _ of_nat 8])


subsection \<open>The storage\<close>

definition grown :: "byte list \<Rightarrow> nat \<Rightarrow> byte list" where
  "grown xs n = xs @ replicate (n - length xs) 0"

lemma storage_put_Ok:
  assumes "unat offset + length data < 2 ^ 64"
  shows "storage_put offset data xs = Ok (write_at (grown xs (unat offset + length data)) (unat offset) data)"
proof -
  have e: "unat (offset + of_nat (length data)) = unat offset + length data"
    using assms by (subst unat_add_lem [THEN iffD1]) (simp_all add: unat_of_nat_eq)
  have "\<not> offset + of_nat (length data) < offset" using e by (simp add: word_less_nat_alt)
  then show ?thesis using e by (simp add: storage_put_def Let_def grown_def)
qed

text \<open>A write to an existing node that does not wrap around the address space succeeds; reading
  the same range from the node it was sent to returns the bytes written.  The node then is as
  long as the old contents and the write need, every other byte of the old contents is as it
  was, a gap is filled with zeros, and the other nodes are unchanged.
\<close>

theorem numa_storage_write_read:
  assumes "optimal_node (nis_allocator st) core c = (node, c')" "unat node < length (nis_storage_per_node st)"
    "unat offset + length data < 2 ^ 64" "old = nis_storage_per_node st ! unat node"
  shows "\<exists>st'. storage_write core offset data (st, c) = Ok (st', c') \<and>
    storage_read node offset (of_nat (length data)) st' = Ok (Some data) \<and>
    length (nis_storage_per_node st' ! unat node) = max (length old) (unat offset + length data) \<and>
    (\<forall>i < length (nis_storage_per_node st' ! unat node). i \<notin> {unat offset..<unat offset + length data} \<longrightarrow>
       nis_storage_per_node st' ! unat node ! i = (if i < length old then old ! i else 0)) \<and>
    (\<forall>n. n \<noteq> unat node \<longrightarrow> nis_storage_per_node st' ! n = nis_storage_per_node st ! n)"
proof -
  let ?e = "unat offset + length data"
  define new where "new = write_at (grown old ?e) (unat offset) data"
  have e: "unat (offset + of_nat (length data)) = ?e"
    using assms(3) by (subst unat_add_lem [THEN iffD1]) (simp_all add: unat_of_nat_eq)
  have g: "length (grown old ?e) = max (length old) ?e" by (simp add: grown_def)
  then have len: "length new = max (length old) ?e" by (simp add: new_def)
  have sl: "slice new (unat offset) ?e = Some data" unfolding new_def by (rule slice_write_at_same) (simp add: g)
  have at: "new ! i = (if i < length old then old ! i else 0)" if "i < length new" "i \<notin> {unat offset..<?e}" for i
    using that len g by (auto simp: new_def write_at_def grown_def nth_append min_def)
  show ?thesis
    using assms(1,2) storage_put_Ok [OF assms(3), of old] sl len at e
    by (intro exI [of _ "st \<lparr> nis_storage_per_node := (nis_storage_per_node st)[unat node := new] \<rparr>"])
      (simp add: storage_write_def storage_read_def Let_def new_def [symmetric] assms(4) [symmetric] or_panic_def)
qed

theorem numa_storage_write_read_witness:
  "\<exists>st'. storage_write 9 2 [7, 8] (index_storage_new 2 3 (numa_allocator_new 0 Local), 0) = Ok (st', 0) \<and>
     storage_read 1 2 2 st' = Ok (Some [7, 8])"
proof -
  have "optimal_node (nis_allocator (index_storage_new 2 3 (numa_allocator_new 0 Local))) 9 0 = (1, 0)"
    by (simp add: optimal_node_def index_storage_new_def numa_allocator_new_def core_to_node_def)
  from numa_storage_write_read [OF this _ _ refl, of 2 "[7, 8]"] show ?thesis by (auto simp: index_storage_new_def)
qed

end
