(* ===== verification/Dragonfly.thy ===== *)
theory Dragonfly
  imports Cache_Plane Std_Text Complex_Main
begin

text \<open>
  The client of the shared response cache (\<open>cache-plane/src/dragonfly.rs\<close>).

  The server is a service: a record \<open>redis_ops\<close> of the commands the client sends, over a server
  state, with their documented behaviour as the laws of the locale \<open>redis\<close>; every command may
  also fail.  \<open>content\<close> is what the server would return at the moment: time passes between
  commands, not during one.  SHA-256, the text and the bytes of a pubkey are arguments.  The
  client's calls are serialised by its lock and modelled one at a time; opening the client
  from a URL and logging are left out.
\<close>

section \<open>The server as a parameter\<close>

record 's redis_ops =
  rd_connect :: "'s \<Rightarrow> bool \<times> 's"
  rd_set :: "string \<Rightarrow> byte list \<Rightarrow> u64 \<Rightarrow> 's \<Rightarrow> (string, unit) result \<times> 's"
  rd_get :: "string \<Rightarrow> 's \<Rightarrow> (string, byte list option) result \<times> 's"
  rd_del :: "string list \<Rightarrow> 's \<Rightarrow> (string, nat) result \<times> 's"
  rd_keys :: "string \<Rightarrow> 's \<Rightarrow> (string, string list) result \<times> 's"
  rd_info :: "'s \<Rightarrow> (string, string) result \<times> 's"
  rd_ping :: "'s \<Rightarrow> (string, string) result \<times> 's"

text \<open>A pattern without special characters stands for itself; a star for any text.\<close>

definition plain :: "string \<Rightarrow> bool" where
  "plain p \<longleftrightarrow> set p \<inter> set ''*?[]^-'' = {} \<and> CHR 92 \<notin> set p"

definition star_key :: "string \<Rightarrow> string \<Rightarrow> string \<Rightarrow> bool" where
  "star_key p q k \<longleftrightarrow> (\<exists>a b. k = p @ a @ q @ b)"

locale redis =
  fixes S :: "'s redis_ops" and content :: "'s \<Rightarrow> string \<rightharpoonup> byte list"
  assumes connect_content: "content (snd (rd_connect S s)) = content s"
    and set_content: "rd_set S k v ttl s = (Ok u, s') \<Longrightarrow> content s' = (content s)(k \<mapsto> v)"
    and get_content: "content (snd (rd_get S k s)) = content s"
    and get_value: "fst (rd_get S k s) = Ok found \<Longrightarrow> found = content s k"
    and del_content: "rd_del S ks s = (Ok n, s') \<Longrightarrow> content s' = content s |` (- set ks)"
    and del_count: "fst (rd_del S ks s) = Ok n \<Longrightarrow> n = card (dom (content s) \<inter> set ks)"
    and keys_content: "content (snd (rd_keys S pat s)) = content s"
    and keys_star: "plain p \<Longrightarrow> plain q \<Longrightarrow> fst (rd_keys S (p @ ''*'' @ q @ ''*'') s) = Ok ks \<Longrightarrow>
          set ks = {k \<in> dom (content s). star_key p q k}"


section \<open>The client\<close>

record dragonfly_cache =
  df_client :: bool
  df_connection :: bool
  df_prefix :: string
  df_default_ttl_secs :: u64

definition dragonfly_new :: "string \<Rightarrow> u64 \<Rightarrow> dragonfly_cache" where
  "dragonfly_new key_prefix default_ttl_secs =
     \<lparr> df_client = True, df_connection = False, df_prefix = key_prefix, df_default_ttl_secs = default_ttl_secs \<rparr>"

definition get_connection :: "'s redis_ops \<Rightarrow> dragonfly_cache \<times> 's \<Rightarrow> bool \<times> dragonfly_cache \<times> 's" where
  "get_connection S cs =
     (let (c, s) = cs in
      if df_connection c then (True, c, s)
      else if df_client c
      then (case rd_connect S s of
              (True, s') \<Rightarrow> (True, c \<lparr> df_connection := True \<rparr>, s')
            | (False, s') \<Rightarrow> (False, c, s'))
      else (False, c, s))"

definition make_key :: "dragonfly_cache \<Rightarrow> string \<Rightarrow> string \<Rightarrow> string" where
  "make_key c meth key = df_prefix c @ '':'' @ meth @ '':'' @ key"

definition dragonfly_set ::
  "'s redis_ops \<Rightarrow> string \<Rightarrow> string \<Rightarrow> byte list \<Rightarrow> u64 option \<Rightarrow> dragonfly_cache \<times> 's \<Rightarrow> (string, unit) result \<times> dragonfly_cache \<times> 's" where
  "dragonfly_set S meth key value ttl_secs cs =
     (let cache_key = make_key (fst cs) meth key;
          ttl = (case ttl_secs of Some t \<Rightarrow> t | None \<Rightarrow> df_default_ttl_secs (fst cs));
          (connected, c, s) = get_connection S cs
      in if connected then (let (r, s') = rd_set S cache_key value ttl s in (r, c, s')) else (Ok (), c, s))"

definition dragonfly_get ::
  "'s redis_ops \<Rightarrow> string \<Rightarrow> string \<Rightarrow> dragonfly_cache \<times> 's \<Rightarrow> (string, byte list option) result \<times> dragonfly_cache \<times> 's" where
  "dragonfly_get S meth key cs =
     (let cache_key = make_key (fst cs) meth key; (connected, c, s) = get_connection S cs
      in if connected then (let (r, s') = rd_get S cache_key s in (r, c, s')) else (Ok None, c, s))"

definition dragonfly_delete ::
  "'s redis_ops \<Rightarrow> string \<Rightarrow> string \<Rightarrow> dragonfly_cache \<times> 's \<Rightarrow> (string, nat) result \<times> dragonfly_cache \<times> 's" where
  "dragonfly_delete S meth key cs =
     (let cache_key = make_key (fst cs) meth key; (connected, c, s) = get_connection S cs
      in if connected then (let (r, s') = rd_del S [cache_key] s in (r, c, s')) else (Ok 0, c, s))"

definition delete_pattern ::
  "'s redis_ops \<Rightarrow> string \<Rightarrow> dragonfly_cache \<times> 's \<Rightarrow> (string, nat) result \<times> dragonfly_cache \<times> 's" where
  "delete_pattern S pattern cs =
     (let pat = df_prefix (fst cs) @ '':*:'' @ pattern @ ''*''; (connected, c, s) = get_connection S cs
      in if connected
         then (case rd_keys S pat s of
                 (Ok ks, s1) \<Rightarrow> if ks = [] then (Ok 0, c, s1) else (let (r, s2) = rd_del S ks s1 in (r, c, s2))
               | (Err e, s1) \<Rightarrow> (Err e, c, s1)
               | (Panic, s1) \<Rightarrow> (Panic, c, s1))
         else (Ok 0, c, s))"

definition dragonfly_invalidate_pubkey ::
  "'s redis_ops \<Rightarrow> ('pk \<Rightarrow> string) \<Rightarrow> 'pk \<Rightarrow> dragonfly_cache \<times> 's \<Rightarrow> (string, nat) result \<times> dragonfly_cache \<times> 's" where
  "dragonfly_invalidate_pubkey S to_string pubkey cs = delete_pattern S (to_string pubkey) cs"

definition dragonfly_ping :: "'s redis_ops \<Rightarrow> dragonfly_cache \<times> 's \<Rightarrow> bool \<times> dragonfly_cache \<times> 's" where
  "dragonfly_ping S cs =
     (let (connected, c, s) = get_connection S cs
      in if connected then (let (r, s') = rd_ping S s in (case r of Ok _ \<Rightarrow> True | _ \<Rightarrow> False, c, s')) else (False, c, s))"

definition dragonfly_close :: "dragonfly_cache \<Rightarrow> dragonfly_cache" where
  "dragonfly_close c = c \<lparr> df_connection := False \<rparr>"


section \<open>Statistics\<close>

record dragonfly_stats =
  dfs_hits :: u64
  dfs_misses :: u64
  dfs_keys :: u64
  dfs_memory_bytes :: u64

definition parsed_or_zero :: "string \<Rightarrow> u64" where
  "parsed_or_zero xs = (case parse_u64 xs of Some n \<Rightarrow> n | None \<Rightarrow> 0)"

definition stats_line :: "string \<Rightarrow> dragonfly_stats \<Rightarrow> dragonfly_stats" where
  "stats_line line st =
     (case split_once (CHR 58) line of
        None \<Rightarrow> st
      | Some (key, value) \<Rightarrow>
          (let k = trim_text key in
           if k = ''keyspace_hits'' then st \<lparr> dfs_hits := parsed_or_zero value \<rparr>
           else if k = ''keyspace_misses'' then st \<lparr> dfs_misses := parsed_or_zero value \<rparr>
           else if k = ''keys'' then st \<lparr> dfs_keys := parsed_or_zero value \<rparr>
           else if k = ''used_memory'' then st \<lparr> dfs_memory_bytes := parsed_or_zero value \<rparr>
           else st))"

definition dragonfly_stats_parse :: "string \<Rightarrow> dragonfly_stats" where
  "dragonfly_stats_parse info =
     fold stats_line (text_lines info) \<lparr> dfs_hits = 0, dfs_misses = 0, dfs_keys = 0, dfs_memory_bytes = 0 \<rparr>"

definition dragonfly_stats_of :: "'s redis_ops \<Rightarrow> dragonfly_cache \<times> 's \<Rightarrow> dragonfly_stats option \<times> dragonfly_cache \<times> 's" where
  "dragonfly_stats_of S cs =
     (let (connected, c, s) = get_connection S cs
      in if connected
         then (case rd_info S s of (Ok info, s') \<Rightarrow> (Some (dragonfly_stats_parse info), c, s') | (_, s') \<Rightarrow> (None, c, s'))
         else (None, c, s))"

definition dragonfly_hit_rate :: "(rat \<Rightarrow> rat) \<Rightarrow> dragonfly_stats \<Rightarrow> rat" where
  "dragonfly_hit_rate f64 st =
     (let sum = dfs_hits st + dfs_misses st
      in if sum = 0 then 0 else f64 (f64 (of_nat (unat (dfs_hits st))) / f64 (of_nat (unat sum))))"


section \<open>Keys\<close>

definition make_account_info_key :: "('pk \<Rightarrow> string) \<Rightarrow> 'pk \<Rightarrow> account_encoding \<Rightarrow> commitment_level \<Rightarrow> string" where
  "make_account_info_key to_string pubkey encoding commitment =
     ''ai:'' @ to_string pubkey @ '':'' @ decimal (unat (encoding_byte encoding)) @ '':'' @ decimal (unat (commitment_byte commitment))"

definition hex_digit :: "nat \<Rightarrow> char" where
  "hex_digit n = (if n < 10 then char_of (48 + n) else char_of (87 + n))"

definition hex_encode :: "byte list \<Rightarrow> string" where
  "hex_encode bs = concat (map (\<lambda>b. [hex_digit (unat b div 16), hex_digit (unat b mod 16)]) bs)"

definition make_program_accounts_key ::
  "(byte list \<Rightarrow> byte list) \<Rightarrow> ('pk \<Rightarrow> string) \<Rightarrow> ('pk \<Rightarrow> byte list) \<Rightarrow> 'pk \<Rightarrow> byte list \<Rightarrow> account_encoding \<Rightarrow> commitment_level \<Rightarrow> string option
     \<Rightarrow> string" where
  "make_program_accounts_key sha256 to_string to_bytes program_id filters_hash encoding commitment cursor =
     (let hash = sha256 (to_bytes program_id @ filters_hash @ [encoding_byte encoding] @ [commitment_byte commitment] @
                         (case cursor of Some c \<Rightarrow> map of_char c | None \<Rightarrow> []))
      in ''pa:'' @ to_string program_id @ '':'' @ hex_encode (take 8 hash) @ '':'' @
         decimal (unat (encoding_byte encoding)) @ '':'' @ decimal (unat (commitment_byte commitment)))"

section \<open>Coherence\<close>

text \<open>Keys that mention a pubkey behind the prefix: those an invalidation removes.\<close>

definition mentions :: "string \<Rightarrow> string \<Rightarrow> string \<Rightarrow> bool" where
  "mentions key_prefix pk k = star_key (key_prefix @ '':'') ('':'' @ pk) k"

lemma account_info_key_mentions:
  "mentions (df_prefix c) (to_string pk) (make_key c meth (make_account_info_key to_string pk enc com))"
  unfolding mentions_def star_key_def make_key_def make_account_info_key_def
  by (rule exI [of _ "meth @ '':ai''"], rule exI [of _ "'':'' @ decimal (unat (encoding_byte enc)) @ '':'' @ decimal (unat (commitment_byte com))"]) simp

lemma program_accounts_key_mentions:
  "mentions (df_prefix c) (to_string p) (make_key c meth (make_program_accounts_key sha256 to_string to_bytes p h enc com cur))"
  unfolding mentions_def star_key_def make_key_def make_program_accounts_key_def Let_def
  by (rule exI [of _ "meth @ '':pa''"], rule exI) simp

lemma plain_append: "plain (p @ q) \<longleftrightarrow> plain p \<and> plain q"
  by (auto simp: plain_def)

lemma get_connection_prefix: "get_connection S (c, s) = (b, c', s') \<Longrightarrow> df_prefix c' = df_prefix c"
  by (auto simp: get_connection_def split: prod.splits bool.splits if_splits)

context redis
begin

lemma get_connection_content: "get_connection S (c, s) = (b, c', s') \<Longrightarrow> content s' = content s"
  using connect_content [of s] by (auto simp: get_connection_def split: prod.splits bool.splits if_splits)

lemma set_then_get:
  assumes "dragonfly_set S meth key value ttl (c, s) = (Ok u, c1, s1)" "df_connection c1"
    "fst (dragonfly_get S meth key (c1, s1)) = Ok found"
  shows "found = Some value"
proof -
  obtain b c0 s0 where g: "get_connection S (c, s) = (b, c0, s0)" by (cases "get_connection S (c, s)") auto
  have b: "b" using g assms(1,2) by (cases b) (auto simp: dragonfly_set_def get_connection_def split: prod.splits bool.splits if_splits)
  define ttl' where "ttl' = (case ttl of Some t \<Rightarrow> t | None \<Rightarrow> df_default_ttl_secs c)"
  have "rd_set S (make_key c meth key) value ttl' s0 = (Ok u, s1)" "c1 = c0"
    using assms(1) g b by (auto simp: dragonfly_set_def ttl'_def Let_def fst_conv split: prod.splits option.splits)
  then have "content s1 (make_key c1 meth key) = Some value"
    using set_content get_connection_prefix [OF g] by (simp add: make_key_def)
  moreover have "fst (rd_get S (make_key c1 meth key) s1) = Ok found"
    using assms(2,3) by (simp add: dragonfly_get_def get_connection_def split: prod.splits)
  ultimately show ?thesis using get_value by metis
qed

lemma invalidate_content:
  assumes "plain (df_prefix c)" "plain (to_string pk)"
    "dragonfly_invalidate_pubkey S to_string pk (c, s) = (Ok n, c', s')" "get_connection S (c, s) = (True, c0, s0)"
  shows "content s' = content s |` {k. \<not> mentions (df_prefix c) (to_string pk) k} \<and>
    n = card {k \<in> dom (content s). mentions (df_prefix c) (to_string pk) k}"
proof -
  let ?p = "df_prefix c @ '':''" and ?q = "'':'' @ to_string pk"
  let ?K = "{k \<in> dom (content s). mentions (df_prefix c) (to_string pk) k}"
  have c0: "content s0 = content s" by (rule get_connection_content [OF assms(4)])
  obtain r s1 where k: "rd_keys S (?p @ ''*'' @ ?q @ ''*'') s0 = (r, s1)" by fastforce
  have s1: "content s1 = content s" using keys_content [of "?p @ ''*'' @ ?q @ ''*''" s0] k c0 by simp
  have del: "delete_pattern S (to_string pk) (c, s) = (Ok n, c', s')" using assms(3) by (simp add: dragonfly_invalidate_pubkey_def)
  then obtain ks where ks: "r = Ok ks" using k assms(4) by (cases r) (auto simp: delete_pattern_def Let_def)
  have plain: "plain ?p" "plain ?q" using assms(1,2) by (simp_all add: plain_append) (simp_all add: plain_def)
  have set: "set ks = ?K"
    using keys_star [OF plain, of s0 ks] k ks c0 by (simp add: mentions_def)
  show ?thesis
  proof (cases "ks = []")
    case True
    then have "n = 0" "s' = s1" using del k ks assms(4) by (auto simp: delete_pattern_def Let_def)
    moreover have "?K = {}" using set True by simp
    moreover have "content s = content s |` {k. \<not> mentions (df_prefix c) (to_string pk) k}"
      using \<open>?K = {}\<close> by (auto simp: restrict_map_def fun_eq_iff domIff)
    ultimately show ?thesis using s1 by (simp only: card.empty)
  next
    case False
    then have d: "rd_del S ks s1 = (Ok n, s')" using del k ks assms(4) by (auto simp: delete_pattern_def Let_def split: prod.splits)
    have "n = card (dom (content s) \<inter> set ks)" using del_count [of ks s1 n] d s1 by simp
    moreover have "dom (content s) \<inter> set ks = ?K" using set by blast
    moreover have "content s' = content s |` (- set ks)" using del_content [OF d] s1 by simp
    moreover have "content s |` (- set ks) = content s |` {k. \<not> mentions (df_prefix c) (to_string pk) k}"
      using set by (auto simp: restrict_map_def fun_eq_iff domIff)
    ultimately show ?thesis by simp
  qed
qed

end


section \<open>A lawful server\<close>

text \<open>
  A server whose state is its entries with the time they expire, and the time.  Its patterns
  know the star only.
\<close>

fun star_match :: "string \<Rightarrow> string \<Rightarrow> bool" where
  "star_match [] k = (k = [])"
| "star_match (x # p) k =
     (if x = CHR 42 then (star_match p k \<or> (case k of [] \<Rightarrow> False | _ # k' \<Rightarrow> star_match (x # p) k'))
      else (case k of [] \<Rightarrow> False | y # k' \<Rightarrow> x = y \<and> star_match p k'))"

lemma star_match_star: "star_match (CHR 42 # p) k \<longleftrightarrow> (\<exists>a b. k = a @ b \<and> star_match p b)"
proof (induction k)
  case (Cons y k)
  have "(\<exists>a b. y # k = a @ b \<and> star_match p b) \<longleftrightarrow> star_match p (y # k) \<or> (\<exists>a b. k = a @ b \<and> star_match p b)"
    by (metis append_Cons append_Nil neq_Nil_conv list.inject)
  then show ?case using Cons by simp
qed simp

lemma star_match_plain: "CHR 42 \<notin> set p \<Longrightarrow> star_match (p @ q) k \<longleftrightarrow> (\<exists>b. k = p @ b \<and> star_match q b)"
proof (induction p arbitrary: k)
  case (Cons x p)
  then show ?case by (cases k) auto
qed simp

lemma star_match_key: "plain p \<Longrightarrow> plain q \<Longrightarrow> star_match (p @ ''*'' @ q @ ''*'') k \<longleftrightarrow> star_key p q k"
proof -
  assume "plain p" "plain q"
  then have "CHR 42 \<notin> set p" "CHR 42 \<notin> set q" by (auto simp: plain_def)
  moreover have "star_match [CHR 42] b" for b by (induction b) simp_all
  ultimately show ?thesis
    by (simp add: star_match_plain star_match_star star_key_def del: star_match.simps) blast
qed

record memory_server =
  ms_entries :: "(string, byte list \<times> nat) hmap"
  ms_now :: nat

definition ms_content :: "memory_server \<Rightarrow> string \<rightharpoonup> byte list" where
  "ms_content s k = (case map_of (ms_entries s) k of Some (v, t) \<Rightarrow> if ms_now s < t then Some v else None | None \<Rightarrow> None)"

definition memory_redis :: "memory_server redis_ops" where
  "memory_redis =
     \<lparr> rd_connect = (\<lambda>s. (True, s)),
       rd_set = (\<lambda>k v ttl s. if ttl = 0 then (Err ''invalid expire time'', s)
                             else (Ok (), s \<lparr> ms_entries := (k, v, ms_now s + unat ttl) # ms_entries s \<rparr>)),
       rd_get = (\<lambda>k s. (Ok (ms_content s k), s)),
       rd_del = (\<lambda>ks s. (Ok (length (filter (\<lambda>k. ms_content s k \<noteq> None) (remdups ks))),
                         s \<lparr> ms_entries := filter (\<lambda>p. fst p \<notin> set ks) (ms_entries s) \<rparr>)),
       rd_keys = (\<lambda>pat s. (Ok (filter (\<lambda>k. ms_content s k \<noteq> None \<and> star_match pat k) (remdups (map fst (ms_entries s)))), s)),
       rd_info = (\<lambda>s. (Ok '''', s)), rd_ping = (\<lambda>s. (Ok ''PONG'', s)) \<rparr>"

lemma memory_invalidate_Ok: "\<exists>n c' s'. dragonfly_invalidate_pubkey memory_redis to_string pk (c, s) = (Ok n, c', s')"
proof -
  obtain b c1 s1 where g: "get_connection memory_redis (c, s) = (b, c1, s1)" by (cases "get_connection memory_redis (c, s)") auto
  obtain ks where k: "rd_keys memory_redis (df_prefix c @ '':*:'' @ to_string pk @ ''*'') s1 = (Ok ks, s1)" by (simp add: memory_redis_def)
  obtain n s2 where "rd_del memory_redis ks s1 = (Ok n, s2)" by (simp add: memory_redis_def)
  then show ?thesis using g k by (simp add: dragonfly_invalidate_pubkey_def delete_pattern_def Let_def)
qed

lemma map_of_filter_keys: "map_of (filter (\<lambda>p. fst p \<notin> K) m) k = (if k \<in> K then None else map_of m k)"
  by (induction m) auto

lemma ms_content_dom: "ms_content s k \<noteq> None \<Longrightarrow> k \<in> fst ` set (ms_entries s)"
  by (auto simp: ms_content_def split: option.splits dest: map_of_SomeD intro: rev_image_eqI)

interpretation mr: redis memory_redis ms_content
proof
  show "rd_set memory_redis k v ttl s = (Ok u, s') \<Longrightarrow> ms_content s' = (ms_content s)(k \<mapsto> v)" for k v ttl s u s'
    by (auto simp: memory_redis_def ms_content_def fun_eq_iff unat_gt_0 split: if_splits option.splits)
  show "rd_del memory_redis ks s = (Ok n, s') \<Longrightarrow> ms_content s' = ms_content s |` (- set ks)" for ks s n s'
  proof -
    assume "rd_del memory_redis ks s = (Ok n, s')"
    then have "ms_entries s' = filter (\<lambda>p. fst p \<notin> set ks) (ms_entries s)" "ms_now s' = ms_now s" by (auto simp: memory_redis_def)
    then have "ms_content s' k = (ms_content s |` (- set ks)) k" for k
      by (cases "k \<in> set ks"; cases "map_of (ms_entries s) k") (auto simp: ms_content_def map_of_filter_keys restrict_map_def)
    then show ?thesis by blast
  qed
  show "fst (rd_del memory_redis ks s) = Ok n \<Longrightarrow> n = card (dom (ms_content s) \<inter> set ks)" for ks s n
  proof -
    assume "fst (rd_del memory_redis ks s) = Ok n"
    then have "n = length (filter (\<lambda>k. ms_content s k \<noteq> None) (remdups ks))" by (simp add: memory_redis_def)
    also have "\<dots> = card (set (filter (\<lambda>k. ms_content s k \<noteq> None) (remdups ks)))" by (metis distinct_card distinct_filter distinct_remdups)
    also have "set (filter (\<lambda>k. ms_content s k \<noteq> None) (remdups ks)) = dom (ms_content s) \<inter> set ks" by auto
    finally show ?thesis .
  qed
  show "plain p \<Longrightarrow> plain q \<Longrightarrow> fst (rd_keys memory_redis (p @ ''*'' @ q @ ''*'') s) = Ok ks \<Longrightarrow>
      set ks = {k \<in> dom (ms_content s). star_key p q k}" for p q s ks
    using ms_content_dom by (auto simp: memory_redis_def star_match_key [simplified])
qed (simp_all add: memory_redis_def)

text \<open>C20: Over any server with the documented behaviour: what a call stored on a live connection is
  what the next read of the same method and key returns, when both report success.  An
  invalidation of a pubkey that reports success on a live connection has removed every entry
  whose key mentions the pubkey behind the prefix, in particular the account responses of the
  pubkey in every encoding and commitment and the program responses of a program, and no
  other, and returns their number.  Without a connection it reports success as well, but
  removes nothing.
\<close>

theorem dragonfly_cache_coherent:
  assumes "redis S content" "plain (df_prefix c)" "plain (to_string pk)"
  shows "(\<forall>u c1 s1 found. dragonfly_set S meth key value ttl (c, s) = (Ok u, c1, s1) \<and> df_connection c1 \<and>
            fst (dragonfly_get S meth key (c1, s1)) = Ok found \<longrightarrow> found = Some value) \<and>
    (\<forall>n c' s' c0 s0. dragonfly_invalidate_pubkey S to_string pk (c, s) = (Ok n, c', s') \<and> get_connection S (c, s) = (True, c0, s0) \<longrightarrow>
       content s' (make_key c meth (make_account_info_key to_string pk enc com)) = None \<and>
       content s' (make_key c meth (make_program_accounts_key sha256 to_string to_bytes pk h enc com cur)) = None \<and>
       content s' = content s |` {k. \<not> mentions (df_prefix c) (to_string pk) k} \<and>
       n = card {k \<in> dom (content s). mentions (df_prefix c) (to_string pk) k}) \<and>
    (\<forall>c0 s0. get_connection S (c, s) = (False, c0, s0) \<longrightarrow>
       dragonfly_invalidate_pubkey S to_string pk (c, s) = (Ok 0, c0, s0) \<and> content s0 = content s)"
proof (intro conjI allI impI)
  fix u c1 s1 found
  assume a: "dragonfly_set S meth key value ttl (c, s) = (Ok u, c1, s1) \<and> df_connection c1 \<and> fst (dragonfly_get S meth key (c1, s1)) = Ok found"
  then show "found = Some value" using redis.set_then_get [OF assms(1)] by blast
next
  fix c0 s0 assume g: "get_connection S (c, s) = (False, c0, s0)"
  then show "dragonfly_invalidate_pubkey S to_string pk (c, s) = (Ok 0, c0, s0)"
    by (simp add: dragonfly_invalidate_pubkey_def delete_pattern_def)
  show "content s0 = content s" by (rule redis.get_connection_content [OF assms(1) g])
next
  fix n c' s' c0 s0
  assume a: "dragonfly_invalidate_pubkey S to_string pk (c, s) = (Ok n, c', s') \<and> get_connection S (c, s) = (True, c0, s0)"
  then have i: "content s' = content s |` {k. \<not> mentions (df_prefix c) (to_string pk) k}"
    "n = card {k \<in> dom (content s). mentions (df_prefix c) (to_string pk) k}"
    using redis.invalidate_content [of S content c to_string pk, OF assms(1-3)] by blast+
  show "content s' = content s |` {k. \<not> mentions (df_prefix c) (to_string pk) k}"
    "n = card {k \<in> dom (content s). mentions (df_prefix c) (to_string pk) k}" by (fact i)+
  show "content s' (make_key c meth (make_account_info_key to_string pk enc com)) = None"
    "content s' (make_key c meth (make_program_accounts_key sha256 to_string to_bytes pk h enc com cur)) = None"
    unfolding i(1)
    using account_info_key_mentions [of c to_string pk meth enc com]
      program_accounts_key_mentions [of c to_string pk meth sha256 to_bytes h enc com cur]
    by (simp_all add: restrict_map_def)
qed

theorem dragonfly_cache_coherent_witness:
  "let c = dragonfly_new ''syn'' 60; s0 = \<lparr> ms_entries = [], ms_now = 0 \<rparr>; show_pk = (\<lambda>_ :: nat. ''9xQ'');
       (r1, c1, s1) = dragonfly_set memory_redis ''getAccountInfo'' (make_account_info_key show_pk 0 Base64 Finalized) [1, 2] None (c, s0);
       (r2, c2, s2) = dragonfly_invalidate_pubkey memory_redis show_pk 0 (c1, s1)
   in r1 = Ok () \<and> ms_content s1 (make_key c ''getAccountInfo'' (make_account_info_key show_pk 0 Base64 Finalized)) = Some [1, 2] \<and>
      r2 = Ok 1 \<and> ms_content s2 (make_key c ''getAccountInfo'' (make_account_info_key show_pk 0 Base64 Finalized)) = None"
proof -
  define show_pk where "show_pk = (\<lambda>_ :: nat. ''9xQ'')"
  define k where "k = make_account_info_key show_pk 0 Base64 Finalized"
  define e where "e = ''syn:getAccountInfo:'' @ k"
  let ?c = "\<lparr> df_client = True, df_connection = True, df_prefix = ''syn'', df_default_ttl_secs = 60 \<rparr>"
    and ?s = "\<lparr> ms_entries = [(e, [1, 2], 60)], ms_now = 0 \<rparr>"
  have d1: "dragonfly_set memory_redis ''getAccountInfo'' k [1, 2] None (dragonfly_new ''syn'' 60, \<lparr> ms_entries = [], ms_now = 0 \<rparr>) = (Ok (), ?c, ?s)"
    by (simp add: dragonfly_set_def get_connection_def dragonfly_new_def memory_redis_def make_key_def e_def)
  have live: "get_connection memory_redis (?c, ?s) = (True, ?c, ?s)" by (simp add: get_connection_def)
  have key: "make_key ?c ''getAccountInfo'' k = e" by (simp add: make_key_def e_def)
  have pl: "plain (df_prefix ?c)" "plain (show_pk 0)" by (auto simp: plain_def show_pk_def)
  have ct: "ms_content ?s = [e \<mapsto> [1, 2]]" by (auto simp: ms_content_def)
  have men: "mentions ''syn'' (show_pk 0) e"
    using account_info_key_mentions [of ?c show_pk 0 "''getAccountInfo''" Base64 Finalized] key by (simp add: k_def)
  obtain n c2 s2 where d2: "dragonfly_invalidate_pubkey memory_redis show_pk 0 (?c, ?s) = (Ok n, c2, s2)"
    using memory_invalidate_Ok [of show_pk 0 ?c ?s] by blast
  have th: "ms_content s2 (make_key ?c ''getAccountInfo'' k) = None"
    "n = card {k \<in> dom (ms_content ?s). mentions (df_prefix ?c) (show_pk 0) k}"
    using dragonfly_cache_coherent [OF mr.redis_axioms, of ?c show_pk 0 "''getAccountInfo''" k "[]" None ?s Base64 Finalized] pl d2 live
    unfolding k_def by blast+
  have "{k \<in> dom (ms_content ?s). mentions (df_prefix ?c) (show_pk 0) k} = {e}" using men unfolding ct by auto
  then have "n = 1" using th(2) by simp
  then show ?thesis
    using d1 d2 th(1) ct key unfolding Let_def k_def show_pk_def by (simp add: make_key_def dragonfly_new_def)
qed

section \<open>Reading the statistics\<close>

text \<open>A report of hits and misses in the format of the server is read back.\<close>

lemma dragonfly_stats_read:
  assumes "hits < 2 ^ 64" "misses < 2 ^ 64"
  shows "dragonfly_stats_parse (''# Stats'' @ CHR 13 # CHR 10 # ''keyspace_hits:'' @ decimal hits @ CHR 13 # CHR 10 #
      ''keyspace_misses:'' @ decimal misses @ CHR 13 # CHR 10 # []) =
    \<lparr> dfs_hits = of_nat hits, dfs_misses = of_nat misses, dfs_keys = 0, dfs_memory_bytes = 0 \<rparr>"
proof -
  have l: "text_lines (''# Stats'' @ CHR 13 # CHR 10 # ''keyspace_hits:'' @ decimal hits @ CHR 13 # CHR 10 #
      ''keyspace_misses:'' @ decimal misses @ CHR 13 # CHR 10 # []) =
      [''# Stats'', ''keyspace_hits:'' @ decimal hits, ''keyspace_misses:'' @ decimal misses]"
  proof -
    have "CHR 10 \<notin> set (''keyspace_hits:'' @ decimal hits)" "CHR 10 \<notin> set (''keyspace_misses:'' @ decimal misses)"
      using decimal_chars by auto
    then show ?thesis
      using text_lines_Nil text_lines_Cons [of "''# Stats''"] text_lines_Cons [of "''keyspace_hits:'' @ decimal hits"]
        text_lines_Cons [of "''keyspace_misses:'' @ decimal misses" "[]"] by simp
  qed
  have "parsed_or_zero (decimal hits) = of_nat hits" "parsed_or_zero (decimal misses) = of_nat misses"
    using assms by (simp_all add: parsed_or_zero_def parse_decimal)
  then show ?thesis
    unfolding dragonfly_stats_parse_def l
    by (simp add: stats_line_def split_once_def trim_text_def is_space_def)
qed

section \<open>Two clients\<close>

text \<open>The two commands of an invalidation are not one step: a response for the pubkey that another
  client stores between them survives, although the invalidation reports success.
\<close>

theorem invalidation_race:
  assumes "redis S content" "plain (df_prefix c)" "plain (to_string pk)"
    and key: "k = make_key c meth (make_account_info_key to_string pk enc com)" "content s k = None"
    and keys: "rd_keys S (df_prefix c @ '':*:'' @ to_string pk @ ''*'') s = (Ok ks, s1)"
    and other: "rd_set S k v ttl s1 = (Ok u, s2)"
    and del: "rd_del S ks s2 = (Ok n, s3)"
  shows "mentions (df_prefix c) (to_string pk) k \<and> content s3 k = Some v"
proof -
  have "plain (df_prefix c @ '':'')" "plain ('':'' @ to_string pk)" using assms(2,3) by (auto simp: plain_def)
  then have "set ks = {k \<in> dom (content s). star_key (df_prefix c @ '':'') ('':'' @ to_string pk) k}"
    using redis.keys_star [OF assms(1), of "df_prefix c @ '':''" "'':'' @ to_string pk" s ks] keys by simp
  then have "k \<notin> set ks" using key(2) by auto
  then have "content s3 k = content s2 k" using redis.del_content [OF assms(1) del] by simp
  moreover have "content s2 k = Some v" using redis.set_content [OF assms(1) other] by simp
  ultimately show ?thesis using account_info_key_mentions [of c to_string pk meth enc com] key(1) by simp
qed

theorem invalidation_race_witness:
  "let c = dragonfly_new ''syn'' 60; k = make_key c ''getAccountInfo'' (make_account_info_key (\<lambda>_ :: nat. ''9xQ'') 0 Base64 Finalized);
       s0 = \<lparr> ms_entries = [], ms_now = 0 \<rparr>; (ks, s1) = rd_keys memory_redis ''syn:*:9xQ*'' s0;
       (r, s2) = rd_set memory_redis k [1] 60 s1; (n, s3) = rd_del memory_redis [] s2
   in ks = Ok [] \<and> n = Ok 0 \<and> ms_content s3 k = Some [1]"
proof -
  let ?c = "dragonfly_new ''syn'' 60" and ?s0 = "\<lparr> ms_entries = [], ms_now = 0 \<rparr>"
  define k where "k = make_key ?c ''getAccountInfo'' (make_account_info_key (\<lambda>_ :: nat. ''9xQ'') 0 Base64 Finalized)"
  have ops: "rd_keys memory_redis ''syn:*:9xQ*'' ?s0 = (Ok [], ?s0)"
    "rd_set memory_redis k [1] 60 ?s0 = (Ok (), \<lparr> ms_entries = [(k, [1], 60)], ms_now = 0 \<rparr>)"
    by (simp_all add: memory_redis_def)
  obtain n s3 where del: "rd_del memory_redis [] \<lparr> ms_entries = [(k, [1], 60)], ms_now = 0 \<rparr> = (Ok n, s3)" "n = 0"
    by (simp add: memory_redis_def)
  have pl: "plain (df_prefix ?c)" "plain ''9xQ''" by (auto simp: plain_def dragonfly_new_def)
  have "ms_content s3 k = Some [1]"
    using invalidation_race [OF mr.redis_axioms, of ?c "\<lambda>_ :: nat. ''9xQ''" 0 k "''getAccountInfo''" Base64 Finalized ?s0 "[]" ?s0 "[1]" 60 "()"
        "\<lparr> ms_entries = [(k, [1], 60)], ms_now = 0 \<rparr>" n s3] pl ops del(1)
    by (simp add: k_def ms_content_def) (simp add: dragonfly_new_def)
  then show ?thesis using ops del by (simp add: k_def)
qed

end
