(* ===== verification/Legacy_Locator.thy ===== *)
theory Legacy_Locator
  imports Base_Locator
begin

text \<open>
  The locator that \<open>base-locator/src/rocks_locator.rs\<close> still declares next to the codec: the
  module is public, but the crate exports the locator of the selected backend instead.

  It has the state of that locator and differs from it in one point: it does not count reads.
  The two are compared call by call, on every history and whatever transactions fail.
\<close>

section \<open>The locator\<close>

definition legacy_open :: "bool \<Rightarrow> 't \<Rightarrow> (locator_error, 't rocks_locator) result" where
  "legacy_open ok db =
     (if ok then Ok \<lparr> lo_db = db, lo_stats = \<lparr> ls_total_keys = 0, ls_reads = 0, ls_writes = 0, ls_batch_writes = 0 \<rparr> \<rparr>
      else Err BackendError)"

definition legacy_get ::
  "('t, byte list, byte list) kv_ops \<Rightarrow> ('pk \<Rightarrow> byte list) \<Rightarrow> bool \<Rightarrow> 'pk \<Rightarrow> 't rocks_locator \<Rightarrow>
     (locator_error, account_location option) result" where
  "legacy_get K to_bytes ok pubkey l =
     (if \<not> ok then Err BackendError
      else case kv_get K (lo_db l) (to_bytes pubkey) of
        Some bytes \<Rightarrow> rbind (deserialize_location bytes) (\<lambda>location. Ok (Some location))
      | None \<Rightarrow> Ok None)"

primrec legacy_batch_loop ::
  "('t, byte list, byte list) kv_ops \<Rightarrow> ('pk \<Rightarrow> byte list) \<Rightarrow> 't \<Rightarrow> 'pk list \<Rightarrow> account_location option list \<Rightarrow>
     (locator_error, account_location option list) result" where
  "legacy_batch_loop K to_bytes db [] results = Ok results"
| "legacy_batch_loop K to_bytes db (pk # pks) results =
     (case kv_get K db (to_bytes pk) of
        Some bytes \<Rightarrow>
          rbind (deserialize_location bytes) (\<lambda>location.
          legacy_batch_loop K to_bytes db pks (results @ [Some location]))
      | None \<Rightarrow> legacy_batch_loop K to_bytes db pks (results @ [None]))"

definition legacy_get_batch ::
  "('t, byte list, byte list) kv_ops \<Rightarrow> ('pk \<Rightarrow> byte list) \<Rightarrow> bool \<Rightarrow> 'pk list \<Rightarrow> 't rocks_locator \<Rightarrow>
     (locator_error, account_location option list) result" where
  "legacy_get_batch K to_bytes ok pubkeys l =
     (if \<not> ok then Err BackendError else legacy_batch_loop K to_bytes (lo_db l) pubkeys [])"

definition legacy_insert ::
  "('t, byte list, byte list) kv_ops \<Rightarrow> ('pk \<Rightarrow> byte list) \<Rightarrow> bool \<Rightarrow> 'pk \<Rightarrow> account_location \<Rightarrow> 't rocks_locator \<Rightarrow>
     (locator_error, unit) result \<times> 't rocks_locator" where
  "legacy_insert K to_bytes ok pubkey location l =
     (case serialize_location location of
        Err e \<Rightarrow> (Err e, l)
      | Panic \<Rightarrow> (Panic, l)
      | Ok bytes \<Rightarrow>
          if \<not> ok then (Err BackendError, l)
          else (Ok (), l \<lparr> lo_db := kv_insert K (to_bytes pubkey) bytes (lo_db l),
                          lo_stats := (lo_stats l) \<lparr> ls_writes := ls_writes (lo_stats l) + 1 \<rparr> \<rparr>))"

primrec legacy_insert_loop ::
  "('t, byte list, byte list) kv_ops \<Rightarrow> ('pk \<Rightarrow> byte list) \<Rightarrow> (byte list \<Rightarrow> bool) \<Rightarrow> ('pk \<times> account_location) list \<Rightarrow> 't \<Rightarrow>
     (locator_error, 't) result" where
  "legacy_insert_loop K to_bytes fails [] db = Ok db"
| "legacy_insert_loop K to_bytes fails (p # ps) db =
     rbind (serialize_location (snd p)) (\<lambda>bytes.
     legacy_insert_loop K to_bytes fails ps
       (if fails (to_bytes (fst p)) then db else kv_insert K (to_bytes (fst p)) bytes db))"

definition legacy_insert_batch ::
  "('t, byte list, byte list) kv_ops \<Rightarrow> ('pk \<Rightarrow> byte list) \<Rightarrow> bool \<Rightarrow> (byte list \<Rightarrow> bool) \<Rightarrow>
     ('pk \<times> account_location) list \<Rightarrow> 't rocks_locator \<Rightarrow> (locator_error, unit) result \<times> 't rocks_locator" where
  "legacy_insert_batch K to_bytes ok fails locations l =
     (case legacy_insert_loop K to_bytes fails locations (lo_db l) of
        Err e \<Rightarrow> (Err e, l)
      | Panic \<Rightarrow> (Panic, l)
      | Ok db \<Rightarrow>
          if \<not> ok then (Err BackendError, l)
          else (Ok (), l \<lparr> lo_db := db,
                  lo_stats := (lo_stats l) \<lparr> ls_writes := ls_writes (lo_stats l) + of_nat (length locations),
                                             ls_batch_writes := ls_batch_writes (lo_stats l) + 1 \<rparr> \<rparr>))"

definition legacy_delete ::
  "('t, byte list, byte list) kv_ops \<Rightarrow> ('pk \<Rightarrow> byte list) \<Rightarrow> bool \<Rightarrow> (byte list \<Rightarrow> bool) \<Rightarrow> 'pk \<Rightarrow> 't rocks_locator \<Rightarrow>
     (locator_error, unit) result \<times> 't rocks_locator" where
  "legacy_delete K to_bytes ok fails pubkey l =
     (if \<not> ok then (Err BackendError, l)
      else (Ok (), if fails (to_bytes pubkey) then l else l \<lparr> lo_db := kv_remove K (to_bytes pubkey) (lo_db l) \<rparr>))"

definition legacy_count ::
  "('t, byte list, byte list) kv_ops \<Rightarrow> bool \<Rightarrow> 't rocks_locator \<Rightarrow> (locator_error, u64) result \<times> 't rocks_locator" where
  "legacy_count K ok l =
     (if \<not> ok then (Err BackendError, l)
      else let count = fold (\<lambda>_ n. n + 1) (kv_keys K (lo_db l)) 0
           in (Ok count, l \<lparr> lo_stats := (lo_stats l) \<lparr> ls_total_keys := count \<rparr> \<rparr>))"

definition legacy_compact :: "'t rocks_locator \<Rightarrow> (locator_error, unit) result" where
  "legacy_compact l = Ok ()"


section \<open>Both locators on one history\<close>

datatype 'pk locator_call =
    Call_Get bool 'pk
  | Call_Get_Batch bool "'pk list"
  | Call_Insert bool 'pk account_location
  | Call_Insert_Batch bool "byte list \<Rightarrow> bool" "('pk \<times> account_location) list"
  | Call_Delete bool "byte list \<Rightarrow> bool" 'pk
  | Call_Count bool

datatype locator_reply =
    Reply_Location "(locator_error, account_location option) result"
  | Reply_Locations "(locator_error, account_location option list) result"
  | Reply_Done "(locator_error, unit) result"
  | Reply_Count "(locator_error, u64) result"

primrec exported_call ::
  "('t, byte list, byte list) kv_ops \<Rightarrow> ('pk \<Rightarrow> byte list) \<Rightarrow> 'pk locator_call \<Rightarrow> 't rocks_locator \<Rightarrow> locator_reply \<times> 't rocks_locator" where
  "exported_call K tb (Call_Get ok pk) l = apfst Reply_Location (locator_get K tb ok pk l)"
| "exported_call K tb (Call_Get_Batch ok pks) l = apfst Reply_Locations (locator_get_batch K tb ok pks l)"
| "exported_call K tb (Call_Insert ok pk loc) l = apfst Reply_Done (locator_insert K tb ok pk loc l)"
| "exported_call K tb (Call_Insert_Batch ok fails ps) l = apfst Reply_Done (locator_insert_batch K tb ok fails ps l)"
| "exported_call K tb (Call_Delete ok fails pk) l = apfst Reply_Done (locator_delete K tb ok fails pk l)"
| "exported_call K tb (Call_Count ok) l = apfst Reply_Count (locator_count K ok l)"

primrec legacy_call ::
  "('t, byte list, byte list) kv_ops \<Rightarrow> ('pk \<Rightarrow> byte list) \<Rightarrow> 'pk locator_call \<Rightarrow> 't rocks_locator \<Rightarrow> locator_reply \<times> 't rocks_locator" where
  "legacy_call K tb (Call_Get ok pk) l = (Reply_Location (legacy_get K tb ok pk l), l)"
| "legacy_call K tb (Call_Get_Batch ok pks) l = (Reply_Locations (legacy_get_batch K tb ok pks l), l)"
| "legacy_call K tb (Call_Insert ok pk loc) l = apfst Reply_Done (legacy_insert K tb ok pk loc l)"
| "legacy_call K tb (Call_Insert_Batch ok fails ps) l = apfst Reply_Done (legacy_insert_batch K tb ok fails ps l)"
| "legacy_call K tb (Call_Delete ok fails pk) l = apfst Reply_Done (legacy_delete K tb ok fails pk l)"
| "legacy_call K tb (Call_Count ok) l = apfst Reply_Count (legacy_count K ok l)"

fun call_all :: "('c \<Rightarrow> 's \<Rightarrow> 'r \<times> 's) \<Rightarrow> 'c list \<Rightarrow> 's \<Rightarrow> 'r list \<times> 's" where
  "call_all f [] s = ([], s)"
| "call_all f (x # xs) s = (let (r, s1) = f x s; (rs, s2) = call_all f xs s1 in (r # rs, s2))"

definition forget_reads :: "'t rocks_locator \<Rightarrow> 't rocks_locator" where
  "forget_reads l = l \<lparr> lo_stats := (lo_stats l) \<lparr> ls_reads := 0 \<rparr> \<rparr>"

lemma forget_no_reads: "ls_reads (lo_stats l) = 0 \<Longrightarrow> forget_reads l = l"
proof -
  assume r: "ls_reads (lo_stats l) = 0"
  have "st \<lparr> ls_reads := ls_reads st \<rparr> = st" for st by simp
  then show ?thesis using r by (metis forget_reads_def rocks_locator.surjective rocks_locator.update_convs(2) old.unit.exhaust)
qed

text \<open>The two batch loops: one accumulates, the other builds the list on the way back.\<close>

lemma legacy_batch_loop_eq:
  "legacy_batch_loop K tb db pks acc = rbind (get_batch_loop K tb db pks) (\<lambda>rs. Ok (acc @ rs))"
proof (induction pks arbitrary: acc)
  case (Cons pk pks)
  show ?case
  proof (cases "kv_get K db (tb pk)")
    case None
    then show ?thesis using Cons by (simp add: rbind_assoc)
  next
    case (Some bytes)
    then show ?thesis using Cons by (cases "deserialize_location bytes") (simp_all add: rbind_assoc)
  qed
qed simp

lemma legacy_insert_loop_eq: "legacy_insert_loop K tb fails ps db = insert_batch_loop K tb fails ps db"
  by (induction ps arbitrary: db) simp_all

lemma legacy_call_simulates:
  assumes "forget_reads l = forget_reads e" "ls_reads (lo_stats l) = 0"
    "exported_call K tb x e = (r, e')" "legacy_call K tb x l = (r', l')"
  shows "r' = r \<and> forget_reads l' = forget_reads e' \<and> ls_reads (lo_stats l') = 0"
proof -
  have l: "l = forget_reads e" using assms(1,2) forget_no_reads by metis
  show ?thesis
    using assms(3,4) unfolding l
    by (cases x)
      (auto simp: locator_get_def legacy_get_def locator_get_batch_def legacy_get_batch_def locator_insert_def legacy_insert_def
        locator_insert_batch_def legacy_insert_batch_def locator_delete_def legacy_delete_def locator_count_def legacy_count_def
        legacy_batch_loop_eq legacy_insert_loop_eq forget_reads_def Let_def split: if_splits option.splits result.splits)
qed

lemma legacy_calls_simulate:
  "forget_reads l = forget_reads e \<Longrightarrow> ls_reads (lo_stats l) = 0 \<Longrightarrow>
   call_all (exported_call K tb) xs e = (rs, e') \<Longrightarrow> call_all (legacy_call K tb) xs l = (rs', l') \<Longrightarrow>
   rs' = rs \<and> forget_reads l' = forget_reads e' \<and> ls_reads (lo_stats l') = 0"
proof (induction xs arbitrary: l e rs e' rs' l')
  case (Cons x xs)
  obtain r e1 r' l1 where c: "exported_call K tb x e = (r, e1)" "legacy_call K tb x l = (r', l1)" by fastforce
  obtain rs1 e2 rs2 l2 where cs: "call_all (exported_call K tb) xs e1 = (rs1, e2)" "call_all (legacy_call K tb) xs l1 = (rs2, l2)" by fastforce
  have "r' = r \<and> forget_reads l1 = forget_reads e1 \<and> ls_reads (lo_stats l1) = 0"
    by (rule legacy_call_simulates [OF Cons.prems(1,2) c])
  then have "r' = r" "rs2 = rs1 \<and> forget_reads l2 = forget_reads e2 \<and> ls_reads (lo_stats l2) = 0" using Cons.IH [OF _ _ cs] by blast+
  then show ?case using Cons.prems(3,4) c cs by simp
qed simp

text \<open>On the same table and for every sequence of calls, whatever transactions and discarded
  writes fail, the locator of \<open>rocks_locator.rs\<close> and the exported one return the same results
  and leave the same table and counters, except that the former never counts a read.
\<close>

theorem legacy_locator_equivalent:
  "\<exists>e l rs e' l'. locator_open True db = Ok e \<and> legacy_open True db = Ok l \<and>
     call_all (exported_call K tb) calls e = (rs, e') \<and> call_all (legacy_call K tb) calls l = (rs, l') \<and>
     lo_db l' = lo_db e' \<and> lo_stats l' = (lo_stats e') \<lparr> ls_reads := 0 \<rparr>"
proof -
  obtain e where e: "locator_open True db = Ok e" "legacy_open True db = Ok e" "ls_reads (lo_stats e) = 0"
    by (simp add: locator_open_def legacy_open_def)
  obtain rs e' rs' l' where r: "call_all (exported_call K tb) calls e = (rs, e')" "call_all (legacy_call K tb) calls e = (rs', l')" by fastforce
  have "rs' = rs \<and> forget_reads l' = forget_reads e' \<and> ls_reads (lo_stats l') = 0"
    by (rule legacy_calls_simulate [OF refl e(3) r])
  then have "rs' = rs" "l' = forget_reads e'" using forget_no_reads by metis+
  then show ?thesis using e r by (simp add: forget_reads_def)
qed

end
