(* ===== verification/Location_Store.thy ===== *)
theory Location_Store
  imports Legacy_Locator
begin

text \<open>
  What the clients of the base layer rely on, whichever backend the crate is built with: a
  store of locations under pubkeys.  The operations are a record \<open>store_ops\<close>, the contract is
  the locale \<open>location_store\<close>: an invariant, an abstraction to a finite map, and one law per
  operation.  Any sequence of calls then gets the replies of the map.  The redb locator is an
  instance here, the RocksDB locator in its own theory.
\<close>

section \<open>The interface\<close>

record ('pk, 's) store_ops =
  so_get :: "'pk \<Rightarrow> 's \<Rightarrow> (locator_error, account_location option) result \<times> 's"
  so_get_batch :: "'pk list \<Rightarrow> 's \<Rightarrow> (locator_error, account_location option list) result \<times> 's"
  so_insert :: "'pk \<Rightarrow> account_location \<Rightarrow> 's \<Rightarrow> (locator_error, unit) result \<times> 's"
  so_insert_batch :: "('pk \<times> account_location) list \<Rightarrow> 's \<Rightarrow> (locator_error, unit) result \<times> 's"
  so_delete :: "'pk \<Rightarrow> 's \<Rightarrow> (locator_error, unit) result \<times> 's"

datatype 'pk store_call =
    Store_Get 'pk
  | Store_Get_Batch "'pk list"
  | Store_Insert 'pk account_location
  | Store_Insert_Batch "('pk \<times> account_location) list"
  | Store_Delete 'pk

primrec store_call_on :: "('pk, 's) store_ops \<Rightarrow> 'pk store_call \<Rightarrow> 's \<Rightarrow> locator_reply \<times> 's" where
  "store_call_on S (Store_Get pk) s = apfst Reply_Location (so_get S pk s)"
| "store_call_on S (Store_Get_Batch pks) s = apfst Reply_Locations (so_get_batch S pks s)"
| "store_call_on S (Store_Insert pk loc) s = apfst Reply_Done (so_insert S pk loc s)"
| "store_call_on S (Store_Insert_Batch ps) s = apfst Reply_Done (so_insert_batch S ps s)"
| "store_call_on S (Store_Delete pk) s = apfst Reply_Done (so_delete S pk s)"

text \<open>The same calls on a finite map.\<close>

primrec map_call :: "'pk store_call \<Rightarrow> ('pk \<rightharpoonup> account_location) \<Rightarrow> locator_reply \<times> ('pk \<rightharpoonup> account_location)" where
  "map_call (Store_Get pk) m = (Reply_Location (Ok (m pk)), m)"
| "map_call (Store_Get_Batch pks) m = (Reply_Locations (Ok (map m pks)), m)"
| "map_call (Store_Insert pk loc) m = (Reply_Done (Ok ()), m(pk \<mapsto> loc))"
| "map_call (Store_Insert_Batch ps) m = (Reply_Done (Ok ()), m ++ map_of (rev ps))"
| "map_call (Store_Delete pk) m = (Reply_Done (Ok ()), m(pk := None))"

locale location_store =
  fixes S :: "('pk, 's) store_ops" and invar :: "'s \<Rightarrow> bool" and lmap :: "'s \<Rightarrow> 'pk \<rightharpoonup> account_location"
  assumes get_law: "invar s \<Longrightarrow> so_get S pk s = (r, s') \<Longrightarrow> r = Ok (lmap s pk) \<and> invar s' \<and> lmap s' = lmap s"
    and get_batch_law: "invar s \<Longrightarrow> so_get_batch S pks s = (rb, s') \<Longrightarrow>
          rb = Ok (map (lmap s) pks) \<and> invar s' \<and> lmap s' = lmap s"
    and insert_law: "invar s \<Longrightarrow> so_insert S pk loc s = (ri, s') \<Longrightarrow>
          ri = Ok () \<and> invar s' \<and> lmap s' = (lmap s)(pk \<mapsto> loc)"
    and insert_batch_law: "invar s \<Longrightarrow> so_insert_batch S ps s = (ri, s') \<Longrightarrow>
          ri = Ok () \<and> invar s' \<and> lmap s' = lmap s ++ map_of (rev ps)"
    and delete_law: "invar s \<Longrightarrow> so_delete S pk s = (ri, s') \<Longrightarrow>
          ri = Ok () \<and> invar s' \<and> lmap s' = (lmap s)(pk := None)"
begin

lemmas store_laws = get_law get_batch_law insert_law insert_batch_law delete_law

lemma call_refines:
  assumes "invar s" "store_call_on S x s = (r, s')"
  shows "map_call x (lmap s) = (r, lmap s') \<and> invar s'"
  using assms by (cases x) (auto simp: apfst_def map_prod_def split: prod.splits dest: store_laws)

lemma calls_refine:
  "invar s \<Longrightarrow> call_all (store_call_on S) xs s = (rs, s') \<Longrightarrow>
     call_all map_call xs (lmap s) = (rs, lmap s') \<and> invar s'"
proof (induction xs arbitrary: s rs s')
  case (Cons x xs)
  obtain r s1 where x: "store_call_on S x s = (r, s1)" by fastforce
  obtain rs1 s2 where xs: "call_all (store_call_on S) xs s1 = (rs1, s2)" by fastforce
  have h: "map_call x (lmap s) = (r, lmap s1)" "invar s1" using call_refines [OF Cons.prems(1) x] by blast+
  then show ?case using Cons.IH [OF h(2) xs] Cons.prems(2) x xs by auto
qed simp

end

text \<open>Two stores that start with the same locations cannot be told apart.\<close>

lemma location_stores_agree:
  assumes "location_store S invar lmap" "location_store S' invar' lmap'"
    and "invar s" "invar' t" "lmap s = lmap' t"
    and "call_all (store_call_on S) xs s = (rs, s')" "call_all (store_call_on S') xs t = (rs', t')"
  shows "rs' = rs \<and> lmap' t' = lmap s' \<and> invar s' \<and> invar' t'"
  using location_store.calls_refine [OF assms(1,3,6)] location_store.calls_refine [OF assms(2,4,7)] assms(5)
  by auto


section \<open>The redb locator\<close>

definition redb_ops :: "('t, byte list, byte list) kv_ops \<Rightarrow> ('pk \<Rightarrow> byte list) \<Rightarrow> ('pk, 't rocks_locator) store_ops" where
  "redb_ops K to_bytes =
     \<lparr> so_get = locator_get K to_bytes True, so_get_batch = locator_get_batch K to_bytes True,
       so_insert = locator_insert K to_bytes True, so_insert_batch = locator_insert_batch K to_bytes True (\<lambda>_. False),
       so_delete = locator_delete K to_bytes True (\<lambda>_. False) \<rparr>"

definition location_of :: "byte list \<Rightarrow> account_location option" where
  "location_of bytes = (case deserialize_location bytes of Ok loc \<Rightarrow> Some loc | _ \<Rightarrow> None)"

lemma location_of_bytes [simp]: "location_of (location_bytes loc) = Some loc"
  by (simp add: location_of_def deserialize_location_bytes)

lemma location_bytes_inj: "location_bytes a = location_bytes b \<Longrightarrow> a = b"
  using location_of_bytes by (metis option.inject)

definition redb_map :: "('t, byte list, byte list) kv_ops \<Rightarrow> ('pk \<Rightarrow> byte list) \<Rightarrow> 't rocks_locator \<Rightarrow> 'pk \<rightharpoonup> account_location" where
  "redb_map K to_bytes l pk = Option.bind (kv_get K (lo_db l) (to_bytes pk)) location_of"

context location_table
begin

definition redb_invar :: "'t rocks_locator \<Rightarrow> bool" where
  "redb_invar l \<longleftrightarrow> (\<exists>m. represents location_bytes (lo_db l) m)"

lemma represents_redb_map: "represents location_bytes (lo_db l) m \<Longrightarrow> redb_map K to_bytes l = m"
proof (rule ext)
  fix pk assume "represents location_bytes (lo_db l) m"
  from represents_get [OF this, of pk] show "redb_map K to_bytes l pk = m pk"
    by (cases "m pk") (simp_all add: redb_map_def)
qed

lemma redb_invar_map: "redb_invar l \<Longrightarrow> represents location_bytes (lo_db l) (redb_map K to_bytes l)"
  by (auto simp: redb_invar_def represents_redb_map)

lemma redb_same_table: "lo_db l' = lo_db l \<Longrightarrow> redb_invar l' = redb_invar l \<and> redb_map K to_bytes l' = redb_map K to_bytes l"
  by (simp add: redb_invar_def redb_map_def fun_eq_iff)

lemma redb_step:
  assumes "redb_invar l"
  shows "redb_invar (locator_apply K to_bytes oper l) \<and>
    redb_map K to_bytes (locator_apply K to_bytes oper l) = map_apply oper (redb_map K to_bytes l)"
  using locator_apply_represents [OF redb_invar_map [OF assms], of oper] represents_redb_map
  by (auto simp: redb_invar_def)

lemma redb_writes_succeed:
  "fst (locator_insert K to_bytes True pk loc l) = Ok ()"
  "fst (locator_delete K to_bytes True (\<lambda>_. False) pk l) = Ok ()"
  "redb_invar l \<Longrightarrow> fst (locator_insert_batch K to_bytes True (\<lambda>_. False) ps l) = Ok ()"
  using insert_batch_loop_represents [OF redb_invar_map, of l ps]
  by (auto simp: locator_insert_def serialize_location_bytes locator_delete_def locator_insert_batch_def)

lemma redb_reads_keep_table:
  "lo_db (snd (locator_get K to_bytes ok pk l)) = lo_db l"
  "lo_db (snd (locator_get_batch K to_bytes ok pks l)) = lo_db l"
  by (auto simp: locator_get_def locator_get_batch_def split: option.splits result.splits)

end

sublocale location_table \<subseteq> redb: location_store "redb_ops K to_bytes" redb_invar "redb_map K to_bytes"
proof (unfold_locales, goal_cases)
  case (1 l pk r l')
  then show ?case
    using locator_get_represents [OF redb_invar_map, of l pk] redb_reads_keep_table(1) [of True pk l] redb_same_table [of l' l]
    by (simp add: redb_ops_def)
next
  case (2 l pks r l')
  then show ?case
    using get_batch_loop_represents [OF redb_invar_map, of l pks] redb_reads_keep_table(2) [of True pks l] redb_same_table [of l' l]
    by (auto simp: redb_ops_def locator_get_batch_def)
next
  case (3 l pk loc r l')
  then show ?case
    using redb_step [of l "LInsert pk loc"] redb_writes_succeed(1) [of pk loc l]
    by (simp add: redb_ops_def locator_apply_def map_apply_def)
next
  case (4 l ps r l')
  then show ?case
    using redb_step [of l "LInsertBatch ps"] redb_writes_succeed(3) [of l ps]
    by (simp add: redb_ops_def locator_apply_def map_apply_def)
next
  case (5 l pk r l')
  then show ?case
    using redb_step [of l "LDelete pk"] redb_writes_succeed(2) [of pk l]
    by (simp add: redb_ops_def locator_apply_def map_apply_def)
qed

context location_table
begin

lemma redb_is_store: "location_store (redb_ops K to_bytes) redb_invar (redb_map K to_bytes)"
  by unfold_locales

lemma redb_open_empty:
  "locator_open True (kv_empty K) = Ok l \<Longrightarrow> redb_invar l \<and> redb_map K to_bytes l = Map.empty"
  using represents_redb_map [of l Map.empty] represents_empty [of location_bytes]
  by (auto simp: locator_open_def redb_invar_def)

end

end
