(* ===== verification/Rocksdb_Locator.thy ===== *)
theory Rocksdb_Locator
  imports Location_Store
begin

text \<open>
  The RocksDB backend of the base layer (\<open>base-locator/src/rocksdb_impl.rs\<close>).

  RocksDB is a library: a record \<open>rocks_ops\<close> of the operations the code calls on a database
  with column families, with its documented behaviour as the locale \<open>rocksdb\<close>.  Options that
  only tune performance are left out; of the others the code sets \<open>create_if_missing\<close> and
  leaves \<open>create_missing_column_families\<close> at its default.  As in \<open>Base_Locator\<close>, arguments tell
  which calls fail.  The message of one error names an undeclared variable (see the manifest),
  so the file is modelled with the length of the key in its place.
\<close>

section \<open>The database as a parameter\<close>

record db_options =
  opt_create_if_missing :: bool
  opt_create_missing_column_families :: bool

definition db_options_default :: db_options where
  "db_options_default = \<lparr> opt_create_if_missing = False, opt_create_missing_column_families = False \<rparr>"

datatype batch_op = Batch_Put string "byte list" "byte list"

text \<open>\<open>ro_open\<close> gets what is stored at the path, if anything, and fails with \<open>None\<close>.\<close>

record 'd rocks_ops =
  ro_open :: "db_options \<Rightarrow> string list \<Rightarrow> 'd option \<Rightarrow> 'd option"
  ro_cf_handle :: "'d \<Rightarrow> string \<Rightarrow> bool"
  ro_get :: "'d \<Rightarrow> string \<Rightarrow> byte list \<Rightarrow> byte list option"
  ro_put :: "string \<Rightarrow> byte list \<Rightarrow> byte list \<Rightarrow> 'd \<Rightarrow> 'd"
  ro_delete :: "string \<Rightarrow> byte list \<Rightarrow> 'd \<Rightarrow> 'd"
  ro_write :: "batch_op list \<Rightarrow> 'd \<Rightarrow> 'd"
  ro_iterator :: "'d \<Rightarrow> string \<Rightarrow> (byte list \<times> byte list) list"
  ro_estimate_num_keys :: "'d \<Rightarrow> string \<Rightarrow> u64 option"

primrec batch_one :: "'d rocks_ops \<Rightarrow> batch_op \<Rightarrow> 'd \<Rightarrow> 'd" where
  "batch_one R (Batch_Put cf k v) d = ro_put R cf k v d"

locale rocksdb =
  fixes R :: "'d rocks_ops"
  assumes open_new: "ro_open R opts cfs None = Some d \<Longrightarrow>
        opt_create_if_missing opts \<and> (\<forall>cf\<in>set cfs. cf = ''default'' \<or> opt_create_missing_column_families opts)"
    and open_old: "ro_open R opts cfs (Some d0) = Some d \<Longrightarrow>
        (\<forall>cf\<in>set cfs. ro_cf_handle R d0 cf \<or> opt_create_missing_column_families opts) \<and> ro_get R d = ro_get R d0"
    and open_handle: "ro_open R opts cfs old = Some d \<Longrightarrow> cf \<in> set cfs \<Longrightarrow> ro_cf_handle R d cf"
    and handle_put: "ro_cf_handle R (ro_put R cf k v d) = ro_cf_handle R d"
    and handle_delete: "ro_cf_handle R (ro_delete R cf k d) = ro_cf_handle R d"
    and get_put: "ro_cf_handle R d cf \<Longrightarrow>
        ro_get R (ro_put R cf k v d) cf' k' = (if cf' = cf \<and> k' = k then Some v else ro_get R d cf' k')"
    and get_delete: "ro_cf_handle R d cf \<Longrightarrow>
        ro_get R (ro_delete R cf k d) cf' k' = (if cf' = cf \<and> k' = k then None else ro_get R d cf' k')"
    and handle_write: "ro_cf_handle R (ro_write R ws d) = ro_cf_handle R (fold (batch_one R) ws d)"
    and get_write: "ro_get R (ro_write R ws d) = ro_get R (fold (batch_one R) ws d)"
    and iterator_content: "map_of (ro_iterator R d cf) = ro_get R d cf"
    and iterator_distinct: "distinct (map fst (ro_iterator R d cf))"

text \<open>Lists of families, each an association list, are such a database.\<close>

type_synonym list_db = "(string \<times> (byte list \<times> byte list) list) list"

definition list_rocks_open :: "db_options \<Rightarrow> string list \<Rightarrow> list_db option \<Rightarrow> list_db option" where
  "list_rocks_open opts cfs old =
     (let found = (case old of Some d \<Rightarrow> map fst d | None \<Rightarrow> [''default'']);
          missing = filter (\<lambda>cf. cf \<notin> set found) cfs in
      if (old = None \<longrightarrow> opt_create_if_missing opts) \<and> (missing = [] \<or> opt_create_missing_column_families opts)
      then Some ((case old of Some d \<Rightarrow> d | None \<Rightarrow> [(''default'', [])]) @ map (\<lambda>cf. (cf, [])) missing)
      else None)"

definition list_rocks :: "list_db rocks_ops" where
  "list_rocks =
     (let change = (\<lambda>cf f. map (\<lambda>(c, t). (c, if c = cf then f t else t)));
          content = (\<lambda>d cf. case map_of d cf of Some t \<Rightarrow> t | None \<Rightarrow> []) in
      \<lparr> ro_open = list_rocks_open, ro_cf_handle = (\<lambda>d cf. cf \<in> set (map fst d)), ro_get = (\<lambda>d cf. map_of (content d cf)),
        ro_put = (\<lambda>cf k v. change cf (AList.update k v)), ro_delete = (\<lambda>cf k. change cf (AList.delete k)),
        ro_write = (\<lambda>ws d. fold (\<lambda>w d. case w of Batch_Put cf k v \<Rightarrow> change cf (AList.update k v) d) ws d),
        ro_iterator = (\<lambda>d cf. AList.clearjunk (content d cf)),
        ro_estimate_num_keys = (\<lambda>d cf. Some (of_nat (length (content d cf)))) \<rparr>)"

lemma map_of_change: "map_of (map (\<lambda>(c, t). (c, if c = cf then f t else t)) d) c = map_option (\<lambda>t. if c = cf then f t else t) (map_of d c)"
  by (induction d) auto

lemma fst_change: "fst ` (\<lambda>(c, t). (c, if c = cf then f t else t)) ` set d = fst ` set d"
  by force

lemma map_of_new_families: "map_of (map (\<lambda>cf. (cf, [])) cfs) c = (if c \<in> set cfs then Some [] else None)"
  by (induction cfs) auto

lemma list_rocks_batch: "batch_one list_rocks w d = (case w of Batch_Put cf k v \<Rightarrow> map (\<lambda>(c, t). (c, if c = cf then AList.update k v t else t)) d)"
  by (cases w) (simp add: list_rocks_def Let_def)

lemma list_rocks_write: "ro_write list_rocks ws d = fold (batch_one list_rocks) ws d"
  by (simp add: list_rocks_batch [abs_def]) (simp add: list_rocks_def Let_def)

interpretation lrk: rocksdb list_rocks
proof (unfold_locales, goal_cases)
  case (2 opts cfs d0 d)
  have "map_of d c = (case map_of d0 c of Some t \<Rightarrow> Some t | None \<Rightarrow> if c \<in> set cfs then Some [] else None)" for c
  proof (cases "map_of d0 c")
    case None
    then have "c \<notin> fst ` set d0" by (simp add: map_of_eq_None_iff)
    then show ?thesis
      using 2 None by (auto simp: list_rocks_def list_rocks_open_def Let_def map_add_def map_of_new_families filter_empty_conv split: if_splits)
  next
    case (Some t)
    then have "c \<in> fst ` set d0" by (metis map_of_eq_None_iff option.simps(3))
    then show ?thesis
      using 2 Some by (auto simp: list_rocks_def list_rocks_open_def Let_def map_add_def map_of_new_families split: if_splits)
  qed
  then have "ro_get list_rocks d = ro_get list_rocks d0"
    by (auto simp: list_rocks_def Let_def fun_eq_iff split: option.split)
  then show ?case
    using 2 by (auto simp: list_rocks_def list_rocks_open_def Let_def filter_empty_conv split: if_splits)
next
  case (3 opts cfs old d cf)
  then show ?case
    by (auto simp: list_rocks_def list_rocks_open_def Let_def filter_empty_conv image_Un image_image split: if_splits option.splits)
next
  case 4
  then show ?case by (simp add: list_rocks_def Let_def fst_change)
next
  case 5
  then show ?case by (simp add: list_rocks_def Let_def fst_change)
next
  case (6 d cf k v cf' k')
  then show ?case
    by (auto simp: list_rocks_def Let_def map_of_change update_conv' image_iff dest!: weak_map_of_SomeI split: option.split)
next
  case (7 d cf k cf' k')
  then show ?case
    by (auto simp: list_rocks_def Let_def map_of_change delete_conv' image_iff split: option.split)
next
  case 8
  then show ?case by (simp add: list_rocks_write)
next
  case 9
  then show ?case by (simp add: list_rocks_write)
qed (auto simp: list_rocks_def list_rocks_open_def Let_def filter_empty_conv map_of_clearjunk image_iff split: if_splits option.splits prod.splits)

section \<open>\<open>RocksLocator\<close>\<close>

definition CF_LOCATIONS :: string where
  "CF_LOCATIONS = ''locations''"

definition CF_METADATA :: string where
  "CF_METADATA = ''metadata''"

record 'd rocksdb_locator =
  rl_db :: 'd
  rl_stats :: locator_stats

definition rocksdb_open :: "'d rocks_ops \<Rightarrow> 'd option \<Rightarrow> (locator_error, 'd rocksdb_locator) result" where
  "rocksdb_open R path =
     (let db_opts = db_options_default \<lparr> opt_create_if_missing := True \<rparr>;
          cf_descriptors = [CF_LOCATIONS, CF_METADATA]
      in case ro_open R db_opts cf_descriptors path of
           None \<Rightarrow> Err BackendError
         | Some db \<Rightarrow> Ok \<lparr> rl_db = db, rl_stats = \<lparr> ls_total_keys = 0, ls_reads = 0, ls_writes = 0, ls_batch_writes = 0 \<rparr> \<rparr>)"

text \<open>\<open>expect\<close> on the handle of a family.\<close>

definition cf_locations :: "'d rocks_ops \<Rightarrow> 'd rocksdb_locator \<Rightarrow> (locator_error, string) result" where
  "cf_locations R l = (if ro_cf_handle R (rl_db l) CF_LOCATIONS then Ok CF_LOCATIONS else Panic)"

definition cf_metadata :: "'d rocks_ops \<Rightarrow> 'd rocksdb_locator \<Rightarrow> (locator_error, string) result" where
  "cf_metadata R l = (if ro_cf_handle R (rl_db l) CF_METADATA then Ok CF_METADATA else Panic)"

definition count_reads :: "u64 \<Rightarrow> 'd rocksdb_locator \<Rightarrow> 'd rocksdb_locator" where
  "count_reads n l = l \<lparr> rl_stats := (rl_stats l) \<lparr> ls_reads := ls_reads (rl_stats l) + n \<rparr> \<rparr>"

definition rocksdb_get ::
  "'d rocks_ops \<Rightarrow> ('pk \<Rightarrow> byte list) \<Rightarrow> bool \<Rightarrow> 'pk \<Rightarrow> 'd rocksdb_locator \<Rightarrow>
     (locator_error, account_location option) result \<times> 'd rocksdb_locator" where
  "rocksdb_get R to_bytes ok pubkey l =
     (case cf_locations R l of
        Ok cf \<Rightarrow>
          if \<not> ok then (Err BackendError, l)
          else (case ro_get R (rl_db l) cf (to_bytes pubkey) of
                  Some bytes \<Rightarrow>
                    (case deserialize_location bytes of
                       Ok location \<Rightarrow> (Ok (Some location), count_reads 1 l)
                     | Err e \<Rightarrow> (Err e, l)
                     | Panic \<Rightarrow> (Panic, l))
                | None \<Rightarrow> (Ok None, l))
      | Err e \<Rightarrow> (Err e, l)
      | Panic \<Rightarrow> (Panic, l))"

text \<open>\<open>multi_get_cf\<close> returns one result per key; the keys in \<open>fails\<close> are errors.\<close>

definition multi_get ::
  "'d rocks_ops \<Rightarrow> (byte list \<Rightarrow> bool) \<Rightarrow> 'd \<Rightarrow> string \<Rightarrow> byte list list \<Rightarrow> (locator_error, byte list option) result list" where
  "multi_get R fails db cf keys = map (\<lambda>k. if fails k then Err BackendError else Ok (ro_get R db cf k)) keys"

fun collect_values ::
  "(locator_error, byte list option) result list \<Rightarrow> account_location option list \<Rightarrow> (locator_error, account_location option list) result" where
  "collect_values [] results = Ok results"
| "collect_values (Ok (Some bytes) # values) results =
     rbind (deserialize_location bytes) (\<lambda>location. collect_values values (results @ [Some location]))"
| "collect_values (Ok None # values) results = collect_values values (results @ [None])"
| "collect_values (Err e # values) results = Err e"
| "collect_values (Panic # values) results = Panic"

definition rocksdb_get_batch ::
  "'d rocks_ops \<Rightarrow> ('pk \<Rightarrow> byte list) \<Rightarrow> (byte list \<Rightarrow> bool) \<Rightarrow> 'pk list \<Rightarrow> 'd rocksdb_locator \<Rightarrow>
     (locator_error, account_location option list) result \<times> 'd rocksdb_locator" where
  "rocksdb_get_batch R to_bytes fails pubkeys l =
     (case rbind (cf_locations R l) (\<lambda>cf. collect_values (multi_get R fails (rl_db l) cf (map to_bytes pubkeys)) []) of
        Ok results \<Rightarrow> (Ok results, count_reads (of_nat (length pubkeys)) l)
      | Err e \<Rightarrow> (Err e, l)
      | Panic \<Rightarrow> (Panic, l))"

definition rocksdb_insert ::
  "'d rocks_ops \<Rightarrow> ('pk \<Rightarrow> byte list) \<Rightarrow> bool \<Rightarrow> 'pk \<Rightarrow> account_location \<Rightarrow> 'd rocksdb_locator \<Rightarrow>
     (locator_error, unit) result \<times> 'd rocksdb_locator" where
  "rocksdb_insert R to_bytes ok pubkey location l =
     (case rbind (cf_locations R l) (\<lambda>cf. rbind (serialize_location location) (\<lambda>val. Ok (cf, val))) of
        Ok (cf, val) \<Rightarrow>
          if \<not> ok then (Err BackendError, l)
          else (Ok (), l \<lparr> rl_db := ro_put R cf (to_bytes pubkey) val (rl_db l),
                          rl_stats := (rl_stats l) \<lparr> ls_writes := ls_writes (rl_stats l) + 1 \<rparr> \<rparr>)
      | Err e \<Rightarrow> (Err e, l)
      | Panic \<Rightarrow> (Panic, l))"

primrec build_batch ::
  "string \<Rightarrow> ('pk \<Rightarrow> byte list) \<Rightarrow> ('pk \<times> account_location) list \<Rightarrow> batch_op list \<Rightarrow> (locator_error, batch_op list) result" where
  "build_batch cf to_bytes [] batch = Ok batch"
| "build_batch cf to_bytes (p # ps) batch =
     rbind (serialize_location (snd p)) (\<lambda>val. build_batch cf to_bytes ps (batch @ [Batch_Put cf (to_bytes (fst p)) val]))"

definition rocksdb_insert_batch ::
  "'d rocks_ops \<Rightarrow> ('pk \<Rightarrow> byte list) \<Rightarrow> bool \<Rightarrow> ('pk \<times> account_location) list \<Rightarrow> 'd rocksdb_locator \<Rightarrow>
     (locator_error, unit) result \<times> 'd rocksdb_locator" where
  "rocksdb_insert_batch R to_bytes ok locations l =
     (case rbind (cf_locations R l) (\<lambda>cf. build_batch cf to_bytes locations []) of
        Ok batch \<Rightarrow>
          if \<not> ok then (Err BackendError, l)
          else (Ok (), l \<lparr> rl_db := ro_write R batch (rl_db l),
                  rl_stats := (rl_stats l) \<lparr> ls_writes := ls_writes (rl_stats l) + of_nat (length locations),
                                             ls_batch_writes := ls_batch_writes (rl_stats l) + 1 \<rparr> \<rparr>)
      | Err e \<Rightarrow> (Err e, l)
      | Panic \<Rightarrow> (Panic, l))"

definition rocksdb_delete ::
  "'d rocks_ops \<Rightarrow> ('pk \<Rightarrow> byte list) \<Rightarrow> bool \<Rightarrow> 'pk \<Rightarrow> 'd rocksdb_locator \<Rightarrow>
     (locator_error, unit) result \<times> 'd rocksdb_locator" where
  "rocksdb_delete R to_bytes ok pubkey l =
     (case cf_locations R l of
        Ok cf \<Rightarrow>
          if \<not> ok then (Err BackendError, l)
          else (Ok (), l \<lparr> rl_db := ro_delete R cf (to_bytes pubkey) (rl_db l) \<rparr>)
      | Err e \<Rightarrow> (Err e, l)
      | Panic \<Rightarrow> (Panic, l))"

text \<open>The count is an estimate of the database; a family without the property counts zero.\<close>

definition rocksdb_count :: "'d rocks_ops \<Rightarrow> bool \<Rightarrow> 'd rocksdb_locator \<Rightarrow> (locator_error, u64) result \<times> 'd rocksdb_locator" where
  "rocksdb_count R ok l =
     (case cf_locations R l of
        Ok cf \<Rightarrow>
          if \<not> ok then (Err BackendError, l)
          else (let count = (case ro_estimate_num_keys R (rl_db l) cf of Some n \<Rightarrow> n | None \<Rightarrow> 0)
                in (Ok count, l \<lparr> rl_stats := (rl_stats l) \<lparr> ls_total_keys := count \<rparr> \<rparr>))
      | Err e \<Rightarrow> (Err e, l)
      | Panic \<Rightarrow> (Panic, l))"

definition rocksdb_stats :: "'d rocksdb_locator \<Rightarrow> locator_stats" where
  "rocksdb_stats l = rl_stats l"

text \<open>Compaction reorganises the files and keeps the content.\<close>

definition rocksdb_compact :: "'d rocks_ops \<Rightarrow> 'd rocksdb_locator \<Rightarrow> (locator_error, unit) result" where
  "rocksdb_compact R l = rbind (cf_locations R l) (\<lambda>cf. Ok ())"


section \<open>The iterator\<close>

text \<open>
  The entries still to come; the iteration fails behind the first \<open>n\<close> entries when \<open>fail_at\<close> is
  \<open>Some n\<close>.  The statistics are shared with the locator, which is therefore passed along.
\<close>

type_synonym location_iterator = "(locator_error, byte list \<times> byte list) result list"

definition rocksdb_iter :: "'d rocks_ops \<Rightarrow> nat option \<Rightarrow> 'd rocksdb_locator \<Rightarrow> (locator_error, location_iterator) result" where
  "rocksdb_iter R fail_at l =
     rbind (cf_locations R l) (\<lambda>cf.
       let entries = map Ok (ro_iterator R (rl_db l) cf)
       in Ok (case fail_at of None \<Rightarrow> entries | Some n \<Rightarrow> take n entries @ [Err BackendError]))"

fun iterator_next ::
  "(byte list \<Rightarrow> 'pk option) \<Rightarrow> location_iterator \<Rightarrow> 'd rocksdb_locator \<Rightarrow>
     (locator_error, 'pk \<times> account_location) result option \<times> location_iterator \<times> 'd rocksdb_locator" where
  "iterator_next try_from [] l = (None, [], l)"
| "iterator_next try_from (Ok (key, val) # it) l =
     (if length key = 32
      then (case try_from key of
              Some pubkey \<Rightarrow>
                (case deserialize_location val of
                   Ok location \<Rightarrow> (Some (Ok (pubkey, location)), it, count_reads 1 l)
                 | Err e \<Rightarrow> (Some (Err e), it, l)
                 | Panic \<Rightarrow> (Some Panic, it, l))
            | None \<Rightarrow> (Some Panic, it, l))
      else (Some (Err (SerializationError (Invalid_pubkey_length (length key)))), it, l))"
| "iterator_next try_from (Err e # it) l = (Some (Err e), it, l)"
| "iterator_next try_from (Panic # it) l = (Some Panic, it, l)"

text \<open>A caller that takes every item.\<close>

fun iterate ::
  "(byte list \<Rightarrow> 'pk option) \<Rightarrow> location_iterator \<Rightarrow> 'd rocksdb_locator \<Rightarrow>
     (locator_error, 'pk \<times> account_location) result list \<times> 'd rocksdb_locator" where
  "iterate try_from [] l = ([], l)"
| "iterate try_from (x # it) l =
     (case iterator_next try_from (x # it) l of
        (Some r, _, l1) \<Rightarrow> (let (rs, l2) = iterate try_from it l1 in (r # rs, l2))
      | (None, _, l1) \<Rightarrow> ([], l1))"


section \<open>The backend as a store of locations\<close>

definition rocksdb_ops :: "'d rocks_ops \<Rightarrow> ('pk \<Rightarrow> byte list) \<Rightarrow> ('pk, 'd rocksdb_locator) store_ops" where
  "rocksdb_ops R to_bytes =
     \<lparr> so_get = rocksdb_get R to_bytes True, so_get_batch = rocksdb_get_batch R to_bytes (\<lambda>_. False),
       so_insert = rocksdb_insert R to_bytes True, so_insert_batch = rocksdb_insert_batch R to_bytes True,
       so_delete = rocksdb_delete R to_bytes True \<rparr>"

definition rocksdb_map :: "'d rocks_ops \<Rightarrow> ('pk \<Rightarrow> byte list) \<Rightarrow> 'd rocksdb_locator \<Rightarrow> 'pk \<rightharpoonup> account_location" where
  "rocksdb_map R to_bytes l pk = Option.bind (ro_get R (rl_db l) CF_LOCATIONS (to_bytes pk)) location_of"

text \<open>The family exists and holds encoded locations under pubkeys, nothing else.\<close>

locale rocks_table = pubkey_codec try_from to_bytes + rocksdb R
  for try_from :: "byte list \<Rightarrow> 'pk option" and to_bytes :: "'pk \<Rightarrow> byte list" and R :: "'d rocks_ops"
begin

lemma key_inj [simp]: "to_bytes a = to_bytes b \<longleftrightarrow> a = b"
  using try_from_to_bytes by (metis option.inject)

definition holds_map :: "'d \<Rightarrow> ('pk \<rightharpoonup> account_location) \<Rightarrow> bool" where
  "holds_map d m \<longleftrightarrow> ro_cf_handle R d CF_LOCATIONS \<and>
     (\<forall>pk. ro_get R d CF_LOCATIONS (to_bytes pk) = map_option location_bytes (m pk)) \<and>
     (\<forall>k. ro_get R d CF_LOCATIONS k \<noteq> None \<longrightarrow> (\<exists>pk. k = to_bytes pk))"

definition rocksdb_invar :: "'d rocksdb_locator \<Rightarrow> bool" where
  "rocksdb_invar l \<longleftrightarrow> (\<exists>m. holds_map (rl_db l) m)"

lemma holds_handle [simp]: "holds_map (rl_db l) m \<Longrightarrow> cf_locations R l = Ok CF_LOCATIONS"
  by (simp add: holds_map_def cf_locations_def)

lemma holds_get: "holds_map d m \<Longrightarrow> ro_get R d CF_LOCATIONS (to_bytes pk) = map_option location_bytes (m pk)"
  by (simp add: holds_map_def)

lemma holds_put: "holds_map d m \<Longrightarrow> holds_map (ro_put R CF_LOCATIONS (to_bytes pk) (location_bytes loc) d) (m(pk \<mapsto> loc))"
  by (auto simp: holds_map_def get_put handle_put)

lemma holds_delete: "holds_map d m \<Longrightarrow> holds_map (ro_delete R CF_LOCATIONS (to_bytes pk) d) (m(pk := None))"
  by (auto simp: holds_map_def get_delete handle_delete)

lemma holds_map_rocksdb_map: "holds_map (rl_db l) m \<Longrightarrow> rocksdb_map R to_bytes l = m"
proof (rule ext)
  fix pk assume "holds_map (rl_db l) m"
  from holds_get [OF this, of pk] show "rocksdb_map R to_bytes l pk = m pk"
    by (cases "m pk") (simp_all add: rocksdb_map_def)
qed

lemma invar_holds: "rocksdb_invar l \<Longrightarrow> holds_map (rl_db l) (rocksdb_map R to_bytes l)"
  by (auto simp: rocksdb_invar_def holds_map_rocksdb_map)

lemma holds_invar: "holds_map (rl_db l) m \<Longrightarrow> rocksdb_invar l \<and> rocksdb_map R to_bytes l = m"
  by (auto simp: rocksdb_invar_def holds_map_rocksdb_map)

lemma rl_db_count_reads [simp]: "rl_db (count_reads n l) = rl_db l"
  by (simp add: count_reads_def)

lemma collect_multi_get:
  "holds_map d m \<Longrightarrow> collect_values (multi_get R (\<lambda>_. False) d CF_LOCATIONS (map to_bytes pks)) acc = Ok (acc @ map m pks)"
proof (induction pks arbitrary: acc)
  case (Cons pk pks)
  then show ?case
    by (cases "m pk") (simp_all add: multi_get_def holds_get deserialize_location_bytes)
qed (simp add: multi_get_def)

lemma build_batch_eq:
  "build_batch cf to_bytes ps acc = Ok (acc @ map (\<lambda>(pk, loc). Batch_Put cf (to_bytes pk) (location_bytes loc)) ps)"
  by (induction ps arbitrary: acc) (auto simp: serialize_location_bytes)

lemma holds_batch:
  "holds_map d m \<Longrightarrow>
     holds_map (fold (batch_one R) (map (\<lambda>(pk, loc). Batch_Put CF_LOCATIONS (to_bytes pk) (location_bytes loc)) ps) d) (m ++ map_of (rev ps))"
proof (induction ps arbitrary: d m)
  case (Cons p ps)
  obtain pk loc where p: "p = (pk, loc)" by (cases p)
  have m: "m ++ map_of (rev (p # ps)) = m(pk \<mapsto> loc) ++ map_of (rev ps)"
    by (auto simp: fun_eq_iff p map_add_def split: option.split)
  show ?case
    unfolding m using Cons.IH [of "ro_put R CF_LOCATIONS (to_bytes pk) (location_bytes loc) d" "m(pk \<mapsto> loc)"] holds_put [OF Cons.prems, of pk loc]
    by (simp add: p del: fun_upd_apply)
qed simp

lemma holds_write: "holds_map (fold (batch_one R) ws d) m \<Longrightarrow> holds_map (ro_write R ws d) m"
  by (simp add: holds_map_def get_write handle_write)

text \<open>Each operation on a family that holds a map.\<close>

lemma rocksdb_get_eq:
  "holds_map (rl_db l) m \<Longrightarrow> rocksdb_get R to_bytes True pk l = (Ok (m pk), if m pk = None then l else count_reads 1 l)"
  by (cases "m pk") (simp_all add: rocksdb_get_def holds_get deserialize_location_bytes)

lemma rocksdb_get_batch_eq:
  "holds_map (rl_db l) m \<Longrightarrow>
     rocksdb_get_batch R to_bytes (\<lambda>_. False) pks l = (Ok (map m pks), count_reads (of_nat (length pks)) l)"
  using collect_multi_get [of "rl_db l" m pks "[]"] by (simp add: rocksdb_get_batch_def)

lemma rocksdb_writes:
  assumes "holds_map (rl_db l) m"
  shows "fst (rocksdb_insert R to_bytes True pk loc l) = Ok ()"
    and "holds_map (rl_db (snd (rocksdb_insert R to_bytes True pk loc l))) (m(pk \<mapsto> loc))"
    and "fst (rocksdb_insert_batch R to_bytes True ps l) = Ok ()"
    and "holds_map (rl_db (snd (rocksdb_insert_batch R to_bytes True ps l))) (m ++ map_of (rev ps))"
    and "fst (rocksdb_delete R to_bytes True pk l) = Ok ()"
    and "holds_map (rl_db (snd (rocksdb_delete R to_bytes True pk l))) (m(pk := None))"
  using assms holds_put [OF assms, of pk loc] holds_delete [OF assms, of pk] holds_write [OF holds_batch [OF assms, of ps]]
  by (simp_all add: rocksdb_insert_def rocksdb_insert_batch_def rocksdb_delete_def serialize_location_bytes build_batch_eq
      del: fun_upd_apply)

end

sublocale rocks_table \<subseteq> rocks: location_store "rocksdb_ops R to_bytes" rocksdb_invar "rocksdb_map R to_bytes"
proof (unfold_locales, goal_cases)
  case (1 l pk r l')
  note h = invar_holds [OF 1(1)]
  have "r = Ok (rocksdb_map R to_bytes l pk)" "rl_db l' = rl_db l"
    using 1(2) rocksdb_get_eq [OF h, of pk] by (auto simp: rocksdb_ops_def split: if_splits)
  then show ?case using h holds_invar [of l' "rocksdb_map R to_bytes l"] by simp
next
  case (2 l pks r l')
  note h = invar_holds [OF 2(1)]
  have "r = Ok (map (rocksdb_map R to_bytes l) pks)" "rl_db l' = rl_db l"
    using 2(2) rocksdb_get_batch_eq [OF h, of pks] by (auto simp: rocksdb_ops_def)
  then show ?case using h holds_invar [of l' "rocksdb_map R to_bytes l"] by simp
next
  case (3 l pk loc r l')
  then show ?case
    using rocksdb_writes(1,2) [OF invar_holds [OF 3(1)], of pk loc] holds_invar [of l'] by (simp add: rocksdb_ops_def)
next
  case (4 l ps r l')
  then show ?case
    using rocksdb_writes(3,4) [OF invar_holds [OF 4(1)], of ps] holds_invar [of l'] by (simp add: rocksdb_ops_def)
next
  case (5 l pk r l')
  then show ?case
    using rocksdb_writes(5,6) [OF invar_holds [OF 5(1)], of pk] holds_invar [of l'] by (simp add: rocksdb_ops_def)
qed

interpretation rt256: rocks_table pubkey256_try_from pubkey256_to_bytes list_rocks
  by unfold_locales

context rocks_table
begin

lemma rocksdb_is_store: "location_store (rocksdb_ops R to_bytes) rocksdb_invar (rocksdb_map R to_bytes)"
  by unfold_locales

text \<open>The entries of a family that holds a map, as encodings of pubkeys and locations.\<close>

definition encoded :: "'pk \<times> account_location \<Rightarrow> byte list \<times> byte list" where
  "encoded p = (to_bytes (fst p), location_bytes (snd p))"

lemma encodings_of:
  "(\<And>k v. (k, v) \<in> set es \<Longrightarrow> \<exists>pk loc. k = to_bytes pk \<and> v = location_bytes loc) \<Longrightarrow> \<exists>ps. es = map encoded ps"
proof (induction es)
  case (Cons e es)
  obtain k v where e: "e = (k, v)" by (cases e)
  obtain pk loc where "k = to_bytes pk" "v = location_bytes loc" using Cons.prems [of k v] e by auto
  then have "e = encoded (pk, loc)" by (simp add: e encoded_def)
  moreover obtain ps where "es = map encoded ps" using Cons by auto
  ultimately have "e # es = map encoded ((pk, loc) # ps)" by simp
  then show ?case by (rule exI)
qed simp

lemma map_of_encoded: "map_of (map encoded ps) (to_bytes pk) = map_option location_bytes (map_of ps pk)"
  by (induction ps) (auto simp: encoded_def)

lemma iterate_encoded: "fst (iterate try_from (map (Ok \<circ> encoded) ps) l) = map Ok ps"
proof (induction ps arbitrary: l)
  case (Cons p ps)
  then show ?case
    using Cons.IH [of "count_reads 1 l"]
    by (cases p) (simp add: encoded_def length_to_bytes try_from_to_bytes deserialize_location_bytes case_prod_beta comp_def)
qed simp

lemma rocksdb_iterates_map:
  assumes h: "holds_map (rl_db l) m"
  shows "\<exists>it ps. rocksdb_iter R None l = Ok it \<and> fst (iterate try_from it l) = map Ok ps \<and> distinct (map fst ps) \<and> map_of ps = m"
proof -
  let ?es = "ro_iterator R (rl_db l) CF_LOCATIONS"
  have "\<exists>pk loc. k = to_bytes pk \<and> v = location_bytes loc" if "(k, v) \<in> set ?es" for k v
  proof -
    have v: "ro_get R (rl_db l) CF_LOCATIONS k = Some v"
      using map_of_is_SomeI [OF iterator_distinct that] iterator_content by metis
    then obtain pk where pk: "k = to_bytes pk" using h by (auto simp: holds_map_def)
    then show ?thesis using v holds_get [OF h, of pk] by auto
  qed
  then obtain ps where ps: "?es = map encoded ps" using encodings_of by meson
  have d: "distinct (map fst ps)"
    using iterator_distinct [of "rl_db l" CF_LOCATIONS] by (simp add: ps encoded_def comp_def distinct_map inj_on_def)
  have "map_of ps pk = m pk" for pk
  proof -
    have "map_option location_bytes (map_of ps pk) = map_option location_bytes (m pk)"
      using map_of_encoded [of ps pk] holds_get [OF h, of pk] iterator_content [of "rl_db l" CF_LOCATIONS] ps by simp
    then show ?thesis by (cases "map_of ps pk"; cases "m pk") (simp_all add: location_bytes_inj)
  qed
  then have "map_of ps = m" by (rule ext)
  moreover have "rocksdb_iter R None l = Ok (map (Ok \<circ> encoded) ps)"
    using h by (simp add: rocksdb_iter_def ps)
  ultimately show ?thesis using iterate_encoded d by blast
qed

lemma rocksdb_open_holds:
  assumes "rocksdb_open R (Some d) = Ok l" "\<And>k. ro_get R d CF_LOCATIONS k = None"
  shows "rocksdb_invar l \<and> rocksdb_map R to_bytes l = Map.empty"
proof -
  obtain db where db: "ro_open R (db_options_default \<lparr> opt_create_if_missing := True \<rparr>) [CF_LOCATIONS, CF_METADATA] (Some d) = Some db"
    "rl_db l = db"
    using assms(1) by (auto simp: rocksdb_open_def Let_def split: option.splits)
  have "holds_map (rl_db l) Map.empty"
    using open_old [OF db(1)] open_handle [OF db(1), of CF_LOCATIONS] assms(2) by (simp add: holds_map_def db(2))
  then show ?thesis by (rule holds_invar)
qed

end


section \<open>Properties\<close>

text \<open>C11: On the same sequence of lookups, inserts, batches and deletes, with no failing call, the
  RocksDB locator on an empty \<open>locations\<close> family and the redb locator on an empty table return
  the same results, and in the end the RocksDB iterator lists every pubkey once with the
  location the redb locator has for it, as many as the redb locator counts.
\<close>

theorem backends_agree:
  fixes K :: "('t, byte list, byte list) kv_ops" and R :: "'d rocks_ops"
  assumes "pubkey_codec try_from to_bytes" "kv_store K" "rocksdb R"
    and "locator_open True (kv_empty K) = Ok l" "rocksdb_open R (Some d) = Ok r" "\<And>k. ro_get R d CF_LOCATIONS k = None"
    and "call_all (store_call_on (redb_ops K to_bytes)) calls l = (rs, l')"
    and "call_all (store_call_on (rocksdb_ops R to_bytes)) calls r = (rs', r')"
  shows "rs' = rs \<and> (\<exists>it ps. rocksdb_iter R None r' = Ok it \<and> fst (iterate try_from it r') = map Ok ps \<and>
    distinct (map fst ps) \<and> (\<forall>pk. fst (locator_get K to_bytes True pk l') = Ok (map_of ps pk)) \<and>
    fst (locator_count K True l') = Ok (of_nat (length ps)))"
proof -
  have T: "location_table try_from to_bytes K" by (intro location_table.intro pubkey_table.intro assms)
  have U: "rocks_table try_from to_bytes R" by (intro rocks_table.intro assms)
  note l = location_table.redb_open_empty [OF T assms(4)]
  note r = rocks_table.rocksdb_open_holds [OF U assms(5,6)]
  have a: "rs' = rs" "rocksdb_map R to_bytes r' = redb_map K to_bytes l'"
    "location_table.redb_invar to_bytes K l'" "rocks_table.rocksdb_invar to_bytes R r'"
    using location_stores_agree [OF location_table.redb_is_store [OF T] rocks_table.rocksdb_is_store [OF U]
        _ _ _ assms(7,8)] l r by auto
  obtain it ps where it: "rocksdb_iter R None r' = Ok it" "fst (iterate try_from it r') = map Ok ps"
    "distinct (map fst ps)" "map_of ps = redb_map K to_bytes l'"
    using rocks_table.rocksdb_iterates_map [OF U rocks_table.invar_holds [OF U a(4)]] a(2) by auto
  note h = location_table.redb_invar_map [OF T a(3)]
  have "card (dom (map_of ps)) = length ps"
    using it(3) by (metis distinct_card dom_map_of_conv_image_fst length_map set_map)
  then show ?thesis
    using a(1) it location_table.locator_get_represents [OF T h] location_table.locator_count_represents [OF T h] by auto
qed

theorem backends_agree_witness:
  "\<exists>l r rs l' r'. locator_open True (kv_empty list_kv) = Ok l \<and>
     rocksdb_open list_rocks (Some [(CF_LOCATIONS, []), (CF_METADATA, [])]) = Ok r \<and>
     call_all (store_call_on (redb_ops list_kv pubkey256_to_bytes))
       [Store_Insert 7 (new_base 1 0 0 0 0 3 0), Store_Get 7, Store_Delete 7, Store_Get_Batch [7, 8]] l = (rs, l') \<and>
     call_all (store_call_on (rocksdb_ops list_rocks pubkey256_to_bytes))
       [Store_Insert 7 (new_base 1 0 0 0 0 3 0), Store_Get 7, Store_Delete 7, Store_Get_Batch [7, 8]] r = (rs, r')"
proof -
  let ?calls = "[Store_Insert 7 (new_base 1 0 0 0 0 3 0), Store_Get 7, Store_Delete 7, Store_Get_Batch [7, 8]]"
  obtain l :: "(byte list \<times> byte list) list rocks_locator" where l: "locator_open True (kv_empty list_kv) = Ok l"
    by (simp add: locator_open_def)
  obtain r where r: "rocksdb_open list_rocks (Some [(CF_LOCATIONS, []), (CF_METADATA, [])]) = Ok r"
    by (simp add: rocksdb_open_def list_rocks_def Let_def list_rocks_open_def db_options_default_def)
  obtain rs l' where cl: "call_all (store_call_on (redb_ops list_kv pubkey256_to_bytes)) ?calls l = (rs, l')" by fastforce
  obtain rs' r' where cr: "call_all (store_call_on (rocksdb_ops list_rocks pubkey256_to_bytes)) ?calls r = (rs', r')" by fastforce
  have "ro_get list_rocks [(CF_LOCATIONS, []), (CF_METADATA, [])] CF_LOCATIONS k = None" for k
    by (simp add: list_rocks_def Let_def)
  from backends_agree [OF pk256.pubkey_codec_axioms lkv.kv_store_axioms lrk.rocksdb_axioms l r this cl cr]
  show ?thesis using l r cl cr by blast
qed

text \<open>A failed batch leaves no trace: the locator is as before and the error is reported.\<close>

lemma rocksdb_batch_all_or_nothing:
  "ro_cf_handle R (rl_db l) CF_LOCATIONS \<Longrightarrow>
     fst (rocksdb_insert_batch R to_bytes ok ps l) = (if ok then Ok () else Err BackendError) \<and>
     (\<not> ok \<longrightarrow> snd (rocksdb_insert_batch R to_bytes ok ps l) = l)"
proof -
  have "\<exists>b. build_batch cf to_bytes ps acc = Ok b" for cf acc
    by (induction ps arbitrary: acc) (auto simp: serialize_location_bytes)
  then obtain b where "build_batch CF_LOCATIONS to_bytes ps [] = Ok b" by blast
  then show "ro_cf_handle R (rl_db l) CF_LOCATIONS \<Longrightarrow> ?thesis" by (simp add: rocksdb_insert_batch_def cf_locations_def)
qed

text \<open>The locator cannot be opened at a path without a database: the column families it names do
  not exist there, and the option that would create them is not set.
\<close>

theorem rocksdb_open_fresh_fails:
  assumes "rocksdb R"
  shows "rocksdb_open R None = Err BackendError"
proof -
  have "ro_open R (db_options_default \<lparr> opt_create_if_missing := True \<rparr>) [CF_LOCATIONS, CF_METADATA] None = None"
    using rocksdb.open_new [OF assms, of "db_options_default \<lparr> opt_create_if_missing := True \<rparr>" "[CF_LOCATIONS, CF_METADATA]"]
    by (cases "ro_open R (db_options_default \<lparr> opt_create_if_missing := True \<rparr>) [CF_LOCATIONS, CF_METADATA] None")
      (auto simp: db_options_default_def CF_LOCATIONS_def)
  then show ?thesis by (simp add: rocksdb_open_def)
qed

theorem rocksdb_open_fresh_fails_witness: "rocksdb_open list_rocks None = Err BackendError"
  by (rule rocksdb_open_fresh_fails [OF lrk.rocksdb_axioms])

text \<open>The redb locator differs there: a write the table refuses is missing although the batch reports
  success and counts it.
\<close>

theorem redb_batch_loses_writes:
  fixes K :: "('t, byte list, byte list) kv_ops"
  assumes "kv_store K" "locator_open True (kv_empty K) = Ok l" "lost (to_bytes pk)"
    and "locator_insert_batch K to_bytes True lost [(pk, loc)] l = (r, l')"
  shows "r = Ok () \<and> ls_writes (lo_stats l') = 1 \<and> fst (locator_get K to_bytes True pk l') = Ok None"
  using assms kv_store.kv_get_empty [OF assms(1)]
  by (auto simp: locator_open_def locator_insert_batch_def locator_get_def serialize_location_bytes)

theorem redb_batch_loses_writes_witness:
  "\<exists>l :: (byte list \<times> byte list) list rocks_locator. locator_open True (kv_empty list_kv) = Ok l \<and>
     fst (locator_insert_batch list_kv pubkey256_to_bytes True (\<lambda>_. True) [(7, new_base 1 0 0 0 0 3 0)] l) = Ok () \<and>
     fst (locator_get list_kv pubkey256_to_bytes True 7
       (snd (locator_insert_batch list_kv pubkey256_to_bytes True (\<lambda>_. True) [(7, new_base 1 0 0 0 0 3 0)] l))) = Ok None"
proof -
  obtain l :: "(byte list \<times> byte list) list rocks_locator" where l: "locator_open True (kv_empty list_kv) = Ok l"
    by (simp add: locator_open_def)
  show ?thesis
    using redb_batch_loses_writes [OF lkv.kv_store_axioms l, of "\<lambda>_. True" pubkey256_to_bytes 7 "new_base 1 0 0 0 0 3 0"] l
    by (metis prod.collapse)
qed

end
