(* ===== verification/Binaries.thy ===== *)
theory Binaries
  imports Location_Store Runtime Rpc_Server
begin

text \<open>
  The programs of the repository (\<open>synapse-hyperplane/src/bin\<close>): the base scanner, which builds
  the base locator and the dictionary from a directory of account files, the sidecar, which
  owns the runtime and its threads, and the RPC server.  \<open>delta-plane.rs\<close> only logs and waits
  for a signal.

  Command lines are parsed by a crate: the argument records are given.  Log output is left out
  except for the level.  The base scanner is modelled with the redb backend, the only one
  whose dictionary has the operations it calls.
\<close>

section \<open>Log levels\<close>

datatype log_level = ERROR | WARN | INFO | DEBUG | TRACE

definition log_level_of :: "string \<Rightarrow> log_level" where
  "log_level_of s =
     (if s = ''error'' then ERROR else if s = ''warn'' then WARN else if s = ''info'' then INFO
      else if s = ''debug'' then DEBUG else if s = ''trace'' then TRACE else INFO)"


section \<open>The base scanner\<close>

record base_scanner_args =
  ba_accounts_path :: string
  ba_locator_path :: string
  ba_dictionary_path :: string
  ba_num_threads :: nat
  ba_log_level :: string

text \<open>What the program finds at a path; a table that is not there yet is the empty table.\<close>

record ('t, 'u) file_system =
  fs_accounts :: "string \<Rightarrow> dir_entry list option"
  fs_locators :: "string \<Rightarrow> 't"
  fs_dictionaries :: "string \<Rightarrow> 'u"

text \<open>Which calls to the database succeed, and which writes of a batch are lost.\<close>

record database_outcomes =
  do_locator_open :: bool
  do_locator_batch :: bool
  do_locator_lost :: "byte list \<Rightarrow> bool"
  do_locator_count :: bool
  do_dictionary_open :: bool
  do_dictionary_begin :: bool
  do_dictionary_commit :: bool
  do_dictionary_lost :: "byte list \<Rightarrow> bool"

definition all_succeed :: database_outcomes where
  "all_succeed =
     \<lparr> do_locator_open = True, do_locator_batch = True, do_locator_lost = (\<lambda>_. False), do_locator_count = True,
       do_dictionary_open = True, do_dictionary_begin = True, do_dictionary_commit = True, do_dictionary_lost = (\<lambda>_. False) \<rparr>"

datatype base_scanner_error =
    Scanner_Failed scanner_error
  | Locator_Failed locator_error
  | Dictionary_Failed dictionary_error

definition base_scanner_config :: "base_scanner_args \<Rightarrow> scanner_config" where
  "base_scanner_config args =
     \<lparr> scf_accounts_path = ba_accounts_path args, scf_num_threads = ba_num_threads args, scf_detect_appendvec = False,
       scf_validate_accounts = True, scf_progress_interval = 100 \<rparr>"

text \<open>The second half of \<open>main\<close>; the result of the dictionary's \<open>insert_batch\<close> is dropped.\<close>

definition base_scanner_dictionary ::
  "('u, byte list, u64) kv_ops \<Rightarrow> ('pk \<Rightarrow> byte list) \<Rightarrow> database_outcomes \<Rightarrow> base_scanner_args \<Rightarrow> 'pk parsed_account list \<Rightarrow>
     ('t, 'u) file_system \<Rightarrow> (base_scanner_error, unit) result \<times> ('t, 'u) file_system" where
  "base_scanner_dictionary D to_bytes oc args accounts fs =
     (case pp_open (do_dictionary_open oc) (fs_dictionaries fs (ba_dictionary_path args)) of
        Err e \<Rightarrow> (Err (Dictionary_Failed e), fs)
      | Panic \<Rightarrow> (Panic, fs)
      | Ok dict \<Rightarrow>
          (let pubkeys = map pa_pubkey accounts;
               (ids, dict1) = pp_insert_batch D to_bytes (do_dictionary_begin oc) (do_dictionary_commit oc) (do_dictionary_lost oc) pubkeys dict
           in (Ok (), fs \<lparr> fs_dictionaries := (fs_dictionaries fs)(ba_dictionary_path args := pp_db dict1) \<rparr>)))"

definition base_scanner_main ::
  "('t, byte list, byte list) kv_ops \<Rightarrow> ('u, byte list, u64) kv_ops \<Rightarrow> (byte list \<Rightarrow> 'pk option) \<Rightarrow> ('pk \<Rightarrow> byte list) \<Rightarrow>
     database_outcomes \<Rightarrow> base_scanner_args \<Rightarrow> ('t, 'u) file_system \<Rightarrow>
     (base_scanner_error, unit) result \<times> ('t, 'u) file_system" where
  "base_scanner_main K D try_from to_bytes oc args fs =
     (case fst (scanner_scan (base_scanner_config args) try_from (fs_accounts fs (ba_accounts_path args)) []) of
        Err e \<Rightarrow> (Err (Scanner_Failed e), fs)
      | Panic \<Rightarrow> (Panic, fs)
      | Ok scanned \<Rightarrow>
          (case locator_open (do_locator_open oc) (fs_locators fs (ba_locator_path args)) of
             Err e \<Rightarrow> (Err (Locator_Failed e), fs)
           | Panic \<Rightarrow> (Panic, fs)
           | Ok locator \<Rightarrow>
               (let locations = map (\<lambda>acc. (pa_pubkey acc, pa_location acc)) (sc_accounts scanned);
                    (r, locator1) = locator_insert_batch K to_bytes (do_locator_batch oc) (do_locator_lost oc) locations locator;
                    fs1 = fs \<lparr> fs_locators := (fs_locators fs)(ba_locator_path args := lo_db locator1) \<rparr>
                in case r of
                     Err e \<Rightarrow> (Err (Locator_Failed e), fs1)
                   | Panic \<Rightarrow> (Panic, fs1)
                   | Ok _ \<Rightarrow>
                       (case fst (locator_count K (do_locator_count oc) locator1) of
                          Err e \<Rightarrow> (Err (Locator_Failed e), fs1)
                        | Panic \<Rightarrow> (Panic, fs1)
                        | Ok n \<Rightarrow> base_scanner_dictionary D to_bytes oc args (sc_accounts scanned) fs1))))"


section \<open>The sidecar\<close>

record sidecar_args =
  sa_ring_path :: string
  sa_delta_path :: string
  sa_index_path :: string
  sa_base_locator_path :: string
  sa_rpc_bind :: string
  sa_query_workers :: nat
  sa_index_workers :: nat
  sa_enable_metrics :: bool
  sa_metrics_port :: u16
  sa_log_level :: string
  sa_dev :: bool

definition sidecar_config :: "sidecar_args \<Rightarrow> runtime_config" where
  "sidecar_config args =
     (if sa_dev args
      then \<lparr> rtc_ring_buffer_path = ''/tmp/synapse/ring.bin'', rtc_delta_path = ''/tmp/synapse/delta'',
             rtc_index_path = ''/tmp/synapse/indexes'', rtc_base_locator_path = ''/tmp/synapse/base-locator'',
             rtc_query_workers = sa_query_workers args, rtc_index_workers = sa_index_workers args,
             rtc_rpc_bind = sa_rpc_bind args, rtc_enable_metrics = sa_enable_metrics args, rtc_metrics_port = sa_metrics_port args \<rparr>
      else \<lparr> rtc_ring_buffer_path = sa_ring_path args, rtc_delta_path = sa_delta_path args,
             rtc_index_path = sa_index_path args, rtc_base_locator_path = sa_base_locator_path args,
             rtc_query_workers = sa_query_workers args, rtc_index_workers = sa_index_workers args,
             rtc_rpc_bind = sa_rpc_bind args, rtc_enable_metrics = sa_enable_metrics args, rtc_metrics_port = sa_metrics_port args \<rparr>)"

text \<open>
  The threads the runtime starts, each with its own state; a worker and the metrics thread only
  know whether their loop has ended.  One iteration of a loop reads the flag first.
\<close>

datatype sidecar_thread =
    Consumer_Thread consumer_thread
  | Worker_Thread bool
  | Metrics_Thread bool

fun thread_finished :: "sidecar_thread \<Rightarrow> bool" where
  "thread_finished (Consumer_Thread c) = (c = Finished \<or> c = Panicked)"
| "thread_finished (Worker_Thread ended) = ended"
| "thread_finished (Metrics_Thread ended) = ended"

fun thread_iterate ::
  "bool \<times> nat \<times> ring_mem \<Rightarrow> sidecar_thread \<Rightarrow> ('pk, 'b) synapse_runtime \<Rightarrow> sidecar_thread \<times> ('pk, 'b) synapse_runtime" where
  "thread_iterate (io, len, m) (Consumer_Thread c) rt =
     (let (c', rt') = geyser_consumer_step io len m c rt in (Consumer_Thread c', rt'))"
| "thread_iterate ring (Worker_Thread ended) rt =
     (if ended then (Worker_Thread True, rt)
      else if \<not> rt_running rt then (Worker_Thread True, rt)
      else (Worker_Thread False, query_worker_step rt))"
| "thread_iterate ring (Metrics_Thread ended) rt = (Metrics_Thread (ended \<or> \<not> rt_running rt), rt)"

type_synonym ('pk, 'b) sidecar = "('pk, 'b) synapse_runtime \<times> sidecar_thread list"

definition sidecar_boot :: "sidecar_args \<Rightarrow> (runtime_error, ('pk, 'b) sidecar) result" where
  "sidecar_boot args =
     (let config = sidecar_config args; (r, rt) = initialize_query_planner runtime_new in
      case r of
        Err e \<Rightarrow> Err e
      | Panic \<Rightarrow> Panic
      | Ok _ \<Rightarrow>
          (let (handles, rt1) = runtime_start (rtc_query_workers config) (rtc_enable_metrics config) rt
           in Ok (rt1, Consumer_Thread Opening # replicate (rtc_query_workers config) (Worker_Thread False) @
                (if rtc_enable_metrics config then [Metrics_Thread False] else []))))"

text \<open>One iteration of the thread \<open>i\<close>, with the ring as it is at that moment.\<close>

definition sidecar_step :: "nat \<times> bool \<times> nat \<times> ring_mem \<Rightarrow> ('pk, 'b) sidecar \<Rightarrow> ('pk, 'b) sidecar" where
  "sidecar_step turn s =
     (let (i, ring) = turn; (rt, threads) = s in
      if i < length threads
      then (let (t, rt') = thread_iterate ring (threads ! i) rt in (rt', threads[i := t]))
      else s)"

text \<open>
  Waiting: the handles are looked at once, when the monitor starts; behind that it only reports
  every minute.  \<open>None\<close> means that the program is still waiting.
\<close>

datatype wait_event = Minute_Passed | Ctrl_C

datatype wait_outcome = Shutdown_Signal | Worker_Finished

fun sidecar_wait :: "sidecar_thread list \<Rightarrow> wait_event list \<Rightarrow> wait_outcome option" where
  "sidecar_wait threads events =
     (if (\<exists>t\<in>set threads. thread_finished t) then Some Worker_Finished
      else if Ctrl_C \<in> set events then Some Shutdown_Signal
      else None)"

definition sidecar_shutdown :: "('pk, 'b) sidecar \<Rightarrow> ('pk, 'b) sidecar" where
  "sidecar_shutdown s = (runtime_stop (fst s), snd s)"

text \<open>Joining returns when every thread has ended, whatever its result.\<close>

definition all_joined :: "('pk, 'b) sidecar \<Rightarrow> bool" where
  "all_joined s \<longleftrightarrow> (\<forall>t\<in>set (snd s). thread_finished t)"


section \<open>The RPC server\<close>

record rpc_args =
  rpa_bind :: string
  rpa_workers :: nat
  rpa_max_concurrent :: nat
  rpa_rate_limit :: nat
  rpa_locator_path :: string
  rpa_dragonfly_url :: "string option"
  rpa_log_level :: string

definition rpc_config :: "rpc_args \<Rightarrow> rpc_server_config" where
  "rpc_config args =
     \<lparr> sv_bind = rpa_bind args, sv_workers = rpa_workers args, sv_max_concurrent = rpa_max_concurrent args, sv_rate_limit_per_ip = rpa_rate_limit args,
       sv_enable_cors = True, sv_health_endpoint = True, sv_metrics_endpoint = True \<rparr>"

text \<open>The address is bound by the network stack; the server runs until binding or accepting fails.\<close>

definition rpc_main ::
  "(string \<Rightarrow> (string, unit) result) \<Rightarrow> rpc_args \<Rightarrow> accept_event list \<Rightarrow> rpc_server_state \<times> string list \<times> (string, unit) result option" where
  "rpc_main bind_address args events =
     (let (peers, r) = rpc_server_run bind_address (rpc_config args) events
      in (server_state_new (rpc_config args), peers,
          map_option (\<lambda>outcome. case outcome of Err e \<Rightarrow> Err (''Server error: '' @ e) | other \<Rightarrow> other) r))"

section \<open>Directories of account files\<close>

text \<open>A directory as the validator writes it: the records of each file, its id and its version.\<close>

record 'pk account_file =
  af_id :: u64
  af_version :: string
  af_accounts :: "'pk stored_account list"
  af_padding :: nat

definition account_file_bytes :: "('pk \<Rightarrow> byte list) \<Rightarrow> 'pk account_file \<Rightarrow> byte list" where
  "account_file_bytes to_bytes f = file_bytes to_bytes (af_accounts f) (af_padding f)"

definition account_dir_entry :: "('pk \<Rightarrow> byte list) \<Rightarrow> 'pk account_file \<Rightarrow> dir_entry" where
  "account_dir_entry to_bytes f =
     \<lparr> de_name = decimal (unat (af_id f)) @ ''.'' @ af_version f, de_is_file = True,
       de_contents = Some (account_file_bytes to_bytes f) \<rparr>"

text \<open>The records of a directory in the order of the scan, each with its file and its offset.\<close>

type_synonym 'pk located_record = "u64 \<times> nat \<times> 'pk stored_account"

primrec file_records :: "u64 \<Rightarrow> nat \<Rightarrow> 'pk stored_account list \<Rightarrow> 'pk located_record list" where
  "file_records fid off [] = []"
| "file_records fid off (a # as) = (fid, off, a) # file_records fid (off + padded_size a) as"

definition dir_records :: "'pk account_file list \<Rightarrow> 'pk located_record list" where
  "dir_records files = concat (map (\<lambda>f. file_records (af_id f) 0 (af_accounts f)) (sort_key af_id files))"

definition record_pubkey :: "'pk located_record \<Rightarrow> 'pk" where
  "record_pubkey r = ra_pubkey (snd (snd r))"

definition parsed_record :: "'pk located_record \<Rightarrow> 'pk parsed_account" where
  "parsed_record r = parsed_of (fst r) (of_nat (fst (snd r))) (snd (snd r))"

definition record_location :: "'pk located_record \<Rightarrow> account_location" where
  "record_location r = pa_location (parsed_record r)"

definition last_record :: "'pk \<Rightarrow> 'pk located_record list \<Rightarrow> 'pk located_record option" where
  "last_record pk rs = (let own = filter (\<lambda>r. record_pubkey r = pk) rs in if own = [] then None else Some (last own))"

lemma sort_key_of_map: "sort_key f (map g xs) = map g (sort_key (\<lambda>x. f (g x)) xs)"
proof (induction xs)
  case (Cons x xs)
  have "insort_key f (g x) (map g ys) = map g (insort_key (\<lambda>x. f (g x)) x ys)" for ys by (induction ys) simp_all
  then show ?case using Cons by simp
qed simp

lemma parse_file_id_decimal: "parse_file_id (decimal (unat i) @ ''.'' @ v) = Some i"
proof -
  have "CHR ''.'' \<notin> set (decimal (unat i))" using decimal_digits [of "unat i"] by (auto simp: digit_value_def Let_def)
  then have "split_on (CHR ''.'') (decimal (unat i) @ ''.'' @ v) = decimal (unat i) # split_on (CHR ''.'') v"
    using split_on_part [of "CHR ''.''" "decimal (unat i)" v] by simp
  moreover have "0 < length (split_on (CHR ''.'') v)" using split_on_nonempty by simp
  moreover have "unat i < 2 ^ 64" using unsigned_less [of i] by simp
  ultimately show ?thesis by (simp add: parse_file_id_def Let_def parse_decimal Suc_le_eq)
qed

lemma discover_account_dir:
  "discover_account_files (Some (map (account_dir_entry to_bytes) files)) =
     Ok (map (\<lambda>f. (af_id f, account_dir_entry to_bytes f)) (sort_key af_id files))"
proof -
  have "concat (map (\<lambda>e. if de_is_file e
      then (case parse_file_id (de_name e) of Some file_id \<Rightarrow> [(file_id, e)] | None \<Rightarrow> []) else [])
      (map (account_dir_entry to_bytes) files)) = map (\<lambda>f. (af_id f, account_dir_entry to_bytes f)) files"
    using parse_file_id_decimal by (induction files) (simp_all add: account_dir_entry_def)
  then show ?thesis by (simp add: discover_account_files_def sort_key_of_map)
qed

lemma parsed_list_records: "parsed_list fid off as = map parsed_record (file_records fid off as)"
  by (induction as arbitrary: off) (simp_all add: parsed_record_def)

lemma file_records_split:
  "(i, n, a) \<in> set (file_records fid off as) \<Longrightarrow> i = fid \<and> (\<exists>xs ys. as = xs @ a # ys \<and> n = off + sum_list (map padded_size xs))"
proof (induction as arbitrary: off)
  case (Cons b bs)
  show ?case
  proof (cases "(i, n, a) = (fid, off, b)")
    case True
    then show ?thesis by (auto intro: exI [of _ "[]"])
  next
    case False
    then obtain xs ys where "i = fid" "bs = xs @ a # ys" "n = off + padded_size b + sum_list (map padded_size xs)"
      using Cons.IH [of "off + padded_size b"] Cons.prems by auto
    then show ?thesis by (auto intro: exI [of _ "b # xs"])
  qed
qed simp

lemma map_of_rev_last:
  "map_of (rev (map (\<lambda>r. (record_pubkey r, record_location r)) rs)) pk = map_option record_location (last_record pk rs)"
  by (induction rs rule: rev_induct) (auto simp: last_record_def Let_def)

lemma last_record_in:
  assumes "last_record pk rs = Some r"
  shows "r \<in> set rs \<and> record_pubkey r = pk"
proof -
  have "r = last (filter (\<lambda>x. record_pubkey x = pk) rs)" "filter (\<lambda>x. record_pubkey x = pk) rs \<noteq> []"
    using assms unfolding last_record_def Let_def by (metis option.inject option.simps(3))+
  then have "r \<in> set (filter (\<lambda>x. record_pubkey x = pk) rs)" using last_in_set by metis
  then show ?thesis by simp
qed

context pubkey_codec
begin

lemma scan_account_files:
  assumes "\<And>f. f \<in> set files \<Longrightarrow> length (account_file_bytes to_bytes f) < 2 ^ 63"
  shows "\<exists>rs. fst (scan_files try_from (map (\<lambda>f. (af_id f, account_dir_entry to_bytes f)) files) cache) = Ok rs \<and>
    map fr_accounts rs = map (\<lambda>f. map parsed_record (file_records (af_id f) 0 (af_accounts f))) files"
  using assms
proof (induction files arbitrary: cache)
  case (Cons f files)
  let ?p = "map (\<lambda>f. (af_id f, account_dir_entry to_bytes f))"
  have "scan_file (length (account_file_bytes to_bytes f) + 1) appendvec_new try_from (af_id f) (account_file_bytes to_bytes f) =
      Some (Ok (map parsed_record (file_records (af_id f) 0 (af_accounts f))))"
    using scan_file_records [of "af_accounts f" "af_padding f" "af_id f"] Cons.prems [of f]
    by (simp add: account_file_bytes_def parsed_list_records)
  then obtain r c where r: "scanner_scan_file try_from (af_id f) (account_dir_entry to_bytes f) cache = (Ok r, c)"
    "fr_accounts r = map parsed_record (file_records (af_id f) 0 (af_accounts f))"
    by (auto simp: scanner_scan_file_def mmap_open_def account_dir_entry_def)
  obtain rs where rs: "fst (scan_files try_from (?p files) c) = Ok rs"
    "map fr_accounts rs = map (\<lambda>f. map parsed_record (file_records (af_id f) 0 (af_accounts f))) files"
    using Cons.IH [of c] Cons.prems by auto
  then show ?case using r by (auto split: prod.splits)
qed simp

lemma scanner_scan_dir:
  assumes "files \<noteq> []" "\<And>f. f \<in> set files \<Longrightarrow> length (account_file_bytes to_bytes f) < 2 ^ 63" "scf_progress_interval config \<noteq> 0"
  shows "\<exists>res. fst (scanner_scan config try_from (Some (map (account_dir_entry to_bytes) files)) cache) = Ok res \<and>
    sc_accounts res = map parsed_record (dir_records files)"
proof -
  have ne: "sort_key af_id files \<noteq> []" using assms(1) by (metis set_empty set_sort)
  obtain rs where rs: "fst (scan_files try_from (map (\<lambda>f. (af_id f, account_dir_entry to_bytes f)) (sort_key af_id files)) cache) = Ok rs"
    "map fr_accounts rs = map (\<lambda>f. map parsed_record (file_records (af_id f) 0 (af_accounts f))) (sort_key af_id files)"
    using scan_account_files [of "sort_key af_id files" cache] assms(2) by auto
  obtain c where "scan_files try_from (map (\<lambda>f. (af_id f, account_dir_entry to_bytes f)) (sort_key af_id files)) cache = (Ok rs, c)"
    using rs(1) by (metis prod.collapse)
  then show ?thesis
    using ne assms(3) rs(2) by (auto simp: scanner_scan_def discover_account_dir dir_records_def Let_def map_concat comp_def)
qed

lemma record_reads_back:
  assumes "f \<in> set files" "distinct (map af_id files)" "(af_id f, n, a) \<in> set (dir_records files)"
    and "length (account_file_bytes to_bytes f) < 2 ^ 63" "record_size a < 2 ^ 32" "mmap_open (af_id f) (Some (account_file_bytes to_bytes f)) = Ok m"
  shows "read_bytes m (record_location (af_id f, n, a)) = Ok (record_bytes to_bytes a) \<and>
    get_account_data m (record_location (af_id f, n, a)) = Ok (ra_data a)"
proof -
  obtain g where g: "g \<in> set files" "(af_id f, n, a) \<in> set (file_records (af_id g) 0 (af_accounts g))"
    using assms(3) by (auto simp: dir_records_def)
  have "g = f"
    using file_records_split [OF g(2)] g(1) assms(1,2) by (auto simp: distinct_map dest: inj_onD)
  then obtain xs ys where s: "af_accounts f = xs @ a # ys" "n = sum_list (map padded_size xs)"
    using file_records_split [OF g(2)] by auto
  have "record_location (af_id f, n, a) = pa_location (parsed_list (af_id f) 0 (xs @ a # ys) ! length xs)"
    by (simp add: record_location_def parsed_record_def s(2) parsed_list_nth)
  moreover have "mmap_wf m" "mf_mmap m = file_bytes to_bytes (xs @ a # ys) (af_padding f)"
    using mmap_open_wf [OF assms(6,4)] assms(6) by (auto simp: mmap_open_def account_file_bytes_def s(1))
  ultimately show ?thesis
    using read_back_record [of xs a ys "af_padding f" m _ "af_id f"] assms(4,5) by (simp add: account_file_bytes_def s(1))
qed

end

context dict_table
begin

lemma insert_one_in_step:
  assumes "in_step d"
  shows "in_step (pp_insert_one K to_bytes (\<lambda>_. False) pk d) \<and>
    pp_memory_cache (pp_insert_one K to_bytes (\<lambda>_. False) pk d) = snd (pd_insert pk (pp_memory_cache d))"
proof (cases "pd_get_id (pp_memory_cache d) pk")
  case (Some i)
  then show ?thesis using assms by (simp add: pp_insert_one_def) (simp add: pd_insert_def pd_get_id_def)
next
  case None
  have k: "kv_get K (pp_db d) (to_bytes pk) = None"
    using assms None represents_get [of "\<lambda>i. i" "pp_db d" "pd_get_id (pp_memory_cache d)" pk] by (simp add: in_step_def)
  have "pp_insert_one K to_bytes (\<lambda>_. False) pk d = snd (pp_get_or_create_id K to_bytes True True (\<lambda>_. False) pk d)"
    using None k by (simp add: pp_insert_one_def pp_get_or_create_id_def Let_def)
  then show ?thesis using get_or_create_in_step [OF assms, of pk] by simp
qed

lemma insert_batch_in_step:
  "in_step d \<Longrightarrow> in_step (fold (pp_insert_one K to_bytes (\<lambda>_. False)) pks d) \<and>
     pp_memory_cache (fold (pp_insert_one K to_bytes (\<lambda>_. False)) pks d) = fold (\<lambda>pk c. snd (pd_insert pk c)) pks (pp_memory_cache d)"
proof (induction pks arbitrary: d)
  case (Cons pk pks)
  note one = insert_one_in_step [OF Cons.prems, of pk]
  then show ?case using Cons.IH [OF conjunct1 [OF one]] by simp
qed simp

lemma batch_on_empty_table:
  assumes "pp_open True (kv_empty K) = Ok d" "pp_insert_batch K to_bytes True True (\<lambda>_. False) pks d = (r, d')"
  shows "kv_get K (pp_db d') (to_bytes pk) = pd_get_id (pd_from_iter pks) pk"
proof -
  have d: "d = \<lparr> pp_db = kv_empty K, pp_memory_cache = pd_new, pp_next_id = 0 \<rparr>" using assms(1) by (auto simp: pp_open_def)
  have d': "d' = fold (pp_insert_one K to_bytes (\<lambda>_. False)) pks d" using assms(2) by (auto simp: pp_insert_batch_def Let_def)
  have "in_step d'" "pp_memory_cache d' = pd_from_iter pks"
    using insert_batch_in_step [OF in_step_open, of pks] by (simp_all add: d d' pd_from_iter_def)
  then have "represents (\<lambda>i. i) (pp_db d') (pd_get_id (pd_from_iter pks))" by (simp add: in_step_def)
  then show ?thesis using represents_get by (metis option.map_ident)
qed

end

lemma parsed_record_simps:
  "map (\<lambda>acc. (pa_pubkey acc, pa_location acc)) (map parsed_record rs) = map (\<lambda>r. (record_pubkey r, record_location r)) rs"
  "map pa_pubkey (map parsed_record rs) = map record_pubkey rs"
  by (simp_all add: record_location_def parsed_record_def record_pubkey_def parsed_of_def)

context location_table
begin

lemma scanned_locator:
  assumes "locator_open True (kv_empty K) = Ok l0"
  shows "\<exists>l1 n l. locator_insert_batch K to_bytes True (\<lambda>_. False) (map (\<lambda>r. (record_pubkey r, record_location r)) rs) l0 = (Ok (), l1) \<and>
    fst (locator_count K True l1) = Ok n \<and> locator_open True (lo_db l1) = Ok l \<and>
    (\<forall>pk. fst (locator_get K to_bytes True pk l) = Ok (map_option record_location (last_record pk rs)))"
proof -
  obtain r l1 where ins: "locator_insert_batch K to_bytes True (\<lambda>_. False) (map (\<lambda>r. (record_pubkey r, record_location r)) rs) l0 = (r, l1)"
    by fastforce
  have l1: "r = Ok ()" "redb_invar l1" "redb_map K to_bytes l1 = (\<lambda>pk. map_option record_location (last_record pk rs))"
    using redb.insert_batch_law [of l0] ins redb_open_empty [OF assms] map_of_rev_last [of rs]
    by (auto simp: redb_ops_def fun_eq_iff)
  note h = redb_invar_map [OF l1(2)]
  obtain l where l: "locator_open True (lo_db l1) = Ok l" "lo_db l = lo_db l1" by (simp add: locator_open_def)
  then have "fst (locator_get K to_bytes True pk l) = Ok (map_option record_location (last_record pk rs))" for pk
    using locator_get_represents [of l "redb_map K to_bytes l1" pk] h l1(3) by simp
  then show ?thesis using ins l1(1) l(1) locator_count_represents [OF h] by blast
qed

end


section \<open>Properties of the base scanner\<close>

text \<open>C2: On a directory of well-formed account files with different ids, empty tables and a working
  database, the base scanner succeeds.  The locator then has, for every pubkey, the location of
  its last record in the order of the scan and nothing for other pubkeys; that location reads
  back the record and its data from the file it names; and the dictionary table has the ids the
  in-memory dictionary gives to the scanned pubkeys.
\<close>

theorem base_scanner_end_to_end:
  fixes K :: "('t, byte list, byte list) kv_ops" and D :: "('u, byte list, u64) kv_ops" and try_from :: "byte list \<Rightarrow> 'pk option"
  assumes codec: "pubkey_codec try_from to_bytes" and K: "kv_store K" and D: "kv_store D"
    and files: "files \<noteq> []" "distinct (map af_id files)"
    and lens: "\<And>f. f \<in> set files \<Longrightarrow> length (account_file_bytes to_bytes f) < 2 ^ 63"
    and dir: "fs_accounts fs (ba_accounts_path args) = Some (map (account_dir_entry to_bytes) files)"
    and tables: "fs_locators fs (ba_locator_path args) = kv_empty K" "fs_dictionaries fs (ba_dictionary_path args) = kv_empty D"
  shows "\<exists>fs' l. base_scanner_main K D try_from to_bytes all_succeed args fs = (Ok (), fs') \<and>
    locator_open True (fs_locators fs' (ba_locator_path args)) = Ok l \<and>
    (\<forall>pk. fst (locator_get K to_bytes True pk l) = Ok (map_option record_location (last_record pk (dir_records files))) \<and>
      kv_get D (fs_dictionaries fs' (ba_dictionary_path args)) (to_bytes pk) =
        pd_get_id (pd_from_iter (map record_pubkey (dir_records files))) pk) \<and>
    (\<forall>f\<in>set files. \<forall>n a m. (af_id f, n, a) \<in> set (dir_records files) \<longrightarrow> record_size a < 2 ^ 32 \<longrightarrow>
      mmap_open (af_id f) (Some (account_file_bytes to_bytes f)) = Ok m \<longrightarrow>
      read_bytes m (record_location (af_id f, n, a)) = Ok (record_bytes to_bytes a) \<and>
      get_account_data m (record_location (af_id f, n, a)) = Ok (ra_data a))"
proof -
  have T: "location_table try_from to_bytes K" by (intro location_table.intro pubkey_table.intro codec K)
  have U: "dict_table try_from to_bytes D" by (intro dict_table.intro pubkey_table.intro codec D)
  let ?rs = "dir_records files"
  obtain res where scan: "fst (scanner_scan (base_scanner_config args) try_from (Some (map (account_dir_entry to_bytes) files)) []) = Ok res"
    "sc_accounts res = map parsed_record ?rs"
    using pubkey_codec.scanner_scan_dir [OF codec files(1), where config = "base_scanner_config args" and cache = "[]"] lens
    by (auto simp: base_scanner_config_def)
  obtain l0 where l0: "locator_open True (kv_empty K) = Ok l0" by (simp add: locator_open_def)
  obtain l1 n l where l: "locator_insert_batch K to_bytes True (\<lambda>_. False) (map (\<lambda>r. (record_pubkey r, record_location r)) ?rs) l0 = (Ok (), l1)"
    "fst (locator_count K True l1) = Ok n" "locator_open True (lo_db l1) = Ok l"
    "\<forall>pk. fst (locator_get K to_bytes True pk l) = Ok (map_option record_location (last_record pk ?rs))"
    using location_table.scanned_locator [OF T l0, of ?rs] by blast
  obtain d :: "('u, 'pk) persistent_dict" where d: "pp_open True (kv_empty D) = Ok d" by (simp add: pp_open_def)
  obtain ri d' where di: "pp_insert_batch D to_bytes True True (\<lambda>_. False) (map record_pubkey ?rs) d = (ri, d')" by fastforce
  let ?fs1 = "fs \<lparr> fs_locators := (fs_locators fs)(ba_locator_path args := lo_db l1) \<rparr>"
  let ?fs' = "?fs1 \<lparr> fs_dictionaries := (fs_dictionaries fs)(ba_dictionary_path args := pp_db d') \<rparr>"
  have main: "base_scanner_main K D try_from to_bytes all_succeed args fs = (Ok (), ?fs')"
    using scan l0 l d di
    by (simp add: base_scanner_main_def base_scanner_dictionary_def all_succeed_def dir tables parsed_record_simps del: map_map)
  show ?thesis
    using main l(3,4) dict_table.batch_on_empty_table [OF U d di] pubkey_codec.record_reads_back [OF codec _ files(2) _ lens]
    by (intro exI [of _ ?fs'] exI [of _ l]) auto
qed

definition sample_dir :: "pubkey256 account_file list" where
  "sample_dir = [\<lparr> af_id = 5, af_version = ''0'', af_accounts = [sample_account 7 [1, 2]], af_padding = 0 \<rparr>,
                 \<lparr> af_id = 3, af_version = ''1'', af_accounts = [sample_account 8 [3], sample_account 7 [9]], af_padding = 8 \<rparr>]"

lemma sample_dir_lengths: "f \<in> set sample_dir \<Longrightarrow> length (account_file_bytes pubkey256_to_bytes f) < 2 ^ 63"
  by (auto simp: sample_dir_def account_file_bytes_def file_bytes_def padded_record_def record_bytes_def record_size_def
      padding_needed_def sample_account_def pubkey256_to_bytes_def)

theorem base_scanner_end_to_end_witness:
  "\<exists>fs' l. base_scanner_main list_kv list_kv pubkey256_try_from pubkey256_to_bytes all_succeed
       \<lparr> ba_accounts_path = ''a'', ba_locator_path = ''l'', ba_dictionary_path = ''d'', ba_num_threads = 4, ba_log_level = ''info'' \<rparr>
       \<lparr> fs_accounts = (\<lambda>_. Some (map (account_dir_entry pubkey256_to_bytes) sample_dir)), fs_locators = (\<lambda>_. []), fs_dictionaries = (\<lambda>_. []) \<rparr>
     = (Ok (), fs') \<and> locator_open True (fs_locators fs' ''l'') = Ok l \<and>
     fst (locator_get list_kv pubkey256_to_bytes True 7 l) = Ok (Some (new_base 5 0 99 97 2 42 0))"
proof -
  let ?args = "\<lparr> ba_accounts_path = ''a'', ba_locator_path = ''l'', ba_dictionary_path = ''d'', ba_num_threads = 4, ba_log_level = ''info'' \<rparr>"
  let ?fs = "\<lparr> fs_accounts = (\<lambda>_. Some (map (account_dir_entry pubkey256_to_bytes) sample_dir)), fs_locators = (\<lambda>_. []), fs_dictionaries = (\<lambda>_. []) \<rparr>"
  have files: "sample_dir \<noteq> []" "distinct (map af_id sample_dir)" by (simp_all add: sample_dir_def)
  have "dir_records sample_dir = [(3, 0, sample_account 8 [3]), (3, 104, sample_account 7 [9]), (5, 0, sample_account 7 [1, 2])]"
    by (simp add: dir_records_def sample_dir_def padded_size_def record_size_def padding_needed_def sample_account_def)
  then have "map_option record_location (last_record 7 (dir_records sample_dir)) = Some (new_base 5 0 99 97 2 42 0)"
    by (simp add: last_record_def record_pubkey_def record_location_def parsed_record_def parsed_of_def sample_account_def record_size_def)
  then show ?thesis
    using base_scanner_end_to_end [OF pk256.pubkey_codec_axioms lkv.kv_store_axioms lkv.kv_store_axioms files sample_dir_lengths, of ?fs ?args]
    by (auto simp: list_kv_def)
qed


section \<open>Properties of the sidecar\<close>

text \<open>How many iterations a thread makes at most once the flag is cleared.\<close>

fun iterations_left :: "sidecar_thread \<Rightarrow> nat" where
  "iterations_left (Consumer_Thread c) = (if c = Opening then 2 else if c = Finished \<or> c = Panicked then 0 else 1)"
| "iterations_left (Worker_Thread ended) = (if ended then 0 else 1)"
| "iterations_left (Metrics_Thread ended) = (if ended then 0 else 1)"

lemma iterations_left_0: "iterations_left t = 0 \<longleftrightarrow> thread_finished t"
  by (cases t) auto

lemma iterations_left_2: "iterations_left t \<le> 2"
  by (cases t) auto

lemma thread_iterate_running:
  assumes "thread_iterate ring t rt = (t', rt')"
  shows "rt_running rt' = rt_running rt"
proof (cases t)
  case (Consumer_Thread c)
  then show ?thesis
    using assms consumer_frame [of "fst ring" "fst (snd ring)" "snd (snd ring)" c rt] by (cases ring) (auto split: prod.splits)
qed (use assms in \<open>auto simp: query_worker_step_def split: if_splits\<close>)

lemma thread_iterate_stopped:
  assumes "thread_iterate ring t rt = (t', rt')" "\<not> rt_running rt"
  shows "iterations_left t' = iterations_left t - 1"
proof (cases t)
  case (Consumer_Thread c)
  then show ?thesis
    using assms by (cases ring; cases c) (auto split: result.splits)
qed (use assms in \<open>auto split: if_splits\<close>)

text \<open>While the flag is set, only a consumer that panicked has ended.\<close>

lemma consumer_alive:
  assumes "geyser_consumer_step io len m c rt = (c', rt')" "rt_running rt" "c \<noteq> Finished"
  shows "c' \<noteq> Finished"
  using assms
  by (cases "(io, len, m, c, rt)" rule: geyser_consumer_step.cases)
    (auto split: result.splits prod.splits option.splits if_splits)

lemma thread_iterate_alive:
  assumes "thread_iterate ring t rt = (t', rt')" "rt_running rt" "thread_finished t \<longrightarrow> t = Consumer_Thread Panicked"
  shows "thread_finished t' \<longrightarrow> t' = Consumer_Thread Panicked"
proof (cases t)
  case (Consumer_Thread c)
  then show ?thesis
    using assms consumer_alive [of "fst ring" "fst (snd ring)" "snd (snd ring)" c rt] by (cases ring) (auto split: prod.splits)
qed (use assms in \<open>auto split: if_splits\<close>)

lemma sidecar_step_cases:
  assumes "sidecar_step (i, ring) (rt, ts) = (rt', ts')"
  shows "length ts' = length ts \<and> rt_running rt' = rt_running rt \<and>
    (if i < length ts then \<exists>t. thread_iterate ring (ts ! i) rt = (t, rt') \<and> ts' = ts[i := t] else ts' = ts)"
  using assms by (auto dest: thread_iterate_running simp: sidecar_step_def Let_def split: if_splits prod.splits)

lemma sidecar_run_alive:
  "rt_running rt \<Longrightarrow> \<forall>t\<in>set ts. thread_finished t \<longrightarrow> t = Consumer_Thread Panicked \<Longrightarrow> fold sidecar_step turns (rt, ts) = (rt', ts') \<Longrightarrow>
   rt_running rt' \<and> length ts' = length ts \<and> (\<forall>t\<in>set ts'. thread_finished t \<longrightarrow> t = Consumer_Thread Panicked)"
proof (induction turns arbitrary: rt ts)
  case (Cons x turns)
  obtain i ring where x: "x = (i, ring)" by (cases x)
  obtain rt1 ts1 where st: "sidecar_step (i, ring) (rt, ts) = (rt1, ts1)" by fastforce
  note c = sidecar_step_cases [OF st]
  have "\<forall>t\<in>set ts1. thread_finished t \<longrightarrow> t = Consumer_Thread Panicked"
  proof (cases "i < length ts")
    case True
    then obtain t where t: "thread_iterate ring (ts ! i) rt = (t, rt1)" "ts1 = ts[i := t]" using c by auto
    have "thread_finished t \<longrightarrow> t = Consumer_Thread Panicked"
      using thread_iterate_alive [OF t(1) Cons.prems(1)] Cons.prems(2) True by simp
    then show ?thesis using Cons.prems(2) t(2) set_update_subset_insert [of ts i t] by blast
  next
    case False
    then show ?thesis using c Cons.prems(2) by simp
  qed
  then show ?case using Cons.IH [of rt1 ts1] Cons.prems c by (simp add: x st)
qed simp

lemma sidecar_run_stopped:
  "\<not> rt_running rt \<Longrightarrow> fold sidecar_step turns (rt, ts) = (rt', ts') \<Longrightarrow> i < length ts \<Longrightarrow>
   length ts' = length ts \<and> iterations_left (ts' ! i) = iterations_left (ts ! i) - count_list (map fst turns) i"
proof (induction turns arbitrary: rt ts)
  case (Cons x turns)
  obtain j ring where x: "x = (j, ring)" by (cases x)
  obtain rt1 ts1 where st: "sidecar_step (j, ring) (rt, ts) = (rt1, ts1)" by fastforce
  note c = sidecar_step_cases [OF st]
  have "iterations_left (ts1 ! i) = iterations_left (ts ! i) - (if j = i then 1 else 0)"
    using c Cons.prems(1,3) by (auto dest: thread_iterate_stopped split: if_splits)
  then show ?case using Cons.IH [of rt1 ts1] Cons.prems c by (simp add: x st)
qed simp

lemma sidecar_boots:
  "\<exists>s0 :: ('pk, 'b) sidecar. sidecar_boot args = Ok s0 \<and> rt_running (fst s0) \<and> (\<forall>t\<in>set (snd s0). \<not> thread_finished t) \<and>
     length (snd s0) = 1 + sa_query_workers args + (if sa_enable_metrics args then 1 else 0)"
proof -
  have "initialize_query_planner (runtime_new :: ('pk, 'b) synapse_runtime) = (Ok (), runtime_new)"
    by (simp add: initialize_query_planner_def manager_planner_def runtime_new_def index_manager_new_def index_manager_config_default_def)
  then show ?thesis by (auto simp: sidecar_boot_def runtime_start_def sidecar_config_def Let_def)
qed

text \<open>C16: However the threads are scheduled, before the shutdown no thread has ended except a consumer
  that panicked, and once the flag is cleared every thread ends within two iterations of its
  loop, so that joining all of them returns.
\<close>

theorem sidecar_shutdown_completes:
  fixes s0 :: "('pk, 'b) sidecar"
  assumes "sidecar_boot args = Ok s0" "s = fold sidecar_step turns s0" "s' = fold sidecar_step turns' (sidecar_shutdown s)"
    and "\<forall>i < length (snd s). 2 \<le> count_list (map fst turns') i"
  shows "length (snd s) = 1 + sa_query_workers args + (if sa_enable_metrics args then 1 else 0) \<and>
    (\<forall>t\<in>set (snd s). thread_finished t \<longrightarrow> t = Consumer_Thread Panicked) \<and> all_joined s'"
proof -
  have s0: "rt_running (fst s0)" "\<forall>t\<in>set (snd s0). \<not> thread_finished t"
    "length (snd s0) = 1 + sa_query_workers args + (if sa_enable_metrics args then 1 else 0)"
    using sidecar_boots [of args, where 'pk = 'pk and 'b = 'b] assms(1) by auto
  have a: "rt_running (fst s) \<and> length (snd s) = length (snd s0) \<and> (\<forall>t\<in>set (snd s). thread_finished t \<longrightarrow> t = Consumer_Thread Panicked)"
    using sidecar_run_alive [OF s0(1), of "snd s0" turns "fst s" "snd s"] s0(2) assms(2) by simp
  have e: "length (snd s') = length (snd s) \<and> iterations_left (snd s' ! i) = 0" if "i < length (snd s)" for i
    using sidecar_run_stopped [of "fst (sidecar_shutdown s)" turns' "snd s" "fst s'" "snd s'" i] that assms(3,4)
      iterations_left_2 [of "snd s ! i"]
    by (force simp: sidecar_shutdown_def runtime_stop_def)
  have "length (snd s') = length (snd s)" "\<forall>i < length (snd s). thread_finished (snd s' ! i)"
    using e [of 0] e s0(3) a by (auto simp: iterations_left_0)
  then have "all_joined s'" by (auto simp: all_joined_def in_set_conv_nth)
  then show ?thesis using a s0(3) by simp
qed

theorem sidecar_shutdown_completes_witness:
  "\<exists>s0 :: (nat, nat) sidecar. sidecar_boot \<lparr> sa_ring_path = ''r'', sa_delta_path = ''d'', sa_index_path = ''i'', sa_base_locator_path = ''b'',
       sa_rpc_bind = ''0.0.0.0:8898'', sa_query_workers = 1, sa_index_workers = 1, sa_enable_metrics = True, sa_metrics_port = 9090,
       sa_log_level = ''info'', sa_dev = False \<rparr> = Ok s0 \<and>
     all_joined (fold sidecar_step (map (\<lambda>i. (i, False, 0, \<lparr> rb_write_pos = 0, rb_read_pos = 0, rb_capacity = 400, rb_entry_count = 0,
       rb_state = 1, rb_bytes = [] \<rparr>)) [2, 0, 1, 0, 1, 2]) (sidecar_shutdown s0))"
proof -
  let ?args = "\<lparr> sa_ring_path = ''r'', sa_delta_path = ''d'', sa_index_path = ''i'', sa_base_locator_path = ''b'',
       sa_rpc_bind = ''0.0.0.0:8898'', sa_query_workers = 1, sa_index_workers = 1, sa_enable_metrics = True, sa_metrics_port = 9090,
       sa_log_level = ''info'', sa_dev = False \<rparr>"
  let ?turns = "map (\<lambda>i. (i, False, 0, \<lparr> rb_write_pos = 0, rb_read_pos = 0, rb_capacity = 400, rb_entry_count = 0,
       rb_state = 1, rb_bytes = [] \<rparr>)) [2, 0, 1, 0, 1, 2]"
  obtain s0 :: "(nat, nat) sidecar" where s0: "sidecar_boot ?args = Ok s0" "length (snd s0) = 3"
    using sidecar_boots [of ?args, where 'pk = nat and 'b = nat] by auto
  have "\<forall>i < length (snd s0). 2 \<le> count_list (map fst ?turns) i" by (auto simp: s0(2) less_Suc_eq numeral_3_eq_3)
  then show ?thesis using sidecar_shutdown_completes [OF s0(1), of s0 "[]" _ ?turns] s0(1) by auto
qed

section \<open>Failures of the base scanner\<close>

lemma insert_batch_loop_Ok: "\<exists>db'. insert_batch_loop K to_bytes lost ps db = Ok db'"
  by (induction ps arbitrary: db) (auto simp: serialize_location_bytes)

text \<open>The locator table behind the batch: the locations whose write was not lost.\<close>

definition stored_table ::
  "('t, byte list, byte list) kv_ops \<Rightarrow> ('pk \<Rightarrow> byte list) \<Rightarrow> database_outcomes \<Rightarrow> 'pk parsed_account list \<Rightarrow> 't \<Rightarrow> 't" where
  "stored_table K to_bytes oc accounts db =
     fold (\<lambda>a t. if do_locator_lost oc (to_bytes (pa_pubkey a)) then t
                 else kv_insert K (to_bytes (pa_pubkey a)) (location_bytes (pa_location a)) t) accounts db"

lemma insert_batch_loop_stored:
  "insert_batch_loop K to_bytes (do_locator_lost oc) (map (\<lambda>a. (pa_pubkey a, pa_location a)) accounts) db =
     Ok (stored_table K to_bytes oc accounts db)"
  by (induction accounts arbitrary: db) (auto simp: serialize_location_bytes stored_table_def)

lemma base_scanner_scanned:
  assumes "fst (scanner_scan (base_scanner_config args) try_from (fs_accounts fs (ba_accounts_path args)) []) = Ok scanned"
    and "fs1 = fs \<lparr> fs_locators := (fs_locators fs)(ba_locator_path args :=
           stored_table K to_bytes oc (sc_accounts scanned) (fs_locators fs (ba_locator_path args))) \<rparr>"
  shows "base_scanner_main K D try_from to_bytes oc args fs =
    (if \<not> do_locator_open oc \<or> \<not> do_locator_batch oc then (Err (Locator_Failed BackendError), fs)
     else if \<not> do_locator_count oc then (Err (Locator_Failed BackendError), fs1)
     else base_scanner_dictionary D to_bytes oc args (sc_accounts scanned) fs1)"
proof -
  have "fs \<lparr> fs_locators := (fs_locators fs)(p := fs_locators fs p) \<rparr> = fs" for p by simp
  then show ?thesis
    using assms insert_batch_loop_stored [of K to_bytes oc "sc_accounts scanned"]
    by (auto simp: base_scanner_main_def locator_open_def locator_insert_batch_def locator_count_def Let_def)
qed

lemma dictionary_failures:
  assumes "\<not> do_dictionary_open oc \<or> \<not> do_dictionary_begin oc \<or> \<not> do_dictionary_commit oc"
  shows "base_scanner_dictionary D to_bytes oc args accounts fs =
    (if do_dictionary_open oc then (Ok (), fs) else (Err (Dictionary_Failed DictBackend), fs))"
proof -
  have "fs \<lparr> fs_dictionaries := (fs_dictionaries fs)(p := fs_dictionaries fs p) \<rparr> = fs" for p by simp
  then show ?thesis using assms by (auto simp: base_scanner_dictionary_def pp_open_def pp_insert_batch_def Let_def)
qed

lemma discover_no_files:
  assumes "\<forall>e\<in>set entries. de_is_file e \<longrightarrow> parse_file_id (de_name e) = None"
  shows "discover_account_files (Some entries) = Ok []"
proof -
  have "concat (map (\<lambda>e. if de_is_file e then (case parse_file_id (de_name e) of Some i \<Rightarrow> [(i, e)] | None \<Rightarrow> []) else []) entries) = []"
    using assms by auto
  then show ?thesis by (simp only: discover_account_files_def option.case sort_key_simps(1))
qed



end
