(* ===== verification/Cli_App.thy ===== *)
theory Cli_App
  imports Query_Cost Std_Text
begin

text \<open>
  The terminal application (\<open>synapse-hyper-cli/src\<close>): its state (\<open>app.rs\<close>), the event loop
  (\<open>main.rs\<close>) and the parsers of test and benchmark output (\<open>runner.rs\<close>).

  The loop is run on the list of events it reads, with the time of the two places that read
  the clock; drawing, sleeping and the terminal setup are left out.  Text is UTF-8, a
  character being one byte.  Reading an \<open>f64\<close> from text and rounding are arguments.
\<close>

section \<open>The application state\<close>

record test_config =
  tc_features :: string
  tc_profile :: string
  tc_timeout :: u64
  tc_verbose :: bool
  tc_report_file :: "string option"

definition test_config_default :: test_config where
  "test_config_default =
     \<lparr> tc_features = ''rocksdb-backend'', tc_profile = ''all'', tc_timeout = 300, tc_verbose = False, tc_report_file = None \<rparr>"

record benchmark_result =
  br_name :: string
  br_time_ns :: u64
  br_throughput :: "rat option"
  br_samples :: u32

record test_stats =
  tst_total_tests :: u32
  tst_passed_tests :: u32
  tst_failed_tests :: u32
  tst_ignored_tests :: u32
  tst_running_tests :: u32
  tst_elapsed_secs :: u64
  tst_throughput :: rat
  tst_benchmark_results :: "benchmark_result list"
  tst_recent_errors :: "string list"

definition test_stats_default :: test_stats where
  "test_stats_default =
     \<lparr> tst_total_tests = 0, tst_passed_tests = 0, tst_failed_tests = 0, tst_ignored_tests = 0, tst_running_tests = 0,
       tst_elapsed_secs = 0, tst_throughput = 0, tst_benchmark_results = [], tst_recent_errors = [] \<rparr>"

record app =
  app_config :: test_config
  app_active_tab :: nat
  app_running :: bool
  app_confirm_quit :: bool
  app_logs :: "string list"
  app_scroll_offset :: int
  app_start_time :: "int option"
  app_stats :: test_stats

definition app_new :: "test_config \<Rightarrow> app" where
  "app_new config =
     \<lparr> app_config = config, app_active_tab = 0, app_running = False, app_confirm_quit = False, app_logs = [],
       app_scroll_offset = 0, app_start_time = None, app_stats = test_stats_default \<rparr>"

text \<open>The messages begin with U+25B6 and U+25FC.\<close>

definition start_message :: string where
  "start_message = [CHR 0xE2, CHR 0x96, CHR 0xB6] @ '' Starting test run...''"

definition stop_message :: string where
  "stop_message = [CHR 0xE2, CHR 0x97, CHR 0xBC] @ '' Test stopped by user''"

definition start_test :: "int \<Rightarrow> app \<Rightarrow> app" where
  "start_test now a =
     (if \<not> app_running a
      then a \<lparr> app_running := True, app_start_time := Some now, app_logs := [start_message], app_stats := test_stats_default \<rparr>
      else a)"

definition stop_test :: "app \<Rightarrow> app" where
  "stop_test a = (if app_running a then a \<lparr> app_running := False, app_logs := app_logs a @ [stop_message] \<rparr> else a)"

definition restart_test :: "int \<Rightarrow> app \<Rightarrow> app" where
  "restart_test now a = start_test now (stop_test a)"

definition next_tab :: "app \<Rightarrow> app" where
  "next_tab a = a \<lparr> app_active_tab := (app_active_tab a + 1) mod 4 \<rparr>"

definition prev_tab :: "app \<Rightarrow> app" where
  "prev_tab a = a \<lparr> app_active_tab := (if app_active_tab a = 0 then 3 else app_active_tab a - 1) \<rparr>"

text \<open>\<open>i16\<close> with saturation.\<close>

definition scroll_up :: "app \<Rightarrow> app" where
  "scroll_up a = a \<lparr> app_scroll_offset := max (- 32768) (app_scroll_offset a - 1) \<rparr>"

definition scroll_down :: "app \<Rightarrow> app" where
  "scroll_down a = a \<lparr> app_scroll_offset := min 32767 (app_scroll_offset a + 1) \<rparr>"

text \<open>Times are milliseconds; a duration has its seconds rounded towards zero.\<close>

definition whole_seconds :: "int \<Rightarrow> int" where
  "whole_seconds d = (if d < 0 then - ((- d) div 1000) else d div 1000)"

definition app_update :: "(rat \<Rightarrow> rat) \<Rightarrow> int \<Rightarrow> app \<Rightarrow> app" where
  "app_update f64 now a =
     (if app_running a
      then (let st = app_stats a;
                st1 = (case app_start_time a of
                         Some start \<Rightarrow> st \<lparr> tst_elapsed_secs := word_of_int (whole_seconds (now - start)) \<rparr>
                       | None \<Rightarrow> st);
                st2 = (if tst_elapsed_secs st1 > 0
                       then st1 \<lparr> tst_throughput := f64 (f64 (of_nat (unat (tst_passed_tests st1 + tst_failed_tests st1))) /
                                                     f64 (of_nat (unat (tst_elapsed_secs st1)))) \<rparr>
                       else st1)
            in a \<lparr> app_stats := st2 \<rparr>)
      else a)"

definition add_log :: "string \<Rightarrow> app \<Rightarrow> app" where
  "add_log message a =
     (let logs = app_logs a @ [message] in a \<lparr> app_logs := (if length logs > 1000 then tl logs else logs) \<rparr>)"


section \<open>The event loop\<close>

datatype key_code = Key_Char char | Key_Tab | Key_BackTab | Key_Up | Key_Down | Key_Other

datatype tui_event = Event_Key key_code | Event_Other

text \<open>The reaction to a key; \<open>None\<close> leaves the loop.\<close>

definition handle_key :: "int \<Rightarrow> key_code \<Rightarrow> app \<Rightarrow> app option" where
  "handle_key now key a =
     (case key of
        Key_Tab \<Rightarrow> Some (next_tab a)
      | Key_BackTab \<Rightarrow> Some (prev_tab a)
      | Key_Up \<Rightarrow> Some (scroll_up a)
      | Key_Down \<Rightarrow> Some (scroll_down a)
      | Key_Other \<Rightarrow> Some a
      | Key_Char x \<Rightarrow>
          if x = CHR ''q'' then (if app_confirm_quit a then None else Some (a \<lparr> app_confirm_quit := True \<rparr>))
          else if x = CHR ''c'' \<or> x = CHR ''C'' then Some (if app_running a then stop_test a else a)
          else if x = CHR ''r'' then Some (restart_test now a)
          else if x = CHR '' '' then Some (if \<not> app_running a then start_test now a else a)
          else if x = CHR ''k'' then Some (scroll_up a)
          else if x = CHR ''j'' then Some (scroll_down a)
          else if x = CHR ''1'' then Some (a \<lparr> app_active_tab := 0 \<rparr>)
          else if x = CHR ''2'' then Some (a \<lparr> app_active_tab := 1 \<rparr>)
          else if x = CHR ''3'' then Some (a \<lparr> app_active_tab := 2 \<rparr>)
          else if x = CHR ''4'' then Some (a \<lparr> app_active_tab := 3 \<rparr>)
          else Some a)"

record tui_input =
  ti_event :: tui_event
  ti_now :: int
  ti_later :: int

definition loop_body :: "(rat \<Rightarrow> rat) \<Rightarrow> tui_input \<Rightarrow> app \<Rightarrow> app option" where
  "loop_body f64 i a =
     (case (case ti_event i of Event_Key key \<Rightarrow> handle_key (ti_now i) key a | Event_Other \<Rightarrow> Some a) of
        None \<Rightarrow> None
      | Some a' \<Rightarrow> Some (if app_running a' then app_update f64 (ti_later i) a' else a'))"

text \<open>
  The loop on the events read so far: \<open>Inl a\<close> when it has returned, with the state it was
  left in, \<open>Inr a\<close> when it waits for the next event.
\<close>

fun run_app :: "(rat \<Rightarrow> rat) \<Rightarrow> tui_input list \<Rightarrow> app \<Rightarrow> app + app" where
  "run_app f64 [] a = Inr a"
| "run_app f64 (i # rest) a = (case loop_body f64 i a of None \<Rightarrow> Inl a | Some a' \<Rightarrow> run_app f64 rest a')"


section \<open>Output of the test runner\<close>

datatype test_event =
    TestStarted string
  | TestPassed string
  | TestFailed string string
  | TestIgnored string
  | BenchmarkEvent benchmark_result
  | LogEvent string
  | Finished u32 u32 u32

definition test_name :: "string \<Rightarrow> string \<Rightarrow> string" where
  "test_name verdict line =
     (case map_option (before_sub ''test '') (after_sub ''test '' line) of
        Some xs \<Rightarrow> before_sub verdict xs
      | None \<Rightarrow> ''unknown'')"

definition parse_test_line :: "string \<Rightarrow> test_event list" where
  "parse_test_line line =
     (if contains ''test '' line
      then (if contains '' ... ok'' line then [TestPassed (test_name '' ... ok'' line)]
            else if contains '' ... FAILED'' line then [TestFailed (test_name '' ... FAILED'' line) line]
            else if contains '' ... ignored'' line then [TestIgnored (test_name '' ... ignored'' line)]
            else [])
      else []) @ [LogEvent line]"

text \<open>\<open>parse_f64\<close> and \<open>parse_u32\<close> stand for \<open>str::parse\<close>.\<close>

definition parse_bench_line ::
  "(rat \<Rightarrow> rat) \<Rightarrow> (string \<Rightarrow> rat option) \<Rightarrow> (string \<Rightarrow> u32 option) \<Rightarrow> string \<Rightarrow> (unit, test_event list) result" where
  "parse_bench_line f64 parse_f64 parse_u32 line =
     (if contains ''ms'' line \<and> contains ''samples'' line
      then (let parts = split_whitespace line in
            if length parts \<ge> 3
            then (if length parts = 3 then Panic
                  else let time_ms = (case parse_f64 (parts ! 1) of Some t \<Rightarrow> t | None \<Rightarrow> 0);
                           samples = (case parse_u32 (trim_end_char (CHR 41) (trim_start_char (CHR 40) (parts ! 3))) of Some n \<Rightarrow> n | None \<Rightarrow> 0)
                       in Ok [BenchmarkEvent \<lparr> br_name = parts ! 0, br_time_ns = f64_to_u64 (f64 (time_ms * 1000000)),
                                                br_throughput = None, br_samples = samples \<rparr>, LogEvent line])
            else Ok [LogEvent line])
      else Ok [LogEvent line])"

section \<open>The loop\<close>

definition is_quit_key :: "tui_input \<Rightarrow> bool" where
  "is_quit_key i \<longleftrightarrow> ti_event i = Event_Key (Key_Char (CHR ''q''))"

definition app_ok :: "app \<Rightarrow> bool" where
  "app_ok a \<longleftrightarrow>
     app_active_tab a < 4 \<and> - 32768 \<le> app_scroll_offset a \<and> app_scroll_offset a \<le> 32767 \<and>
     (app_running a \<longrightarrow> app_logs a = [start_message] \<and> app_start_time a \<noteq> None) \<and> length (app_logs a) \<le> 2 \<and>
     tst_total_tests (app_stats a) = 0 \<and> tst_passed_tests (app_stats a) = 0 \<and> tst_failed_tests (app_stats a) = 0 \<and>
     tst_benchmark_results (app_stats a) = []"

lemma app_ok_new: "app_ok (app_new config)"
  by (simp add: app_ok_def app_new_def test_stats_default_def)

lemma app_ok_ops:
  assumes "app_ok a"
  shows "app_ok (start_test now a)" "app_ok (stop_test a)" "app_ok (next_tab a)" "app_ok (prev_tab a)"
    "app_ok (scroll_up a)" "app_ok (scroll_down a)" "n < 4 \<Longrightarrow> app_ok (a \<lparr> app_active_tab := n \<rparr>)"
    "app_ok (a \<lparr> app_confirm_quit := b \<rparr>)"
  using assms
  by (auto simp: app_ok_def start_test_def stop_test_def next_tab_def prev_tab_def scroll_up_def scroll_down_def
      test_stats_default_def)

lemma app_ok_update: "app_ok a \<Longrightarrow> app_ok (app_update f64 now a)"
  by (auto simp: app_ok_def app_update_def Let_def split: option.split)

lemma confirm_ops:
  "app_confirm_quit (start_test now a) = app_confirm_quit a" "app_confirm_quit (stop_test a) = app_confirm_quit a"
  "app_confirm_quit (next_tab a) = app_confirm_quit a" "app_confirm_quit (prev_tab a) = app_confirm_quit a"
  "app_confirm_quit (scroll_up a) = app_confirm_quit a" "app_confirm_quit (scroll_down a) = app_confirm_quit a"
  "app_confirm_quit (app_update f64 now a) = app_confirm_quit a"
  by (simp_all add: start_test_def stop_test_def next_tab_def prev_tab_def scroll_up_def scroll_down_def app_update_def Let_def)

lemma handle_key_ok:
  assumes "app_ok a" "handle_key now key a = Some a'"
  shows "app_ok a' \<and> app_confirm_quit a' = (app_confirm_quit a \<or> key = Key_Char (CHR ''q''))"
proof (cases key)
  case (Key_Char x)
  then show ?thesis
    using assms app_ok_ops [OF assms(1)] app_ok_ops(1) [OF app_ok_ops(2) [OF assms(1)]]
    by (auto simp: handle_key_def restart_test_def confirm_ops split: if_splits)
qed (use assms app_ok_ops [OF assms(1)] in \<open>auto simp: handle_key_def confirm_ops\<close>)

lemma handle_key_quits: "handle_key now key a = None \<longleftrightarrow> key = Key_Char (CHR ''q'') \<and> app_confirm_quit a"
  by (auto simp: handle_key_def split: key_code.splits)

lemma loop_body_ok:
  assumes "app_ok a"
  shows "loop_body f64 i a = None \<longleftrightarrow> is_quit_key i \<and> app_confirm_quit a"
    "loop_body f64 i a = Some a' \<Longrightarrow> app_ok a' \<and> app_confirm_quit a' = (app_confirm_quit a \<or> is_quit_key i)"
proof -
  let ?h = "case ti_event i of Event_Key key \<Rightarrow> handle_key (ti_now i) key a | Event_Other \<Rightarrow> Some a"
  have none: "?h = None \<longleftrightarrow> is_quit_key i \<and> app_confirm_quit a"
    by (cases "ti_event i") (simp_all add: is_quit_key_def handle_key_quits)
  have some: "?h = Some b \<Longrightarrow> app_ok b \<and> app_confirm_quit b = (app_confirm_quit a \<or> is_quit_key i)" for b
    using handle_key_ok [OF assms, of "ti_now i" _ b] assms by (cases "ti_event i") (auto simp: is_quit_key_def)
  show "loop_body f64 i a = None \<longleftrightarrow> is_quit_key i \<and> app_confirm_quit a"
    using none by (auto simp: loop_body_def split: option.splits)
  show "loop_body f64 i a = Some a' \<Longrightarrow> app_ok a' \<and> app_confirm_quit a' = (app_confirm_quit a \<or> is_quit_key i)"
    using some by (auto simp: loop_body_def app_ok_update confirm_ops split: option.splits if_splits)
qed

definition final_app :: "app + app \<Rightarrow> app" where
  "final_app r = (case r of Inl a \<Rightarrow> a | Inr a \<Rightarrow> a)"

lemma run_app_ok:
  "app_ok a \<Longrightarrow> app_ok (final_app (run_app f64 is a)) \<and>
   (isl (run_app f64 is a) \<longleftrightarrow> (if app_confirm_quit a then 1 else 2) \<le> length (filter is_quit_key is))"
proof (induction "is" arbitrary: a)
  case Nil
  then show ?case by (simp add: final_app_def)
next
  case (Cons i rest)
  show ?case
  proof (cases "loop_body f64 i a")
    case None
    then show ?thesis using Cons.prems loop_body_ok(1) [OF Cons.prems, of f64 i] by (simp add: final_app_def)
  next
    case (Some a')
    then have "app_ok a'" "app_confirm_quit a' = (app_confirm_quit a \<or> is_quit_key i)" "\<not> (is_quit_key i \<and> app_confirm_quit a)"
      using loop_body_ok [OF Cons.prems, of f64 i] by auto
    then show ?thesis using Some Cons.IH [of a'] by auto
  qed
qed

text \<open>Whatever events arrive, the loop has returned exactly when \<open>q\<close> was pressed twice, with
  any keys in between; until then and when it returns, the active tab is one of the four, the
  scroll position is an \<open>i16\<close>, a running test has a start time and the log holds at most two
  lines; and no test is ever counted.
\<close>

theorem tui_loop_invariant:
  "(isl (run_app f64 is (app_new config)) \<longleftrightarrow> 2 \<le> length (filter is_quit_key is)) \<and>
   app_ok (final_app (run_app f64 is (app_new config)))"
  using run_app_ok [OF app_ok_new, of f64 "is" config] by (simp add: app_new_def)


section \<open>The parsers\<close>

text \<open>A line of a passed test yields its name; three words of a benchmark line panic.\<close>

lemma parse_test_line_sample:
  "parse_test_line ''test lsm::insert ... ok'' = [TestPassed ''lsm::insert'', LogEvent ''test lsm::insert ... ok'']"
  by code_simp

lemma bench_line_panics: "parse_bench_line f64 pf pu ''bench 1.2ms (samples)'' = Panic"
  by code_simp

end
