(* ===== verification/Cli_Runner.thy ===== *)
theory Cli_Runner
  imports Cli_App
begin

text \<open>
  The rest of the terminal application: what is drawn (\<open>ui.rs\<close>), the test runner that starts
  cargo (\<open>runner.rs\<close>) and the entry point (\<open>main.rs\<close>).

  A screen is the content handed to the widgets, a text being the list of its fields; layout,
  colours and separators are left out, and the text of a number with two decimals is an argument.  A process of cargo is a record of what it does:
  whether it starts, the lines it writes (\<open>None\<close> when a line cannot be read) and how it ends.
  The runner sends its events from two threads, so that the receiver sees an interleaving.
\<close>

section \<open>Screens\<close>

text \<open>\<open>i16 as usize\<close> extends the sign; skipping more than there is leaves nothing.\<close>

definition scroll_skip :: "app \<Rightarrow> nat" where
  "scroll_skip a = nat (app_scroll_offset a mod 2 ^ 64)"

definition visible_logs :: "app \<Rightarrow> string list" where
  "visible_logs a = drop (scroll_skip a) (app_logs a)"

definition stats_text :: "(rat \<Rightarrow> string) \<Rightarrow> test_stats \<Rightarrow> string list" where
  "stats_text show2 st =
     [''Total: '' @ decimal (unat (tst_total_tests st)), ''Passed: '' @ decimal (unat (tst_passed_tests st)),
      ''Failed: '' @ decimal (unat (tst_failed_tests st)), ''Ignored: '' @ decimal (unat (tst_ignored_tests st)),
      ''Running: '' @ decimal (unat (tst_running_tests st)), ''Elapsed: '' @ decimal (unat (tst_elapsed_secs st)) @ ''s'',
      ''Throughput: '' @ show2 (tst_throughput st) @ ''/sec'']"

definition result_line :: "(rat \<Rightarrow> rat) \<Rightarrow> (rat \<Rightarrow> string) \<Rightarrow> benchmark_result \<Rightarrow> string" where
  "result_line f64 show2 b =
     br_name b @ '': '' @ show2 (f64 (f64 (of_nat (unat (br_time_ns b))) / 1000000)) @ ''ms ('' @ decimal (unat (br_samples b)) @ '' samples)'' @
     (case br_throughput b of Some t \<Rightarrow> '' | '' @ show2 t @ '' MB/s'' | None \<Rightarrow> [])"

text \<open>\<open>f64 as u16\<close> saturates.\<close>

definition success_rate :: "(rat \<Rightarrow> rat) \<Rightarrow> test_stats \<Rightarrow> nat" where
  "success_rate f64 st =
     (let sum = max (tst_total_tests st) 1
      in min 65535 (nat \<lfloor>f64 (f64 (of_nat (unat (tst_passed_tests st)) / of_nat (unat sum)) * 100)\<rfloor>))"

definition config_text :: "test_config \<Rightarrow> string list" where
  "config_text c =
     [''Features: '' @ tc_features c, ''Profile: '' @ tc_profile c, ''Timeout: '' @ decimal (unat (tc_timeout c)) @ ''s'',
      ''Verbose: '' @ (if tc_verbose c then ''Yes'' else ''No''),
      ''Report: '' @ (case tc_report_file c of Some f \<Rightarrow> f | None \<Rightarrow> ''None'')]"

datatype screen =
    Overview "string list" "string list"
  | Live_Output "string list"
  | No_Results
  | Results "string list"
  | Metrics nat nat "string list"
  | Blank

definition draw_overview :: "(rat \<Rightarrow> string) \<Rightarrow> app \<Rightarrow> screen" where
  "draw_overview show2 a = Overview (stats_text show2 (app_stats a)) (take 10 (visible_logs a))"

definition draw_live_output :: "app \<Rightarrow> screen" where
  "draw_live_output a = Live_Output (visible_logs a)"

text \<open>A gauge panics above one hundred percent.\<close>

definition draw_results :: "(rat \<Rightarrow> rat) \<Rightarrow> (rat \<Rightarrow> string) \<Rightarrow> app \<Rightarrow> screen" where
  "draw_results f64 show2 a =
     (if tst_benchmark_results (app_stats a) = [] then No_Results
      else Results (map (result_line f64 show2) (tst_benchmark_results (app_stats a))))"

definition draw_metrics :: "(rat \<Rightarrow> rat) \<Rightarrow> app \<Rightarrow> (unit, screen) result" where
  "draw_metrics f64 a =
     (let rate = success_rate f64 (app_stats a)
      in if rate > 100 then Panic else Ok (Metrics rate 42 (config_text (app_config a))))"

definition status_text :: "(rat \<Rightarrow> string) \<Rightarrow> app \<Rightarrow> string" where
  "status_text show2 a =
     (if app_running a
      then ''RUNNING | '' @ decimal (unat (tst_elapsed_secs (app_stats a))) @ ''s elapsed | '' @ show2 (tst_throughput (app_stats a)) @ '' tests/sec''
      else ''IDLE | Press SPACE to start | q to quit'')"

definition draw :: "(rat \<Rightarrow> rat) \<Rightarrow> (rat \<Rightarrow> string) \<Rightarrow> app \<Rightarrow> (unit, screen \<times> string) result" where
  "draw f64 show2 a =
     rbind (if app_active_tab a = 0 then Ok (draw_overview show2 a)
            else if app_active_tab a = 1 then Ok (draw_live_output a)
            else if app_active_tab a = 2 then Ok (draw_results f64 show2 a)
            else if app_active_tab a = 3 then draw_metrics f64 a
            else Ok Blank)
       (\<lambda>content. Ok (content, status_text show2 a))"


section \<open>The runner\<close>

record cargo_process =
  cg_spawned :: bool
  cg_lines :: "string option list"
  cg_success :: "bool option"

text \<open>
  What a run does: the arguments cargo gets, the result, the events of the task and those of the
  thread that reads the output.  \<open>sends\<close> is the number of events the task can send before the
  receiver is gone; the thread ignores that its events are not received.
\<close>

record run_outcome =
  ro_args :: "string list"
  ro_result :: "(unit, unit) result"
  ro_task :: "test_event list"
  ro_thread :: "test_event list"

definition reader_events :: "cargo_process \<Rightarrow> test_event list" where
  "reader_events p = concat (map (\<lambda>line. case line of Some text \<Rightarrow> [LogEvent text] | None \<Rightarrow> []) (cg_lines p))"

definition check_mark :: string where
  "check_mark = [CHR 0xE2, CHR 0x9C, CHR 0x93]"

definition cross_mark :: string where
  "cross_mark = [CHR 0xE2, CHR 0x9C, CHR 0x97]"

definition unit_test_args :: "test_config \<Rightarrow> string \<Rightarrow> string list" where
  "unit_test_args config pattern =
     [''test'', ''--release'', ''--workspace'', ''--features='' @ tc_features config, ''--no-default-features'', ''--color=always''] @
     (if pattern \<noteq> [] then [pattern] else [])"

definition run_unit_tests :: "test_config \<Rightarrow> nat \<Rightarrow> cargo_process \<Rightarrow> string \<Rightarrow> run_outcome" where
  "run_unit_tests config sends p pattern =
     (let args = unit_test_args config pattern;
          starting = LogEvent ''Starting unit tests...'';
          out = reader_events p;
          outcome = (\<lambda>r task thread. \<lparr> ro_args = args, ro_result = r, ro_task = task, ro_thread = thread \<rparr>)
      in if sends = 0 then outcome (Err ()) [] []
         else if \<not> cg_spawned p then outcome (Err ()) [starting] []
         else case cg_success p of
             None \<Rightarrow> outcome (Err ()) [starting] out
           | Some success \<Rightarrow>
               (let done = LogEvent (if success then check_mark @ '' Unit tests completed'' else cross_mark @ '' Unit tests failed'');
                    events = [starting, Finished 0 0 0, done]
                in if sends < 3 then outcome (Err ()) (take sends events) out else outcome (Ok ()) events out))"

definition integration_args :: "test_config \<Rightarrow> string \<Rightarrow> bool \<Rightarrow> string list" where
  "integration_args config name include_performance =
     [''test'', ''--release'', ''--features='' @ tc_features config, ''--no-default-features'', ''--color=always''] @
     (if name \<noteq> [] then [''--test'', name] else [''--test'', ''integration_*'']) @
     (if include_performance then [''--'', ''--ignored'', ''--nocapture''] else [])"

definition run_integration :: "test_config \<Rightarrow> nat \<Rightarrow> cargo_process \<Rightarrow> string \<Rightarrow> bool \<Rightarrow> run_outcome" where
  "run_integration config sends p name include_performance =
     (let args = integration_args config name include_performance;
          starting = LogEvent ''Starting integration tests...'';
          out = reader_events p;
          outcome = (\<lambda>r task thread. \<lparr> ro_args = args, ro_result = r, ro_task = task, ro_thread = thread \<rparr>)
      in if sends = 0 then outcome (Err ()) [] []
         else if \<not> cg_spawned p then outcome (Err ()) [starting] []
         else case cg_success p of
             None \<Rightarrow> outcome (Err ()) [starting] out
           | Some success \<Rightarrow>
               (let done = LogEvent (if success then check_mark @ '' Integration tests completed'' else cross_mark @ '' Integration tests failed'');
                    events = [starting, done]
                in if sends < 2 then outcome (Err ()) (take sends events) out else outcome (Ok ()) events out))"

definition benchmark_args :: "test_config \<Rightarrow> string \<Rightarrow> u32 \<Rightarrow> string list" where
  "benchmark_args config name sample_count =
     [''bench'', ''--release'', ''--features='' @ tc_features config, ''--no-default-features''] @
     (if name \<noteq> [] then [''--bench'', name] else []) @ [''--'', ''--sample-size='' @ decimal (unat sample_count)]"

definition run_benchmarks :: "test_config \<Rightarrow> nat \<Rightarrow> cargo_process \<Rightarrow> string \<Rightarrow> u32 \<Rightarrow> run_outcome" where
  "run_benchmarks config sends p name sample_count =
     (let args = benchmark_args config name sample_count;
          starting = LogEvent ''Starting benchmarks...'';
          out = reader_events p;
          outcome = (\<lambda>r task thread. \<lparr> ro_args = args, ro_result = r, ro_task = task, ro_thread = thread \<rparr>)
      in if sends = 0 then outcome (Err ()) [] []
         else if \<not> cg_spawned p then outcome (Err ()) [starting] []
         else case cg_success p of
             None \<Rightarrow> outcome (Err ()) [starting] out
           | Some success \<Rightarrow>
               (let done = LogEvent (if success then check_mark @ '' Benchmarks completed'' else cross_mark @ '' Benchmarks failed'');
                    events = [starting, done]
                in if sends < 2 then outcome (Err ()) (take sends events) out else outcome (Ok ()) events out))"

text \<open>
  What a receiver can see: the thread is started behind the first event of the task and is never
  joined.
\<close>

definition received :: "run_outcome \<Rightarrow> test_event list set" where
  "received r = (case ro_task r of [] \<Rightarrow> {[]} | e # es \<Rightarrow> (\<lambda>xs. e # xs) ` shuffles es (ro_thread r))"


section \<open>The entry point\<close>

datatype commands =
    Command_Unit string
  | Command_Integration string bool
  | Command_Bench string u32
  | Command_All bool
  | Command_Monitor "u32 option"
  | Command_Report "string option" bool

record cli =
  cli_command :: "commands option"
  cli_features :: string
  cli_profile :: string
  cli_timeout :: u64
  cli_verbose :: bool
  cli_report :: "string option"

definition cli_config :: "cli \<Rightarrow> test_config" where
  "cli_config c =
     \<lparr> tc_features = cli_features c, tc_profile = cli_profile c, tc_timeout = cli_timeout c, tc_verbose = cli_verbose c,
       tc_report_file = cli_report c \<rparr>"

text \<open>
  The lines printed when the session is over; \<open>None\<close> while it runs.  Behind the inputs, drawing or
  reading the next event may fail with an I/O error.
\<close>

definition cli_main :: "(rat \<Rightarrow> rat) \<Rightarrow> cli \<Rightarrow> tui_input list \<Rightarrow> string option \<Rightarrow> string list option" where
  "cli_main f64 c inputs io_error =
     (case run_app f64 inputs (app_new (cli_config c)) of
        Inl a \<Rightarrow> Some (''Test session completed successfully'' #
          (case tc_report_file (app_config a) of Some path \<Rightarrow> [''Report saved to: '' @ path] | None \<Rightarrow> []))
      | Inr a \<Rightarrow> map_option (\<lambda>e. [''Error: '' @ e]) io_error)"


section \<open>Properties\<close>

lemma success_rate_0: "f64 0 = 0 \<Longrightarrow> tst_passed_tests st = 0 \<Longrightarrow> success_rate f64 st = 0"
  by (simp add: success_rate_def Let_def)

lemma scroll_skip_negative:
  assumes "app_ok a" "app_scroll_offset a < 0"
  shows "2 ^ 63 \<le> scroll_skip a"
proof -
  have "app_scroll_offset a mod 2 ^ 64 = app_scroll_offset a + 2 ^ 64"
    using assms mod_pos_pos_trivial [of "app_scroll_offset a + 2 ^ 64" "2 ^ 64"] by (simp add: app_ok_def)
  moreover have "2 ^ 63 \<le> app_scroll_offset a + 2 ^ 64" using assms(1) by (simp add: app_ok_def)
  ultimately show ?thesis by (simp add: scroll_skip_def nat_le_iff le_nat_iff)
qed

lemma scroll_skip_positive: "app_ok a \<Longrightarrow> 0 \<le> app_scroll_offset a \<Longrightarrow> scroll_skip a = nat (app_scroll_offset a)"
  by (simp add: scroll_skip_def app_ok_def)

text \<open>After any events drawing does not panic; scrolled above the top, no line of the log is shown.
\<close>

theorem tui_draw_safe:
  assumes "f64 0 = 0" "a = final_app (run_app f64 inputs (app_new config))"
  shows "draw f64 show2 a \<noteq> Panic \<and>
    visible_logs a = (if app_scroll_offset a < 0 then [] else drop (nat (app_scroll_offset a)) (app_logs a))"
proof -
  have ok: "app_ok a" using run_app_ok [OF app_ok_new, of f64 inputs config] assms(2) by simp
  then have "success_rate f64 (app_stats a) = 0" using success_rate_0 [of f64 "app_stats a"] assms(1) by (simp add: app_ok_def)
  then have "draw f64 show2 a \<noteq> Panic" by (simp add: draw_def draw_metrics_def)
  moreover have "visible_logs a = (if app_scroll_offset a < 0 then [] else drop (nat (app_scroll_offset a)) (app_logs a))"
    using scroll_skip_negative [OF ok] scroll_skip_positive [OF ok] ok by (auto simp: visible_logs_def app_ok_def)
  ultimately show ?thesis by blast
qed

theorem tui_draw_safe_witness:
  "visible_logs (final_app (run_app (\<lambda>x. x) [\<lparr> ti_event = Event_Key (Key_Char (CHR '' '')), ti_now = 0, ti_later = 100 \<rparr>,
       \<lparr> ti_event = Event_Key Key_Up, ti_now = 200, ti_later = 300 \<rparr>] (app_new test_config_default))) = []"
proof -
  let ?a = "final_app (run_app (\<lambda>x. x) [\<lparr> ti_event = Event_Key (Key_Char (CHR '' '')), ti_now = 0, ti_later = 100 \<rparr>,
       \<lparr> ti_event = Event_Key Key_Up, ti_now = 200, ti_later = 300 \<rparr>] (app_new test_config_default))"
  have "app_scroll_offset ?a = - 1"
    by (simp add: final_app_def loop_body_def handle_key_def start_test_def scroll_up_def app_new_def app_update_def Let_def)
  then show ?thesis using tui_draw_safe [of "\<lambda>x. x" ?a _ _ "\<lambda>_. []", OF _ refl] by simp
qed

definition is_log :: "test_event \<Rightarrow> bool" where
  "is_log e \<longleftrightarrow> (case e of LogEvent _ \<Rightarrow> True | _ \<Rightarrow> False)"

lemma reader_only_logs: "filter (\<lambda>e. \<not> is_log e) (reader_events p) = []"
  by (auto simp: reader_events_def filter_empty_conv is_log_def split: option.splits)

lemma received_filter:
  assumes "xs \<in> received r" "filter (\<lambda>e. \<not> is_log e) (ro_thread r) = []"
  shows "filter (\<lambda>e. \<not> is_log e) xs = filter (\<lambda>e. \<not> is_log e) (ro_task r)"
proof (cases "ro_task r")
  case (Cons e es)
  then obtain ys where ys: "xs = e # ys" "ys \<in> shuffles es (ro_thread r)" using assms(1) by (auto simp: received_def)
  then have "filter (\<lambda>e. \<not> is_log e) ys \<in> shuffles (filter (\<lambda>e. \<not> is_log e) es) (filter (\<lambda>e. \<not> is_log e) (ro_thread r))"
    by (metis filter_shuffles imageI)
  then show ?thesis using assms(2) Cons ys(1) by simp
qed (use assms in \<open>simp add: received_def\<close>)

lemma append_in_shuffles: "xs @ ys \<in> shuffles xs ys"
  by (induction xs) (auto simp: Cons_in_shuffles_leftI)

text \<open>Whatever cargo prints and however the two threads interleave, a receiver learns of no single
  test: besides log lines it sees at most the summary with three zeros.  When the run succeeds,
  its final message may come before every line of the output.
\<close>

theorem runner_reports_no_test:
  assumes "xs \<in> received (run_unit_tests config sends p pattern)"
  shows "filter (\<lambda>e. \<not> is_log e) xs \<in> {[], [Finished 0 0 0]} \<and>
    (ro_result (run_unit_tests config sends p pattern) = Ok () \<longrightarrow>
       (\<exists>e es. ro_task (run_unit_tests config sends p pattern) = e # es \<and>
          e # es @ reader_events p \<in> received (run_unit_tests config sends p pattern)))"
proof -
  let ?r = "run_unit_tests config sends p pattern"
  have th: "ro_thread ?r = [] \<or> ro_thread ?r = reader_events p"
    by (auto simp: run_unit_tests_def Let_def split: option.splits)
  have "filter (\<lambda>e. \<not> is_log e) (ro_task ?r) \<in> {[], [Finished 0 0 0]}"
    by (auto simp: run_unit_tests_def Let_def is_log_def take_Cons' split: option.splits)
  moreover have "filter (\<lambda>e. \<not> is_log e) xs = filter (\<lambda>e. \<not> is_log e) (ro_task ?r)"
    using received_filter [OF assms] th reader_only_logs by auto
  moreover have "\<exists>e es. ro_task ?r = e # es \<and> ro_thread ?r = reader_events p" if "ro_result ?r = Ok ()"
    using that by (auto simp: run_unit_tests_def Let_def split: option.splits if_splits)
  ultimately show ?thesis using append_in_shuffles by (fastforce simp: received_def)
qed

theorem runner_reports_no_test_witness:
  "\<exists>xs. xs \<in> received (run_unit_tests test_config_default 3 \<lparr> cg_spawned = True, cg_lines = [Some ''test a ... ok''], cg_success = Some True \<rparr> []) \<and>
     filter (\<lambda>e. \<not> is_log e) xs \<in> {[], [Finished 0 0 0]}"
proof -
  let ?r = "run_unit_tests test_config_default 3 \<lparr> cg_spawned = True, cg_lines = [Some ''test a ... ok''], cg_success = Some True \<rparr> []"
  obtain e es where "ro_task ?r = e # es" by (simp add: run_unit_tests_def Let_def)
  then have "e # es @ ro_thread ?r \<in> received ?r" using append_in_shuffles by (fastforce simp: received_def)
  then show ?thesis using runner_reports_no_test by blast
qed

text \<open>The subcommand is parsed and never looked at.\<close>

lemma cli_main_ignores_command: "cli_main f64 (c \<lparr> cli_command := x \<rparr>) inputs io_error = cli_main f64 c inputs io_error"
  by (simp add: cli_main_def cli_config_def)

end
