(* ===== verification/Spec2Isabelle.thy ===== *)
theory Spec2Isabelle
  imports Location Bitmap Slots Delta_Plane Merkle Base_Locator Query_Planner Runtime Lsm_Bitmap Query_Cache Invalidation Rpc_Server
    Simd_Bitmap Tiered_Dictionary Memcmp_Accelerator Adaptive_Index Shared_Memory Hot_Cold_Index
    Numa_Fabric Dragonfly Rocksdb_Locator Binaries Cli_Runner
begin

text \<open>
  Verification of Synapse Hyperplane, a read engine for Solana accounts
  (\<open>src/crates\<close>).

  \<^bold>\<open>The program.\<close>  A Geyser plugin writes account updates into a memory-mapped ring buffer
  (\<open>geyser-bridge\<close>).  The delta plane drains the ring into segment files, keeps the newest
  update of each account and compacts segments (\<open>delta-plane\<close>).  The base layer scans AppendVec
  files, maps them for reading and keeps the location of every account in an embedded table
  (\<open>account-file-mapper\<close>, \<open>base-locator\<close>).  Secondary indexes map programs, owners, mints,
  sizes, discriminators and byte patterns to bitmaps of account ids (\<open>index-fabric\<close>), over which
  the planner orders filters by cost, intersects and paginates (\<open>query-orchestrator\<close>).  The
  slot reconciler tracks processed, confirmed and finalized slots.  The runtime starts the
  consumer thread and owns the index manager (\<open>synapse-hyperplane\<close>).  A JSON-RPC server answers
  requests behind a rate limiter (\<open>rpc-read-provider\<close>), with response caches and their
  invalidation (\<open>cache-plane\<close>).

  \<^bold>\<open>Shared vocabulary.\<close>  \<open>Prelude\<close> has the result type with its three outcomes \<open>Ok\<close>, \<open>Err\<close> and
  \<open>Panic\<close>, slices, little-endian integers, saturating arithmetic, and association lists for
  \<open>BTreeMap\<close> (sorted) and \<open>HashMap\<close>, both interpretations of the locale \<open>map_impl\<close>.  \<open>Std_Text\<close> has
  the functions on text the sources take from the standard library.  Integers that
  can overflow are words of their width and wrap, as in a release build; lengths that are
  bounded by memory are natural numbers.  Crates and services are records of functions with
  the laws their documentation promises as locales: \<open>roaring\<close> and \<open>roaring32\<close> (bitmaps),
  \<open>kv_store\<close> (the redb table), \<open>rocksdb\<close>, \<open>redis\<close> (the cache server); each has a concrete interpretation,
  on which the witnesses evaluate.  Clocks, iteration orders of hash tables, results of file
  operations, hash functions and the rounding of \<open>f64\<close> are arguments.

  \<^bold>\<open>Theories and sources.\<close>
  \<^item> \<open>Location\<close>: \<open>hyperplane-types/location.rs\<close> and the codec of \<open>base-locator/rocks_locator.rs\<close>.
    Decoding succeeds exactly on encodings; the version order is strict.
  \<^item> \<open>Bitmap\<close>: \<open>hyperplane-types/bitmap.rs\<close>.  The interface \<open>id_set\<close> of all indexes; bitmaps
    refine sets, the dictionary refines the list of its pubkeys.
  \<^item> \<open>Slots\<close>: \<open>hyperplane-types/slot.rs\<close> and \<open>slot-reconciler\<close>.  Sequential invariants, and step
    relations for the interleavings of reconciler calls and of the watermark's compare-and-swap
    loop, which terminates at the maximum.
  \<^item> \<open>Entry_Layout\<close>, \<open>Ring_Buffer\<close>: \<open>geyser-bridge\<close>.  Entries come back in order; the overrun of
    the mapping that the capacity check misses.
  \<^item> \<open>Segment\<close>, \<open>Delta_Plane\<close>: \<open>delta-plane\<close>.  Segments reopen with their statistics; a drained
    batch is one registered segment; the reducer keeps the highest write version.
  \<^item> \<open>Account_File\<close>: \<open>account-file-mapper\<close>.  The scan finds exactly the stored records, always
    ends, and its locations read back.
  \<^item> \<open>Merkle\<close>: \<open>base-locator/checksum.rs\<close>.  The iterative root is the balanced tree's; which
    proofs verify.
  \<^item> \<open>Base_Locator\<close>, \<open>Legacy_Locator\<close>: \<open>redb_impl.rs\<close>, \<open>pubkey_dict_redb.rs\<close> and the locator of
    \<open>rocks_locator.rs\<close>.  They refine a finite map, and agree with each other.
  \<^item> \<open>Location_Store\<close>, \<open>Rocksdb_Locator\<close>: the contract of a store of locations as the locale
    \<open>location_store\<close>, and \<open>rocksdb_impl.rs\<close>.  Both backends are instances and return the same.
  \<^item> \<open>Secondary_Index\<close>: the six indexes and the bitmap store of \<open>index-fabric\<close>, by the locales
    \<open>bitmap_index\<close> and \<open>reverse_index\<close>, one refinement proof for all.
  \<^item> \<open>Query_Cost\<close>, \<open>Query_Planner\<close>: \<open>query-orchestrator\<close>.  The optimized order is optimal and
    answers as the plain one; following cursors visits every result once.
  \<^item> \<open>Index_Manager\<close>, \<open>Runtime\<close>: \<open>hyperplane-types/account.rs\<close> and \<open>synapse-hyperplane\<close>.  A query
    returns exactly the matching accounts; the runtime as a step relation of its threads.
  \<^item> \<open>Lsm_Bitmap\<close>, \<open>Hot_Cold_Index\<close>: \<open>lsm_bitmap.rs\<close> with writers and compactions as interleaved
    tasks, \<open>hot_cold_index.rs\<close> on top of it.
  \<^item> \<open>Simd_Bitmap\<close>, \<open>Tiered_Dictionary\<close>, \<open>Memcmp_Accelerator\<close>, \<open>Adaptive_Index\<close>,
    \<open>Shared_Memory\<close>, \<open>Numa_Fabric\<close>, \<open>Query_Cache\<close>: the modules of \<open>index-fabric\<close> with these
    names.  Word loops compute set operations; dictionary entries are well formed; accelerated
    queries equal a scan; the adaptive index answers from the entries since its last migration;
    what a consumer reads from shared memory; storage round trips; the three cache levels
    behave as one map with a time to live.
  \<^item> \<open>Rpc_Types\<close>, \<open>Rate_Limiter\<close>, \<open>Rpc_Server\<close>: \<open>hyperplane-types/rpc.rs\<close> and
    \<open>rpc-read-provider\<close>.  Every admitted request is answered as its method and parameters
    demand; how many are admitted.
  \<^item> \<open>Cache_Plane\<close>, \<open>Invalidation\<close>, \<open>Dragonfly\<close>: \<open>cache-plane\<close>.  Cached responses are current or
    absent; which queries an update invalidates; the client of the shared cache.
  \<^item> \<open>Binaries\<close>: the programs of \<open>synapse-hyperplane/src/bin\<close>.  The base scanner composes the
    directory scan, the locator, the dictionary and the reader: what it stores reads back.  The
    sidecar owns the runtime and its threads, which all end after a shutdown.
  \<^item> \<open>Cli_App\<close>, \<open>Cli_Runner\<close>: state, event loop, screens, test runner and output parsers of
    \<open>synapse-hyper-cli\<close>.

  \<^bold>\<open>How the proofs are organised.\<close>  A component's theory has its records and operations, then
  the abstract state, an invariant that relates the two with a lemma for every operation, a
  lemma for whole histories, and the properties, which are stated on the operations alone.
  Properties that show a defect state what the code does.

  \<^bold>\<open>Loops, fuel and bounds.\<close>  Loops over data are recursive functions that terminate.  The scan
  of an account file takes fuel, one unit per byte and one more, which is shown to be enough.
  Loops that wait for input are modelled by their body and run over the list of inputs.
  Concurrent components are step functions or relations over all schedules.  Bounds such as
  fewer than \<open>2^64\<close> ids, entries or operations appear as hypotheses where a counter would wrap.

  \<^bold>\<open>Not modelled.\<close>  \<open>base-locator/pubkey_dict.rs\<close>, which no module declares and which calls a
  method the in-memory dictionary does not have; the empty modules of \<open>control-plane\<close>; the
  delta-plane program, a stub that waits for a signal; parsing of command lines, layout and
  colours of the terminal; logging, sleeping and metrics output; serde derivations; benchmarks,
  tests and the copies under \<open>src/.history\<close>.  Where calls are modelled one at a time, the
  theory says so.
\<close>

end
